(* ===== verification/Prelude.thy ===== *)
theory Prelude
  imports Main "HOL-Library.Word"
begin

text \<open>
  Shared vocabulary of the development: the machine types of the kernel, the
  result type of a kernel routine and the combinators the models of the C
  functions are written with, a weakest-precondition reading of them, and the
  generic facts on lists, words and loops that the component theories share.

  A kernel routine is a function from a state to a result.  \<open>Ok x s\<close> is a
  return with value \<open>x\<close> in state \<open>s\<close>; \<open>Panic msg\<close> is the source's
  \<^verbatim>\<open>panic(msg)\<close>, which never returns; \<open>Blocked c s\<close> says that the routine
  cannot go on by itself from \<open>s\<close>: it sleeps on channel \<open>c\<close>, or spins on a
  lock another processor holds, until some other activity changes \<open>s\<close>.
\<close>

unbundle bit_operations_syntax

type_synonym u8 = "8 word"
type_synonym u16 = "16 word"
type_synonym u32 = "32 word"
type_synonym u64 = "64 word"

text \<open>Byte-addressed physical memory.\<close>

type_synonym memory = "u64 \<Rightarrow> u8"

named_theorems mon_simps "unfolding of the combinators of kernel routines"
named_theorems held_simps "how lock states commute with the other fields"

text \<open>
  Names for the kernel objects the code addresses by pointer: the sleep locks
  (one per buffer and one per inode slot), the spin locks, and the channels
  that \<^verbatim>\<open>sleep\<close> and \<^verbatim>\<open>wakeup\<close> use.
\<close>

datatype slkid = SlBuf nat | SlInode nat

datatype lockid =
    LKmem | LPid | LWait | LProc nat | LBcache | LLog | LItable | LFtable
  | LPipe u64 | LCons | LUart | LTicks | LPr | LVdisk | LSleep slkid

datatype chan =
    ChNull | ChSpin lockid | ChSleepLock slkid | ChProc nat
  | ChPipeRead u64 | ChPipeWrite u64 | ChLog | ChTicks | ChCons | ChUart
  | ChDiskFree | ChBuf nat

datatype ('a, 's) res = Ok 'a 's | Panic string | Blocked chan 's

type_synonym ('s, 'a) kmon = "'s \<Rightarrow> ('a, 's) res"

section \<open>Combinators\<close>

abbreviation ret :: "'a \<Rightarrow> ('s, 'a) kmon" where
  "ret \<equiv> Ok"

definition bind :: "('s, 'a) kmon \<Rightarrow> ('a \<Rightarrow> ('s, 'b) kmon) \<Rightarrow> ('s, 'b) kmon" where
  "bind m f = (\<lambda>s. case m s of Ok x t \<Rightarrow> f x t | Panic e \<Rightarrow> Panic e | Blocked c t \<Rightarrow> Blocked c t)"

definition gets :: "('s \<Rightarrow> 'a) \<Rightarrow> ('s, 'a) kmon" where
  "gets f = (\<lambda>s. Ok (f s) s)"

definition modify :: "('s \<Rightarrow> 's) \<Rightarrow> ('s, unit) kmon" where
  "modify f = (\<lambda>s. Ok () (f s))"

definition panic :: "string \<Rightarrow> ('s, 'a) kmon" where
  "panic e = (\<lambda>s. Panic e)"

abbreviation block :: "chan \<Rightarrow> ('s, 'a) kmon" where
  "block \<equiv> Blocked"

definition whenM :: "bool \<Rightarrow> ('s, unit) kmon \<Rightarrow> ('s, unit) kmon" where
  "whenM b m = (if b then m else ret ())"

primrec forM :: "'a list \<Rightarrow> ('a \<Rightarrow> ('s, unit) kmon) \<Rightarrow> ('s, unit) kmon" where
  "forM [] f = ret ()"
| "forM (x # xs) f = bind (f x) (\<lambda>_. forM xs f)"

lemma gets_apply [simp]: "gets f s = Ok (f s) s"
  by (simp add: gets_def)

lemma modify_apply [simp]: "modify f s = Ok () (f s)"
  by (simp add: modify_def)

lemma panic_apply [simp]: "panic e s = Panic e"
  by (simp add: panic_def)

lemma whenM_apply [simp]: "whenM b m s = (if b then m s else Ok () s)"
  by (simp add: whenM_def)

lemma bind_apply [mon_simps]:
  "bind m f s = (case m s of Ok x t \<Rightarrow> f x t | Panic e \<Rightarrow> Panic e | Blocked c t \<Rightarrow> Blocked c t)"
  by (simp add: bind_def)

lemma bind_ret_left [simp]: "bind (ret x) f = f x"
  by (simp add: bind_def)

lemma bind_ret_right [simp]: "bind m ret = m"
  by (rule ext) (simp add: mon_simps split: res.split)

lemma bind_assoc: "bind (bind m f) g = bind m (\<lambda>x. bind (f x) g)"
  by (rule ext) (simp add: mon_simps split: res.split)

text \<open>In a recursive call after \<open>m\<close>, the value of \<open>m\<close> is one it can return.\<close>

lemma bind_cong [fundef_cong]:
  assumes "m = m'" and "\<And>x s t. m' s = Ok x t \<Longrightarrow> f x = g x"
  shows "bind m f = bind m' g"
  using assms by (auto simp: bind_def fun_eq_iff split: res.split)

lemma bind_Ok_iff:
  "bind m f s = Ok y u \<longleftrightarrow> (\<exists>x t. m s = Ok x t \<and> f x t = Ok y u)"
  by (simp add: bind_def split: res.split)

lemma bind_OkE [elim]:
  assumes "bind m f s = Ok y u"
  obtains x t where "m s = Ok x t" and "f x t = Ok y u"
  using assms by (auto simp: bind_Ok_iff)

lemma forM_append: "forM (xs @ ys) f = bind (forM xs f) (\<lambda>_. forM ys f)"
  by (induction xs) (simp_all add: bind_assoc)

section \<open>Weakest preconditions\<close>

text \<open>
  \<open>wp m Q s\<close>: from \<open>s\<close> the routine \<open>m\<close> returns, and its value and final
  state satisfy \<open>Q\<close>; in particular it neither panics nor blocks.
\<close>

definition wp :: "('s, 'a) kmon \<Rightarrow> ('a \<Rightarrow> 's \<Rightarrow> bool) \<Rightarrow> 's \<Rightarrow> bool" where
  "wp m Q s = (case m s of Ok x t \<Rightarrow> Q x t | Panic e \<Rightarrow> False | Blocked c t \<Rightarrow> False)"

lemma wp_ret [simp]: "wp (ret x) Q s = Q x s"
  by (simp add: wp_def)

lemma wp_gets [simp]: "wp (gets f) Q s = Q (f s) s"
  by (simp add: wp_def)

lemma wp_modify [simp]: "wp (modify f) Q s = Q () (f s)"
  by (simp add: wp_def)

lemma wp_panic [simp]: "wp (panic e) Q s = False"
  by (simp add: wp_def)

lemma wp_block [simp]: "wp (block c) Q s = False"
  by (simp add: wp_def)

lemma wp_whenM [simp]: "wp (whenM b m) Q s = (if b then wp m Q s else Q () s)"
  by (simp add: wp_def)

lemma wp_bind [simp]: "wp (bind m f) Q s = wp m (\<lambda>x. wp (f x) Q) s"
  by (simp add: wp_def bind_def split: res.split)

lemma wp_mono: "wp m Q s \<Longrightarrow> (\<And>x t. m s = Ok x t \<Longrightarrow> Q x t \<Longrightarrow> R x t) \<Longrightarrow> wp m R s"
  by (simp add: wp_def split: res.splits)

lemma wp_iff: "wp m Q s \<longleftrightarrow> (\<exists>x t. m s = Ok x t \<and> Q x t)"
  by (simp add: wp_def split: res.split)

lemma wpI: "m s = Ok x t \<Longrightarrow> Q x t \<Longrightarrow> wp m Q s"
  by (simp add: wp_def)

lemma wpE:
  assumes "wp m Q s"
  obtains x t where "m s = Ok x t" and "Q x t"
  using assms by (auto simp: wp_iff)

text \<open>The loop rule: an invariant indexed by the part of the list already done.\<close>

lemma wp_forM:
  assumes "I [] s"
    and "\<And>xs x ys t. zs = xs @ x # ys \<Longrightarrow> I xs t \<Longrightarrow> wp (f x) (\<lambda>_. I (xs @ [x])) t"
  shows "wp (forM zs f) (\<lambda>_. I zs) s"
proof -
  have "wp (forM ys f) (\<lambda>_. I (xs @ ys)) t" if "zs = xs @ ys" "I xs t" for xs ys t
    using that
  proof (induction ys arbitrary: xs t)
    case Nil
    then show ?case by simp
  next
    case (Cons y ys)
    from Cons.prems have "wp (f y) (\<lambda>_. I (xs @ [y])) t"
      by (intro assms(2)) auto
    moreover have "wp (forM ys f) (\<lambda>_. I (xs @ y # ys)) u" if "I (xs @ [y]) u" for u
      using Cons.IH [of "xs @ [y]" u] Cons.prems(1) that by simp
    ultimately show ?case
      by (auto elim!: wp_mono)
  qed
  from this [of "[]" zs s] assms(1) show ?thesis by simp
qed

section \<open>Lists\<close>

lemma nth_upt_0 [simp]: "i < n \<Longrightarrow> [0..<n] ! i = i"
  by simp

lemma distinct_filter_upt: "distinct (filter P [i..<j])"
  by simp

text \<open>The first index, in a list of candidates, at which a condition holds.\<close>

lemma find_Some_mem: "find P xs = Some x \<Longrightarrow> x \<in> set xs \<and> P x"
  by (auto simp: find_Some_iff)

section \<open>Words\<close>

text \<open>Run \<open>m\<close> \<open>n\<close> times and collect the results.\<close>

primrec replicateM :: "nat \<Rightarrow> ('s, 'a) kmon \<Rightarrow> ('s, 'a list) kmon" where
  "replicateM 0 m = ret []"
| "replicateM (Suc n) m = bind m (\<lambda>x. bind (replicateM n m) (\<lambda>xs. ret (x # xs)))"

lemma word_eq_unat: "a = b \<longleftrightarrow> unat a = unat b" for a b :: "'a::len word"
  by (simp add: word_unat_eq_iff)

lemma word_nonzero_unat: "a \<noteq> 0 \<longleftrightarrow> 0 < unat a" for a :: "'a::len word"
  by (simp add: unat_gt_0)

lemma unat_add_nowrap:
  "unat a + unat b < 2 ^ LENGTH('a) \<Longrightarrow> unat (a + b) = unat a + unat b"
  for a b :: "'a::len word"
  by (simp add: unat_word_ariths)

lemma unat_of_nat_lt: "n < 2 ^ LENGTH('a) \<Longrightarrow> unat (of_nat n :: 'a::len word) = n"
  by (simp add: unat_of_nat take_bit_nat_eq_self)

lemma unat_lt_u64: "unat (a :: u64) < 18446744073709551616"
  using unsigned_less [of a] by simp

lemma unat_lt_u32: "unat (a :: u32) < 4294967296"
  using unsigned_less [of a] by simp

end
