(* ===== verification/Layout.thy ===== *)
theory Layout
  imports Prelude
begin

text \<open>
  The constants and address arithmetic of \<^verbatim>\<open>kernel/param.h\<close>,
  \<^verbatim>\<open>kernel/memlayout.h\<close> and the page-table part of \<^verbatim>\<open>kernel/riscv.h\<close>,
  with the facts on page rounding and on the fields of a virtual address that
  the memory components use.
\<close>

section \<open>Parameters (param.h)\<close>

abbreviation (input) NPROC :: nat where "NPROC \<equiv> 64"
abbreviation (input) NCPU :: nat where "NCPU \<equiv> 8"
abbreviation (input) NOFILE :: nat where "NOFILE \<equiv> 16"
abbreviation (input) NFILE :: nat where "NFILE \<equiv> 100"
abbreviation (input) NINODE :: nat where "NINODE \<equiv> 50"
abbreviation (input) NDEV :: nat where "NDEV \<equiv> 10"
abbreviation (input) ROOTDEV :: u32 where "ROOTDEV \<equiv> 1"
abbreviation (input) MAXARG :: nat where "MAXARG \<equiv> 32"
abbreviation (input) MAXOPBLOCKS :: nat where "MAXOPBLOCKS \<equiv> 10"
abbreviation (input) LOGSIZE :: nat where "LOGSIZE \<equiv> MAXOPBLOCKS * 3"
abbreviation (input) NBUF :: nat where "NBUF \<equiv> MAXOPBLOCKS * 3"
abbreviation (input) FSSIZE :: nat where "FSSIZE \<equiv> 1000"
abbreviation (input) MAXPATH :: nat where "MAXPATH \<equiv> 128"

section \<open>Pages and page-table entries (riscv.h)\<close>

abbreviation (input) PGSIZE :: u64 where "PGSIZE \<equiv> 4096"
abbreviation (input) PGSHIFT :: nat where "PGSHIFT \<equiv> 12"

definition PGROUNDUP :: "u64 \<Rightarrow> u64" where
  "PGROUNDUP sz = (sz + PGSIZE - 1) AND NOT (PGSIZE - 1)"

definition PGROUNDDOWN :: "u64 \<Rightarrow> u64" where
  "PGROUNDDOWN a = a AND NOT (PGSIZE - 1)"

abbreviation (input) PTE_V :: u64 where "PTE_V \<equiv> 1"
abbreviation (input) PTE_R :: u64 where "PTE_R \<equiv> 2"
abbreviation (input) PTE_W :: u64 where "PTE_W \<equiv> 4"
abbreviation (input) PTE_X :: u64 where "PTE_X \<equiv> 8"
abbreviation (input) PTE_U :: u64 where "PTE_U \<equiv> 16"

definition PA2PTE :: "u64 \<Rightarrow> u64" where
  "PA2PTE pa = push_bit 10 (drop_bit 12 pa)"

definition PTE2PA :: "u64 \<Rightarrow> u64" where
  "PTE2PA pte = push_bit 12 (drop_bit 10 pte)"

definition PTE_FLAGS :: "u64 \<Rightarrow> u64" where
  "PTE_FLAGS pte = pte AND 0x3FF"

definition PXSHIFT :: "nat \<Rightarrow> nat" where
  "PXSHIFT level = PGSHIFT + 9 * level"

definition PX :: "nat \<Rightarrow> u64 \<Rightarrow> u64" where
  "PX level va = drop_bit (PXSHIFT level) va AND 0x1FF"

abbreviation (input) MAXVA :: u64 where "MAXVA \<equiv> 0x4000000000"

section \<open>Memory layout (memlayout.h)\<close>

abbreviation (input) UART0 :: u64 where "UART0 \<equiv> 0x10000000"
abbreviation (input) UART0_IRQ :: u32 where "UART0_IRQ \<equiv> 10"
abbreviation (input) VIRTIO0 :: u64 where "VIRTIO0 \<equiv> 0x10001000"
abbreviation (input) VIRTIO0_IRQ :: u32 where "VIRTIO0_IRQ \<equiv> 1"
abbreviation (input) PLIC :: u64 where "PLIC \<equiv> 0x0c000000"
abbreviation (input) KERNBASE :: u64 where "KERNBASE \<equiv> 0x80000000"
abbreviation (input) PHYSTOP :: u64 where "PHYSTOP \<equiv> KERNBASE + 128*1024*1024"
abbreviation (input) TRAMPOLINE :: u64 where "TRAMPOLINE \<equiv> MAXVA - PGSIZE"
abbreviation (input) TRAPFRAME :: u64 where "TRAPFRAME \<equiv> TRAMPOLINE - PGSIZE"

definition KSTACK :: "nat \<Rightarrow> u64" where
  "KSTACK p = TRAMPOLINE - of_nat ((p + 1) * 2) * PGSIZE"

section \<open>Rounding\<close>

lemma and_not_4095: "x AND NOT 4095 = x div 4096 * (4096 :: u64)"
proof -
  have "x AND NOT (mask 12) = push_bit 12 (drop_bit 12 x)"
    by (rule bit_word_eqI) (auto simp: bit_simps)
  also have "mask 12 = (4095 :: u64)" by (simp add: mask_eq_exp_minus_1)
  finally show ?thesis by (simp add: push_bit_eq_mult drop_bit_eq_div)
qed

lemma PGROUNDUP_eq: "PGROUNDUP x = (x + 4095) div 4096 * 4096"
  using and_not_4095 [of "x + 4095"] by (simp add: PGROUNDUP_def add.commute)

lemma PGROUNDDOWN_eq: "PGROUNDDOWN x = x div 4096 * 4096"
  using and_not_4095 [of x] by (simp add: PGROUNDDOWN_def)

lemma unat_round_down: "unat (x div 4096 * (4096 :: u64)) = unat x div 4096 * 4096"
proof -
  have "unat x div 4096 * 4096 \<le> unat x" by (rule div_times_less_eq_dividend)
  then have "unat x div 4096 * 4096 < 2 ^ 64" using unat_lt_u64 [of x] by simp
  then show ?thesis by (simp add: unat_word_ariths unat_div_distrib)
qed

lemma PGROUNDDOWN_unat: "unat (PGROUNDDOWN x) = unat x div 4096 * 4096"
  by (simp add: PGROUNDDOWN_eq unat_round_down)

lemma PGROUNDUP_unat:
  assumes "unat x + 4095 < 2 ^ 64"
  shows "unat (PGROUNDUP x) = (unat x + 4095) div 4096 * 4096"
proof -
  have "unat (x + 4095) = unat x + 4095"
    using unat_add_nowrap [of x 4095] assms by simp
  then show ?thesis by (simp add: PGROUNDUP_eq unat_round_down)
qed

end
