(* ===== verification/Machine.thy ===== *)
theory Machine
  imports Layout
begin

text \<open>
  The part of the machine every kernel component shares: the supervisor
  registers of each hart (\<^verbatim>\<open>kernel/riscv.h\<close>), the per-CPU structure
  (\<^verbatim>\<open>kernel/proc.h\<close>), the spin locks (\<^verbatim>\<open>kernel/spinlock.h\<close>) and physical
  memory.  The component theories extend \<open>mach\<close> with their own state, so a
  routine modelled here runs unchanged on the state of every component above it.
\<close>

record kcontext =
  cx_ra :: u64
  cx_sp :: u64
  cx_s0 :: u64
  cx_s1 :: u64
  cx_s2 :: u64
  cx_s3 :: u64
  cx_s4 :: u64
  cx_s5 :: u64
  cx_s6 :: u64
  cx_s7 :: u64
  cx_s8 :: u64
  cx_s9 :: u64
  cx_s10 :: u64
  cx_s11 :: u64

text \<open>\<^verbatim>\<open>struct cpu\<close>: the running process is an index into the process table.\<close>

record cpu =
  cpu_proc :: "nat option"
  cpu_context :: kcontext
  noff :: int
  intena :: bool

record spinlock =
  locked :: u32
  lk_name :: string
  lk_cpu :: "nat option"

text \<open>The supervisor control and status registers the kernel reads and writes.\<close>

record csrs =
  sstatus :: u64
  sepc :: u64
  scause :: u64
  stval :: u64
  stvec :: u64
  satp :: u64
  sip :: u64

record mach =
  tp :: nat
  harts :: "nat \<Rightarrow> csrs"
  cpus :: "nat \<Rightarrow> cpu"
  locks :: "lockid \<Rightarrow> spinlock"
  mem :: memory

section \<open>Registers (riscv.h)\<close>

abbreviation (input) SSTATUS_SPP :: u64 where "SSTATUS_SPP \<equiv> 256"
abbreviation (input) SSTATUS_SPIE :: u64 where "SSTATUS_SPIE \<equiv> 32"
abbreviation (input) SSTATUS_SIE :: u64 where "SSTATUS_SIE \<equiv> 2"

definition r_tp :: "('z mach_scheme, nat) kmon" where
  "r_tp = gets tp"

definition r_sstatus :: "('z mach_scheme, u64) kmon" where
  "r_sstatus = gets (\<lambda>s. sstatus (harts s (tp s)))"

definition w_sstatus :: "u64 \<Rightarrow> ('z mach_scheme, unit) kmon" where
  "w_sstatus x = modify (\<lambda>s. s\<lparr>harts := (harts s)(tp s := (harts s (tp s))\<lparr>sstatus := x\<rparr>)\<rparr>)"

definition r_sepc :: "('z mach_scheme, u64) kmon" where
  "r_sepc = gets (\<lambda>s. sepc (harts s (tp s)))"

definition w_sepc :: "u64 \<Rightarrow> ('z mach_scheme, unit) kmon" where
  "w_sepc x = modify (\<lambda>s. s\<lparr>harts := (harts s)(tp s := (harts s (tp s))\<lparr>sepc := x\<rparr>)\<rparr>)"

definition r_scause :: "('z mach_scheme, u64) kmon" where
  "r_scause = gets (\<lambda>s. scause (harts s (tp s)))"

definition r_stval :: "('z mach_scheme, u64) kmon" where
  "r_stval = gets (\<lambda>s. stval (harts s (tp s)))"

definition w_stvec :: "u64 \<Rightarrow> ('z mach_scheme, unit) kmon" where
  "w_stvec x = modify (\<lambda>s. s\<lparr>harts := (harts s)(tp s := (harts s (tp s))\<lparr>stvec := x\<rparr>)\<rparr>)"

definition r_satp :: "('z mach_scheme, u64) kmon" where
  "r_satp = gets (\<lambda>s. satp (harts s (tp s)))"

definition w_satp :: "u64 \<Rightarrow> ('z mach_scheme, unit) kmon" where
  "w_satp x = modify (\<lambda>s. s\<lparr>harts := (harts s)(tp s := (harts s (tp s))\<lparr>satp := x\<rparr>)\<rparr>)"

definition r_sip :: "('z mach_scheme, u64) kmon" where
  "r_sip = gets (\<lambda>s. sip (harts s (tp s)))"

definition w_sip :: "u64 \<Rightarrow> ('z mach_scheme, unit) kmon" where
  "w_sip x = modify (\<lambda>s. s\<lparr>harts := (harts s)(tp s := (harts s (tp s))\<lparr>sip := x\<rparr>)\<rparr>)"

definition intr_on :: "('z mach_scheme, unit) kmon" where
  "intr_on = bind r_sstatus (\<lambda>x. w_sstatus (x OR SSTATUS_SIE))"

definition intr_off :: "('z mach_scheme, unit) kmon" where
  "intr_off = bind r_sstatus (\<lambda>x. w_sstatus (x AND NOT SSTATUS_SIE))"

definition intr_get :: "('z mach_scheme, bool) kmon" where
  "intr_get = bind r_sstatus (\<lambda>x. ret (x AND SSTATUS_SIE \<noteq> 0))"

section \<open>The current CPU (proc.c)\<close>

definition cpuid :: "('z mach_scheme, nat) kmon" where
  "cpuid = r_tp"

definition mycpu :: "('z mach_scheme, nat) kmon" where
  "mycpu = cpuid"

text \<open>Read and write the \<^verbatim>\<open>struct cpu\<close> that \<^verbatim>\<open>mycpu()\<close> points to.\<close>

definition get_cpu :: "(cpu \<Rightarrow> 'a) \<Rightarrow> ('z mach_scheme, 'a) kmon" where
  "get_cpu f = bind mycpu (\<lambda>i. gets (\<lambda>s. f (cpus s i)))"

definition set_cpu :: "(cpu \<Rightarrow> cpu) \<Rightarrow> ('z mach_scheme, unit) kmon" where
  "set_cpu f = bind mycpu (\<lambda>i. modify (\<lambda>s. s\<lparr>cpus := (cpus s)(i := f (cpus s i))\<rparr>))"

lemmas reg_defs = r_tp_def r_sstatus_def w_sstatus_def r_sepc_def w_sepc_def r_scause_def
  r_stval_def w_stvec_def r_satp_def w_satp_def r_sip_def w_sip_def cpuid_def mycpu_def

lemma r_tp_apply [simp]: "r_tp s = Ok (tp s) s"
  by (simp add: r_tp_def)

lemma cpuid_apply [simp]: "cpuid s = Ok (tp s) s"
  by (simp add: cpuid_def)

lemma mycpu_apply [simp]: "mycpu s = Ok (tp s) s"
  by (simp add: mycpu_def)

lemma get_cpu_apply [simp]: "get_cpu f s = Ok (f (cpus s (tp s))) s"
  by (simp add: mon_simps get_cpu_def)

lemma set_cpu_apply [simp]:
  "set_cpu f s = Ok () (s\<lparr>cpus := (cpus s)(tp s := f (cpus s (tp s)))\<rparr>)"
  by (simp add: mon_simps set_cpu_def)

text \<open>Whether the current hart takes interrupts.\<close>

definition sie :: "'z mach_scheme \<Rightarrow> bool" where
  "sie s = bit (sstatus (harts s (tp s))) 1"

lemma and_two_nonzero: "(x AND 2 \<noteq> 0) = bit x 1" for x :: u64
  using and_exp_eq_0_iff_not_bit [of x 1] by simp

lemma intr_get_apply [simp]: "intr_get s = Ok (sie s) s"
  by (simp add: mon_simps intr_get_def r_sstatus_def sie_def and_two_nonzero)

definition set_sie :: "bool \<Rightarrow> 'z mach_scheme \<Rightarrow> 'z mach_scheme" where
  "set_sie b s = s\<lparr>harts := (harts s)(tp s := (harts s (tp s))\<lparr>sstatus :=
     (if b then sstatus (harts s (tp s)) OR 2 else sstatus (harts s (tp s)) AND NOT 2)\<rparr>)\<rparr>"

lemma intr_on_apply [simp]: "intr_on s = Ok () (set_sie True s)"
  by (simp add: mon_simps intr_on_def r_sstatus_def w_sstatus_def set_sie_def)

lemma intr_off_apply [simp]: "intr_off s = Ok () (set_sie False s)"
  by (simp add: mon_simps intr_off_def r_sstatus_def w_sstatus_def set_sie_def)

lemma bit_or_two: "bit (x OR 2) 1" for x :: u64
  by (simp add: bit_or_iff)

lemma or_two_id: "bit x 1 \<Longrightarrow> (x AND NOT 2) OR 2 = x" for x :: u64
  by (rule bit_word_eqI) (auto simp: bit_simps bit_2_iff)

lemma and_not_two_id: "\<not> bit x 1 \<Longrightarrow> x AND NOT 2 = x" for x :: u64
  by (rule bit_word_eqI) (auto simp: bit_simps bit_2_iff)

lemma not_bit_and_not_two: "\<not> bit (x AND NOT 2) 1" for x :: u64
  by (simp add: bit_simps bit_2_iff)

lemma sie_set_sie [simp]: "sie (set_sie b s) = b"
  using bit_or_two not_bit_and_not_two by (simp add: sie_def set_sie_def)

lemma set_sie_restore: "sie s \<Longrightarrow> set_sie True (set_sie False s) = s"
  using or_two_id [of "sstatus (harts s (tp s))"] by (simp add: sie_def set_sie_def)

lemma set_sie_off_id: "\<not> sie s \<Longrightarrow> set_sie False s = s"
  using and_not_two_id [of "sstatus (harts s (tp s))"] by (simp add: sie_def set_sie_def)

lemma set_sie_fields [simp]:
  "tp (set_sie b s) = tp s" "cpus (set_sie b s) = cpus s"
  "locks (set_sie b s) = locks s" "mem (set_sie b s) = mem s"
  by (simp_all add: set_sie_def)

end
