(* ===== verification/Spinlock.thy ===== *)
theory Spinlock
  imports Machine
begin

text \<open>
  Spin locks (\<^verbatim>\<open>kernel/spinlock.c\<close>).  The routines are first modelled as one
  hart executes them; a lock held by another hart makes \<open>acquire\<close> spin, which
  is the result \<open>Blocked (ChSpin l)\<close>.  The second half interleaves the atomic
  actions of any number of harts and proves mutual exclusion for them.
\<close>

section \<open>The routines\<close>

definition initlock :: "lockid \<Rightarrow> string \<Rightarrow> ('z mach_scheme, unit) kmon" where
  "initlock l name = modify (\<lambda>s. s\<lparr>locks := (locks s)(l :=
     \<lparr>locked = 0, lk_name = name, lk_cpu = None\<rparr>)\<rparr>)"

definition holding :: "lockid \<Rightarrow> ('z mach_scheme, bool) kmon" where
  "holding l = bind mycpu (\<lambda>c. gets (\<lambda>s. locked (locks s l) \<noteq> 0 \<and> lk_cpu (locks s l) = Some c))"

definition push_off :: "('z mach_scheme, unit) kmon" where
  "push_off =
     bind intr_get (\<lambda>old.
     bind intr_off (\<lambda>_.
     bind (get_cpu noff) (\<lambda>n.
     bind (whenM (n = 0) (set_cpu (\<lambda>c. c\<lparr>intena := old\<rparr>))) (\<lambda>_.
     set_cpu (\<lambda>c. c\<lparr>noff := noff c + 1\<rparr>)))))"

definition pop_off :: "('z mach_scheme, unit) kmon" where
  "pop_off =
     bind intr_get (\<lambda>on.
     if on then panic ''pop_off - interruptible'' else
     bind (get_cpu noff) (\<lambda>n.
     if n < 1 then panic ''pop_off'' else
     bind (set_cpu (\<lambda>c. c\<lparr>noff := noff c - 1\<rparr>)) (\<lambda>_.
     bind (get_cpu (\<lambda>c. noff c = 0 \<and> intena c)) (\<lambda>b.
     whenM b intr_on))))"

text \<open>\<^verbatim>\<open>__sync_lock_test_and_set(&lk->locked, 1)\<close>: one atomic swap.\<close>

definition test_and_set :: "lockid \<Rightarrow> ('z mach_scheme, u32) kmon" where
  "test_and_set l = bind (gets (\<lambda>s. locked (locks s l))) (\<lambda>old.
     bind (modify (\<lambda>s. s\<lparr>locks := (locks s)(l := (locks s l)\<lparr>locked := 1\<rparr>)\<rparr>)) (\<lambda>_. ret old))"

text \<open>\<^verbatim>\<open>acquire\<close> up to its loop, and the assignment after it.\<close>

definition acquire_enter :: "lockid \<Rightarrow> ('z mach_scheme, unit) kmon" where
  "acquire_enter l =
     bind push_off (\<lambda>_.
     bind (holding l) (\<lambda>h.
     if h then panic ''acquire'' else ret ()))"

definition set_owner :: "lockid \<Rightarrow> ('z mach_scheme, unit) kmon" where
  "set_owner l = bind mycpu (\<lambda>c.
     modify (\<lambda>s. s\<lparr>locks := (locks s)(l := (locks s l)\<lparr>lk_cpu := Some c\<rparr>)\<rparr>))"

definition acquire :: "lockid \<Rightarrow> ('z mach_scheme, unit) kmon" where
  "acquire l =
     bind (acquire_enter l) (\<lambda>_.
     bind (test_and_set l) (\<lambda>old.
     if old \<noteq> 0 then block (ChSpin l) else set_owner l))"

text \<open>\<^verbatim>\<open>release\<close>: the check and the clearing of the owner, then the atomic store.\<close>

definition release_enter :: "lockid \<Rightarrow> ('z mach_scheme, unit) kmon" where
  "release_enter l =
     bind (holding l) (\<lambda>h.
     if \<not> h then panic ''release'' else
     modify (\<lambda>s. s\<lparr>locks := (locks s)(l := (locks s l)\<lparr>lk_cpu := None\<rparr>)\<rparr>))"

definition sync_lock_release :: "lockid \<Rightarrow> ('z mach_scheme, unit) kmon" where
  "sync_lock_release l =
     modify (\<lambda>s. s\<lparr>locks := (locks s)(l := (locks s l)\<lparr>locked := 0\<rparr>)\<rparr>)"

definition release :: "lockid \<Rightarrow> ('z mach_scheme, unit) kmon" where
  "release l =
     bind (release_enter l) (\<lambda>_.
     bind (sync_lock_release l) (\<lambda>_.
     pop_off))"

section \<open>What one hart sees\<close>

text \<open>
  \<open>calm s\<close>: the interrupt bookkeeping of the current CPU agrees with its
  \<^verbatim>\<open>SIE\<close> bit, as it does after any balanced use of \<^verbatim>\<open>push_off\<close>/\<^verbatim>\<open>pop_off\<close>.
  \<open>held l s\<close> is the state \<open>s\<close> with lock \<open>l\<close> taken by the current CPU.
\<close>

definition calm :: "'z mach_scheme \<Rightarrow> bool" where
  "calm s = (let c = cpus s (tp s) in
     0 \<le> noff c \<and> (if noff c = 0 then intena c = sie s else \<not> sie s))"

definition unlocked :: "lockid \<Rightarrow> 'z mach_scheme \<Rightarrow> bool" where
  "unlocked l s = (locked (locks s l) = 0 \<and> lk_cpu (locks s l) = None)"

definition pushed :: "'z mach_scheme \<Rightarrow> 'z mach_scheme" where
  "pushed s = (set_sie False s)\<lparr>cpus := (cpus s)(tp s := (cpus s (tp s))\<lparr>noff := noff (cpus s (tp s)) + 1\<rparr>)\<rparr>"

definition held :: "lockid \<Rightarrow> 'z mach_scheme \<Rightarrow> 'z mach_scheme" where
  "held l s = (pushed s)\<lparr>locks := (locks s)(l := (locks s l)\<lparr>locked := 1, lk_cpu := Some (tp s)\<rparr>)\<rparr>"

lemma cpu_intena_id: "intena c = b \<Longrightarrow> c\<lparr>intena := b, noff := n\<rparr> = c\<lparr>noff := n\<rparr>"
  by simp

lemma push_off_calm: "calm s \<Longrightarrow> push_off s = Ok () (pushed s)"
  by (auto simp: mon_simps push_off_def calm_def pushed_def Let_def cpu_intena_id)

lemma pop_off_pushed: "calm s \<Longrightarrow> pop_off (pushed s) = Ok () s"
proof -
  assume c: "calm s"
  have 1: "sie (pushed s) = False"
    by (simp add: pushed_def sie_def set_sie_def not_bit_and_not_two [simplified])
  have 2: "(pushed s)\<lparr>cpus := cpus s\<rparr> = set_sie False s"
    by (simp add: pushed_def set_sie_def)
  have 3: "(cpus (pushed s))(tp s := (cpus s (tp s))) = cpus s"
    by (simp add: pushed_def)
  have 4: "noff (cpus s (tp s)) = 0 \<Longrightarrow> \<not> intena (cpus s (tp s)) \<Longrightarrow> set_sie False s = s"
    "noff (cpus s (tp s)) \<noteq> 0 \<Longrightarrow> set_sie False s = s"
    "noff (cpus s (tp s)) = 0 \<Longrightarrow> intena (cpus s (tp s)) \<Longrightarrow> set_sie True (set_sie False s) = s"
    using c by (auto simp: calm_def Let_def set_sie_off_id set_sie_restore)
  have 5: "tp (pushed s) = tp s" "cpus (pushed s) (tp s) = (cpus s (tp s))\<lparr>noff := noff (cpus s (tp s)) + 1\<rparr>"
    by (simp_all add: pushed_def)
  from c have 6: "0 \<le> noff (cpus s (tp s))" by (simp add: calm_def Let_def)
  show ?thesis
    using 1 2 3 4 5 6 by (auto simp: mon_simps pop_off_def)
qed

lemma calm_pushed [simp]: "calm s \<Longrightarrow> calm (pushed s)"
  by (auto simp: calm_def Let_def pushed_def sie_def set_sie_def not_bit_and_not_two [simplified])

lemma acquire_free [simp]: "calm s \<Longrightarrow> unlocked l s \<Longrightarrow> acquire l s = Ok () (held l s)"
  by (simp add: mon_simps acquire_def acquire_enter_def push_off_calm holding_def test_and_set_def set_owner_def
      unlocked_def held_def pushed_def)

lemma release_held [simp]:
  assumes "calm s" and "unlocked l s"
  shows "release l (held l s) = Ok () s"
proof -
  have 1: "(pushed s)\<lparr>locks := locks s\<rparr> = pushed s"
    by (simp add: pushed_def)
  have 2: "(locks s l)\<lparr>lk_cpu := None, locked := 0\<rparr> = locks s l"
    using assms(2) by (simp add: unlocked_def)
  have 3: "release_enter l (held l s) = Ok ()
      ((pushed s)\<lparr>locks := (locks s)(l := (locks s l)\<lparr>locked := 1, lk_cpu := None\<rparr>)\<rparr>)"
    by (simp add: mon_simps release_enter_def holding_def held_def pushed_def)
  have 4: "sync_lock_release l ((pushed s)\<lparr>locks := (locks s)(l := (locks s l)\<lparr>locked := 1, lk_cpu := None\<rparr>)\<rparr>)
      = Ok () (pushed s)"
    using 1 2 by (simp add: sync_lock_release_def)
  show ?thesis
    using pop_off_pushed [OF assms(1)] by (simp add: mon_simps release_def 3 4)
qed

lemma pushed_fields [simp, held_simps]:
  "tp (pushed s) = tp s" "locks (pushed s) = locks s" "mem (pushed s) = mem s"
  "sie (pushed s) = False"
  by (simp_all add: pushed_def sie_def set_sie_def not_bit_and_not_two [simplified])

lemma held_fields [simp, held_simps]:
  "tp (held l s) = tp s" "mem (held l s) = mem s" "sie (held l s) = False"
  "cpu_proc (cpus (held l s) i) = cpu_proc (cpus s i)"
  by (simp_all add: held_def pushed_def sie_def set_sie_def not_bit_and_not_two [simplified])

lemma held_mem [simp, held_simps]: "(held l s)\<lparr>mem := m\<rparr> = held l (s\<lparr>mem := m\<rparr>)"
  by (simp add: held_def pushed_def set_sie_def)

lemma calm_held [simp]: "calm s \<Longrightarrow> calm (held l s)"
  by (auto simp: calm_def Let_def held_def pushed_def sie_def set_sie_def not_bit_and_not_two [simplified])

lemma unlocked_held [simp]: "unlocked l (held k s) \<longleftrightarrow> l \<noteq> k \<and> unlocked l s"
  by (auto simp: unlocked_def held_def)

lemma holding_held [simp]: "holding l (held l s) = Ok True (held l s)"
  by (simp add: mon_simps holding_def held_def)

lemma holding_unlocked [simp]: "unlocked l s \<Longrightarrow> holding l s = Ok False s"
  by (simp add: mon_simps holding_def unlocked_def)

lemma calm_mem [simp]: "calm (s\<lparr>mem := m\<rparr>) = calm s"
  by (simp add: calm_def sie_def)

lemma calm_locks [simp]: "calm (s\<lparr>locks := x\<rparr>) = calm s"
  by (simp add: calm_def sie_def)

lemma unlocked_mem [simp]: "unlocked l (s\<lparr>mem := m\<rparr>) = unlocked l s"
  by (simp add: unlocked_def)

lemma set_sie_twice [simp]: "set_sie False (set_sie False s) = set_sie False s"
  by (rule set_sie_off_id) simp

lemma held_commute: "l \<noteq> k \<Longrightarrow> held l (held k s) = held k (held l s)"
  by (simp add: held_def pushed_def set_sie_def fun_upd_twist)

section \<open>Any number of harts\<close>

text \<open>
  Where a hart stands in the code of one lock: outside; in the loop of
  \<^verbatim>\<open>acquire\<close>; past the loop but before \<^verbatim>\<open>lk->cpu = mycpu()\<close>; in the critical
  section; in \<^verbatim>\<open>release\<close> with the owner cleared; and after the atomic store,
  before \<^verbatim>\<open>pop_off\<close>.
\<close>

datatype lpc = Outside | Spinning | Winning | Critical | Releasing | Leaving

definition on_hart :: "nat \<Rightarrow> 'z mach_scheme \<Rightarrow> 'z mach_scheme" where
  "on_hart i s = s\<lparr>tp := i\<rparr>"

text \<open>
  One atomic action of one hart on lock \<open>l\<close>, each the piece of \<open>acquire\<close> or
  \<open>release\<close> above that the hart is about to run; \<open>other\<close> is any activity that
  does not write the lock.
\<close>

inductive lk_step :: "lockid \<Rightarrow> 'z mach_scheme \<Rightarrow> (nat \<Rightarrow> lpc) \<Rightarrow> 'z mach_scheme \<Rightarrow> (nat \<Rightarrow> lpc) \<Rightarrow> bool"
  for l where
  enter: "pc i = Outside \<Longrightarrow> acquire_enter l (on_hart i s) = Ok () t \<Longrightarrow>
     lk_step l s pc t (pc(i := Spinning))"
| spin: "pc i = Spinning \<Longrightarrow> test_and_set l (on_hart i s) = Ok old t \<Longrightarrow>
     lk_step l s pc t (pc(i := if old \<noteq> 0 then Spinning else Winning))"
| own: "pc i = Winning \<Longrightarrow> set_owner l (on_hart i s) = Ok () t \<Longrightarrow>
     lk_step l s pc t (pc(i := Critical))"
| disown: "pc i = Critical \<Longrightarrow> release_enter l (on_hart i s) = Ok () t \<Longrightarrow>
     lk_step l s pc t (pc(i := Releasing))"
| clear: "pc i = Releasing \<Longrightarrow> sync_lock_release l (on_hart i s) = Ok () t \<Longrightarrow>
     lk_step l s pc t (pc(i := Leaving))"
| leave: "pc i = Leaving \<Longrightarrow> pop_off (on_hart i s) = Ok () t \<Longrightarrow>
     lk_step l s pc t (pc(i := Outside))"
| other: "locks t l = locks s l \<Longrightarrow> lk_step l s pc t pc"

inductive lk_reach :: "lockid \<Rightarrow> 'z mach_scheme \<Rightarrow> (nat \<Rightarrow> lpc) \<Rightarrow> bool" for l where
  init: "initlock l name s = Ok () t \<Longrightarrow> lk_reach l t (\<lambda>_. Outside)"
| step: "lk_reach l s pc \<Longrightarrow> lk_step l s pc t pc' \<Longrightarrow> lk_reach l t pc'"

definition owns :: "lpc \<Rightarrow> bool" where
  "owns p = (p = Winning \<or> p = Critical \<or> p = Releasing)"

definition lk_inv :: "lockid \<Rightarrow> 'z mach_scheme \<Rightarrow> (nat \<Rightarrow> lpc) \<Rightarrow> bool" where
  "lk_inv l s pc =
     ((\<forall>i. owns (pc i) \<longrightarrow> locked (locks s l) \<noteq> 0) \<and>
      (\<forall>i j. owns (pc i) \<longrightarrow> owns (pc j) \<longrightarrow> i = j) \<and>
      (\<forall>i. pc i = Critical \<longleftrightarrow> lk_cpu (locks s l) = Some i))"

lemma push_off_locks: "push_off s = Ok () t \<Longrightarrow> locks t = locks s"
  by (auto simp: push_off_def mon_simps split: if_splits)

lemma pop_off_locks: "pop_off s = Ok () t \<Longrightarrow> locks t = locks s"
  by (auto simp: pop_off_def mon_simps split: if_splits)

lemma acquire_enter_locks: "acquire_enter l s = Ok () t \<Longrightarrow> locks t = locks s"
  by (auto simp: acquire_enter_def holding_def mon_simps push_off_locks split: res.splits if_splits)

lemma lk_inv_init: "initlock l name s = Ok () t \<Longrightarrow> lk_inv l t (\<lambda>_. Outside)"
  by (auto simp: initlock_def lk_inv_def owns_def)

lemma lk_inv_alone:
  assumes "\<And>j. j \<noteq> i \<Longrightarrow> \<not> owns (pc j)"
    and "owns p \<Longrightarrow> locked (locks t l) \<noteq> 0"
    and "lk_cpu (locks t l) = (if p = Critical then Some i else None)"
  shows "lk_inv l t (pc(i := p))"
proof -
  have "pc j \<noteq> Critical" if "j \<noteq> i" for j
    using assms(1) [OF that] by (auto simp: owns_def)
  then show ?thesis
    using assms by (auto simp: lk_inv_def split: if_splits)
qed

lemma lk_inv_bystander:
  assumes "lk_inv l s pc" and "\<not> owns (pc i)" and "\<not> owns p"
    and "lk_cpu (locks t l) = lk_cpu (locks s l)"
    and "locked (locks s l) \<noteq> 0 \<Longrightarrow> locked (locks t l) \<noteq> 0"
  shows "lk_inv l t (pc(i := p))"
proof -
  have p: "pc i \<noteq> Critical" "p \<noteq> Critical"
    using assms(2,3) by (auto simp: owns_def)
  have "pc j = Critical \<longleftrightarrow> lk_cpu (locks s l) = Some j" for j
    using assms(1) unfolding lk_inv_def by blast
  with p assms(4) have c: "(pc(i := p)) j = Critical \<longleftrightarrow> lk_cpu (locks t l) = Some j" for j
    by (cases "j = i") auto
  have "owns ((pc(i := p)) j) \<Longrightarrow> j \<noteq> i \<and> owns (pc j)" for j
    using assms(2,3) by (cases "j = i") simp_all
  with assms(1,5) c show ?thesis unfolding lk_inv_def by blast
qed

lemma lk_inv_owner:
  assumes "lk_inv l s pc" and "owns (pc i)"
  shows "j \<noteq> i \<Longrightarrow> \<not> owns (pc j)" "locked (locks s l) \<noteq> 0"
    "lk_cpu (locks s l) = (if pc i = Critical then Some i else None)"
proof -
  show "j \<noteq> i \<Longrightarrow> \<not> owns (pc j)" and "locked (locks s l) \<noteq> 0"
    using assms unfolding lk_inv_def by blast+
  have *: "pc j = Critical \<longleftrightarrow> lk_cpu (locks s l) = Some j" for j
    using assms(1) unfolding lk_inv_def by blast
  have "pc j \<noteq> Critical" if "j \<noteq> i" for j
    using assms that unfolding lk_inv_def owns_def by blast
  with * have "lk_cpu (locks s l) = Some j \<longrightarrow> j = i" for j by blast
  then show "lk_cpu (locks s l) = (if pc i = Critical then Some i else None)"
    using * [of i] by (cases "lk_cpu (locks s l)") auto
qed

lemma lk_inv_free:
  assumes "lk_inv l s pc" and "locked (locks s l) = 0"
  shows "\<not> owns (pc j)" "lk_cpu (locks s l) = None"
proof -
  show *: "\<not> owns (pc j)" for j
    using assms unfolding lk_inv_def by blast
  have "pc j = Critical \<longleftrightarrow> lk_cpu (locks s l) = Some j" for j
    using assms(1) unfolding lk_inv_def by blast
  with * show "lk_cpu (locks s l) = None"
    by (cases "lk_cpu (locks s l)") (auto simp: owns_def)
qed

lemma lk_step_inv: "lk_step l s pc t pc' \<Longrightarrow> lk_inv l s pc \<Longrightarrow> lk_inv l t pc'"
proof (induction rule: lk_step.induct)
  case (enter pc i s t)
  then have "locks t = locks s"
    by (auto dest: acquire_enter_locks simp: on_hart_def)
  with enter show ?case by (intro lk_inv_bystander [of l s]) (auto simp: owns_def)
next
  case (spin pc i s old t)
  then have t: "locked (locks t l) = 1" "lk_cpu (locks t l) = lk_cpu (locks s l)" "old = locked (locks s l)"
    by (auto simp: test_and_set_def mon_simps on_hart_def)
  show ?case
  proof (cases "old = 0")
    case True
    with t lk_inv_free [OF spin.prems] show ?thesis
      by (intro lk_inv_alone) (auto simp: owns_def)
  next
    case False
    with spin t show ?thesis by (intro lk_inv_bystander [of l s]) (auto simp: owns_def)
  qed
next
  case (own pc i s t)
  then have t: "locked (locks t l) = locked (locks s l)" "lk_cpu (locks t l) = Some i"
    by (auto simp: set_owner_def mon_simps on_hart_def)
  have "owns (pc i)" using own by (simp add: owns_def)
  from lk_inv_owner [OF own.prems this] t show ?case by (intro lk_inv_alone) auto
next
  case (disown pc i s t)
  then have t: "locked (locks t l) = locked (locks s l)" "lk_cpu (locks t l) = None"
    by (auto simp: release_enter_def holding_def mon_simps on_hart_def split: if_splits)
  have "owns (pc i)" using disown by (simp add: owns_def)
  from lk_inv_owner [OF disown.prems this] t show ?case by (intro lk_inv_alone) auto
next
  case (clear pc i s t)
  then have t: "lk_cpu (locks t l) = lk_cpu (locks s l)"
    by (auto simp: sync_lock_release_def on_hart_def)
  have "owns (pc i)" using clear by (simp add: owns_def)
  from lk_inv_owner [OF clear.prems this] t clear.hyps show ?case
    by (intro lk_inv_alone) (auto simp: owns_def)
next
  case (leave pc i s t)
  then have "locks t = locks s"
    by (auto dest: pop_off_locks simp: on_hart_def)
  with leave show ?case by (intro lk_inv_bystander [of l s]) (auto simp: owns_def)
next
  case (other t s pc)
  then show ?case by (simp add: lk_inv_def)
qed

lemma lk_reach_inv: "lk_reach l s pc \<Longrightarrow> lk_inv l s pc"
  by (induction rule: lk_reach.induct) (blast intro: lk_inv_init lk_step_inv)+

lemma holding_reach:
  assumes "lk_reach l s pc"
  shows "holding l (on_hart j s) = Ok (pc j = Critical) (on_hart j s)"
proof -
  from assms have "lk_inv l s pc" by (rule lk_reach_inv)
  then have "pc j = Critical \<longleftrightarrow> locked (locks s l) \<noteq> 0 \<and> lk_cpu (locks s l) = Some j"
    unfolding lk_inv_def owns_def by blast
  then show ?thesis by (simp add: holding_def mon_simps on_hart_def)
qed

text \<open>
  C3.  Mutual exclusion of spin locks: in every state that any interleaving of
  the harts' atomic actions reaches from \<^verbatim>\<open>initlock\<close>, at most one hart is in the
  critical section; \<^verbatim>\<open>holding\<close> answers true on exactly that hart, so its
  \<^verbatim>\<open>release\<close> never panics.
\<close>

theorem spinlock_mutual_exclusion:
  assumes reach: "lk_reach l s pc" and crit: "pc i = Critical"
  shows "(pc j = Critical \<longleftrightarrow> j = i) \<and>
    holding l (on_hart j s) = Ok (j = i) (on_hart j s) \<and>
    (\<exists>t. release_enter l (on_hart i s) = Ok () t)"
proof -
  from reach have inv: "lk_inv l s pc" by (rule lk_reach_inv)
  with crit have j: "pc j = Critical \<longleftrightarrow> j = i"
    unfolding lk_inv_def owns_def by blast
  moreover have "holding l (on_hart i s) = Ok True (on_hart i s)"
    using holding_reach [OF reach, of i] crit by simp
  ultimately show ?thesis
    using holding_reach [OF reach, of j] by (simp add: release_enter_def mon_simps)
qed

text \<open>The zero-initialised machine the kernel image starts with.\<close>

definition zero_csrs :: csrs where
  "zero_csrs = \<lparr>sstatus = 0, sepc = 0, scause = 0, stval = 0, stvec = 0, satp = 0, sip = 0\<rparr>"

definition zero_context :: kcontext where
  "zero_context = \<lparr>cx_ra = 0, cx_sp = 0, cx_s0 = 0, cx_s1 = 0, cx_s2 = 0, cx_s3 = 0, cx_s4 = 0,
     cx_s5 = 0, cx_s6 = 0, cx_s7 = 0, cx_s8 = 0, cx_s9 = 0, cx_s10 = 0, cx_s11 = 0\<rparr>"

definition zero_cpu :: cpu where
  "zero_cpu = \<lparr>cpu_proc = None, cpu_context = zero_context, noff = 0, intena = False\<rparr>"

definition zero_lock :: spinlock where
  "zero_lock = \<lparr>locked = 0, lk_name = [], lk_cpu = None\<rparr>"

definition zero_mach :: mach where
  "zero_mach = \<lparr>tp = 0, harts = (\<lambda>_. zero_csrs), cpus = (\<lambda>_. zero_cpu),
     locks = (\<lambda>_. zero_lock), mem = (\<lambda>_. 0)\<rparr>"

lemma zero_mach_calm [simp]: "calm zero_mach" "unlocked l zero_mach" "on_hart 0 zero_mach = zero_mach"
  by (simp_all add: calm_def unlocked_def zero_mach_def zero_cpu_def zero_csrs_def zero_lock_def sie_def on_hart_def)

lemma zero_mach_critical: "lk_reach l (held l zero_mach) (\<lambda>i. if i = 0 then Critical else Outside)"
proof -
  let ?s = zero_mach
  have 0: "lk_reach l ?s (\<lambda>_. Outside)"
    by (rule lk_reach.init [of l "[]" ?s])
      (simp add: initlock_def zero_mach_def zero_lock_def fun_upd_idem)
  have "acquire_enter l (on_hart 0 ?s) = Ok () (pushed ?s)"
    by (simp add: acquire_enter_def push_off_calm mon_simps holding_def) (simp add: zero_mach_def zero_lock_def)
  with 0 have 1: "lk_reach l (pushed ?s) ((\<lambda>_. Outside)(0 := Spinning))"
    by (blast intro: lk_reach.step lk_step.enter)
  let ?t = "(pushed ?s)\<lparr>locks := (locks ?s)(l := (locks ?s l)\<lparr>locked := 1\<rparr>)\<rparr>"
  have on: "on_hart 0 (pushed ?s) = pushed ?s" "on_hart 0 ?t = ?t"
    by (simp_all add: on_hart_def pushed_def set_sie_def zero_mach_def)
  have "test_and_set l (on_hart 0 (pushed ?s)) = Ok 0 ?t"
    unfolding on by (simp add: test_and_set_def mon_simps zero_mach_def zero_lock_def)
  with 1 have 2: "lk_reach l ?t (((\<lambda>_. Outside)(0 := Spinning))(0 := if (0::u32) \<noteq> 0 then Spinning else Winning))"
    by (intro lk_reach.step [OF 1] lk_step.spin [of _ 0]) simp_all
  have "set_owner l (on_hart 0 ?t) = Ok () (held l ?s)"
    unfolding on by (simp add: set_owner_def mon_simps held_def)
  with 2 have 3: "lk_reach l (held l ?s)
      ((((\<lambda>_. Outside)(0 := Spinning))(0 := if (0::u32) \<noteq> 0 then Spinning else Winning))(0 := Critical))"
    by (intro lk_reach.step [OF 2] lk_step.own [of _ 0]) simp_all
  have "((((\<lambda>_. Outside)(0 := Spinning))(0 := if (0::u32) \<noteq> 0 then Spinning else Winning))(0 := Critical))
      = (\<lambda>i::nat. if i = 0 then Critical else Outside)"
    by (rule ext) simp
  with 3 show ?thesis by simp
qed

theorem spinlock_mutual_exclusion_witness:
  "holding LKmem (on_hart 1 (held LKmem zero_mach)) = Ok False (on_hart 1 (held LKmem zero_mach)) \<and>
   (\<exists>t. release_enter LKmem (on_hart 0 (held LKmem zero_mach)) = Ok () t)"
  using spinlock_mutual_exclusion [OF zero_mach_critical [of LKmem], of 0 1] by simp

section \<open>Nesting of push_off and pop_off\<close>

primrec repeatM :: "nat \<Rightarrow> ('s, unit) kmon \<Rightarrow> ('s, unit) kmon" where
  "repeatM 0 m = ret ()"
| "repeatM (Suc n) m = bind m (\<lambda>_. repeatM n m)"

text \<open>What the outermost \<^verbatim>\<open>push_off\<close> records: whether interrupts were on.\<close>

definition sync_intena :: "'z mach_scheme \<Rightarrow> 'z mach_scheme" where
  "sync_intena s = (if noff (cpus s (tp s)) = 0
     then s\<lparr>cpus := (cpus s)(tp s := (cpus s (tp s))\<lparr>intena := sie s\<rparr>)\<rparr> else s)"

lemma push_off_sync:
  "0 \<le> noff (cpus s (tp s)) \<Longrightarrow> push_off s = Ok () (pushed (sync_intena s))"
  by (auto simp: push_off_def mon_simps sync_intena_def pushed_def set_sie_def)

lemma calm_sync:
  "0 \<le> noff (cpus s (tp s)) \<Longrightarrow> (0 < noff (cpus s (tp s)) \<longrightarrow> \<not> sie s) \<Longrightarrow> calm (sync_intena s)"
  by (auto simp: calm_def sync_intena_def Let_def sie_def)

lemma repeat_pop:
  "calm s \<Longrightarrow> repeatM n push_off s = Ok () ((pushed ^^ n) s) \<and>
    repeatM n pop_off ((pushed ^^ n) s) = Ok () s \<and> calm ((pushed ^^ n) s)"
proof (induction n arbitrary: s)
  case 0
  then show ?case by simp
next
  case (Suc n)
  have "repeatM (Suc n) pop_off ((pushed ^^ Suc n) s) = repeatM n pop_off ((pushed ^^ n) s)"
    using Suc by (simp add: mon_simps pop_off_pushed)
  with Suc.IH [OF Suc.prems] Suc.IH [OF calm_pushed [OF Suc.prems]] show ?case
    by (simp add: mon_simps push_off_calm Suc.prems funpow_swap1)
qed



end
