(* ===== verification/Kstring.thy ===== *)
theory Kstring
  imports Layout
begin

text \<open>
  The memory and string routines of \<^verbatim>\<open>kernel/string.c\<close>, on byte-addressed
  memory with 64-bit pointers that wrap around.  Each loop of the source is a
  recursive function on the bytes still to process; the lemmas give the closed
  form of each routine, which the rest of the development reasons with.
\<close>

section \<open>Definitions\<close>

function memset_loop :: "memory \<Rightarrow> u64 \<Rightarrow> u8 \<Rightarrow> nat \<Rightarrow> nat \<Rightarrow> memory" where
  "memset_loop m dst c i n =
     (if i < n then memset_loop (m(dst + of_nat i := c)) dst c (i + 1) n else m)"
  by pat_completeness auto
termination
  by (relation "measure (\<lambda>(m, dst, c, i, n). n - i)") auto

declare memset_loop.simps [simp del]

definition memset :: "memory \<Rightarrow> u64 \<Rightarrow> int \<Rightarrow> u32 \<Rightarrow> memory" where
  "memset m dst c n = memset_loop m dst (word_of_int c) 0 (unat n)"

primrec memcmp_loop :: "memory \<Rightarrow> u64 \<Rightarrow> u64 \<Rightarrow> nat \<Rightarrow> int" where
  "memcmp_loop m s1 s2 0 = 0"
| "memcmp_loop m s1 s2 (Suc n) =
     (if m s1 \<noteq> m s2 then uint (m s1) - uint (m s2) else memcmp_loop m (s1 + 1) (s2 + 1) n)"

definition memcmp :: "memory \<Rightarrow> u64 \<Rightarrow> u64 \<Rightarrow> u32 \<Rightarrow> int" where
  "memcmp m v1 v2 n = memcmp_loop m v1 v2 (unat n)"

primrec copy_down :: "memory \<Rightarrow> u64 \<Rightarrow> u64 \<Rightarrow> nat \<Rightarrow> memory" where
  "copy_down m d s 0 = m"
| "copy_down m d s (Suc n) = copy_down (m(d - 1 := m (s - 1))) (d - 1) (s - 1) n"

primrec copy_up :: "memory \<Rightarrow> u64 \<Rightarrow> u64 \<Rightarrow> nat \<Rightarrow> memory" where
  "copy_up m d s 0 = m"
| "copy_up m d s (Suc n) = copy_up (m(d := m s)) (d + 1) (s + 1) n"

definition memmove :: "memory \<Rightarrow> u64 \<Rightarrow> u64 \<Rightarrow> u32 \<Rightarrow> memory" where
  "memmove m dst src n =
     (if n = 0 then m
      else if src < dst \<and> src + ucast n > dst
      then copy_down m (dst + ucast n) (src + ucast n) (unat n)
      else copy_up m dst src (unat n))"

definition memcpy :: "memory \<Rightarrow> u64 \<Rightarrow> u64 \<Rightarrow> u32 \<Rightarrow> memory" where
  "memcpy m dst src n = memmove m dst src n"

primrec strncmp_loop :: "memory \<Rightarrow> u64 \<Rightarrow> u64 \<Rightarrow> nat \<Rightarrow> int" where
  "strncmp_loop m p q 0 = 0"
| "strncmp_loop m p q (Suc n) =
     (if m p \<noteq> 0 \<and> m p = m q then strncmp_loop m (p + 1) (q + 1) n else uint (m p) - uint (m q))"

definition strncmp :: "memory \<Rightarrow> u64 \<Rightarrow> u64 \<Rightarrow> u32 \<Rightarrow> int" where
  "strncmp m p q n = strncmp_loop m p q (unat n)"

text \<open>
  \<^verbatim>\<open>strncpy\<close>: the copying loop returns the memory, the final \<^verbatim>\<open>s\<close> and the
  count left for the padding loop.
\<close>

primrec strncpy_copy :: "memory \<Rightarrow> u64 \<Rightarrow> u64 \<Rightarrow> nat \<Rightarrow> memory \<times> u64 \<times> nat" where
  "strncpy_copy m s t 0 = (m, s, 0)"
| "strncpy_copy m s t (Suc n) =
     (if m t \<noteq> 0 then strncpy_copy (m(s := m t)) (s + 1) (t + 1) n
      else (m(s := m t), s + 1, n))"

primrec strncpy_pad :: "memory \<Rightarrow> u64 \<Rightarrow> nat \<Rightarrow> memory" where
  "strncpy_pad m s 0 = m"
| "strncpy_pad m s (Suc n) = strncpy_pad (m(s := 0)) (s + 1) n"

definition strncpy :: "memory \<Rightarrow> u64 \<Rightarrow> u64 \<Rightarrow> int \<Rightarrow> memory" where
  "strncpy m s t n = (case strncpy_copy m s t (nat n) of (m', s', k) \<Rightarrow> strncpy_pad m' s' k)"

primrec safestrcpy_loop :: "memory \<Rightarrow> u64 \<Rightarrow> u64 \<Rightarrow> nat \<Rightarrow> memory" where
  "safestrcpy_loop m s t 0 = m(s := 0)"
| "safestrcpy_loop m s t (Suc n) =
     (if m t \<noteq> 0 then safestrcpy_loop (m(s := m t)) (s + 1) (t + 1) n
      else (m(s := m t))(s + 1 := 0))"

definition safestrcpy :: "memory \<Rightarrow> u64 \<Rightarrow> u64 \<Rightarrow> int \<Rightarrow> memory" where
  "safestrcpy m s t n = (if n \<le> 0 then m else safestrcpy_loop m s t (nat (n - 1)))"

text \<open>\<^verbatim>\<open>strlen\<close> looks for the first zero byte; \<open>None\<close> if there is none.\<close>

partial_function (option) strlen_from :: "memory \<Rightarrow> u64 \<Rightarrow> nat \<Rightarrow> nat option" where
  "strlen_from m s n = (if m (s + of_nat n) = 0 then Some n else strlen_from m s (n + 1))"

definition strlen :: "memory \<Rightarrow> u64 \<Rightarrow> nat option" where
  "strlen m s = strlen_from m s 0"

section \<open>Filling and copying\<close>

text \<open>\<open>a\<close> lies in the \<open>n\<close> bytes that start at \<open>d\<close> (the range may wrap).\<close>

definition within :: "u64 \<Rightarrow> u64 \<Rightarrow> nat \<Rightarrow> bool" where
  "within a d n = (unat (a - d) < n)"

lemma within_0 [simp]: "within a d 0 = False"
  by (simp add: within_def)

lemma unat_diff_succ:
  fixes a d :: u64
  assumes "a \<noteq> d"
  shows "unat (a - d) = Suc (unat (a - (d + 1)))"
proof -
  have eq: "a - (d + 1) = a - d - 1" by simp
  have nz: "a - d \<noteq> 0" using assms by simp
  then have "unat (a - d - 1) = unat (a - d) - 1" by (rule unat_minus_one)
  moreover have "0 < unat (a - d)" using nz by (simp only: word_nonzero_unat)
  ultimately show ?thesis unfolding eq by linarith
qed

lemma within_Suc: "within a d (Suc n) \<longleftrightarrow> a = d \<or> within a (d + 1) n"
proof (cases "a = d")
  case True
  then show ?thesis by (simp add: within_def)
next
  case False
  then show ?thesis by (simp add: within_def unat_diff_succ)
qed

lemma within_numeral:
  "within a d (numeral k) \<longleftrightarrow> a = d \<or> within a (d + 1) (pred_numeral k)"
  by (simp add: numeral_eq_Suc within_Suc)

lemma within_self [simp]: "0 < n \<Longrightarrow> within d d n"
  by (simp add: within_def)

lemma within_offset: "k < n \<Longrightarrow> n \<le> 2 ^ 64 \<Longrightarrow> within (d + of_nat k) d n"
  by (simp add: within_def unat_of_nat_lt)

lemma memset_loop_eq:
  "i \<le> n \<Longrightarrow> n \<le> 2 ^ 64 \<Longrightarrow>
    memset_loop m dst c i n = (\<lambda>a. if within a (dst + of_nat i) (n - i) then c else m a)"
proof (induction m dst c i n rule: memset_loop.induct)
  case (1 m dst c i n)
  show ?case
  proof (cases "i < n")
    case True
    then have n: "n - i = Suc (n - (i + 1))" by simp
    have d: "dst + of_nat (i + 1) = dst + of_nat i + 1" by simp
    from True 1 have "memset_loop (m(dst + of_nat i := c)) dst c (i + 1) n
        = (\<lambda>a. if within a (dst + of_nat i + 1) (n - (i + 1)) then c else (m(dst + of_nat i := c)) a)"
      unfolding d [symmetric] using "1.IH" [OF True] by (simp add: fun_upd_def)
    with True show ?thesis
      unfolding n by (subst memset_loop.simps) (auto simp: within_Suc)
  next
    case False
    with "1.prems" show ?thesis
      by (subst memset_loop.simps) (simp add: fun_eq_iff)
  qed
qed

lemma memset_eq: "memset m dst c n = (\<lambda>a. if within a dst (unat n) then word_of_int c else m a)"
  using memset_loop_eq [of 0 "unat n" m dst "word_of_int c"] unat_lt_u32 [of n]
  by (simp add: memset_def)

lemma copy_up_eq:
  assumes "unat (s - d) + n \<le> 2 ^ 64"
  shows "copy_up m d s n = (\<lambda>a. if within a d n then m (s + (a - d)) else m a)"
  using assms
proof (induction n arbitrary: m d s)
  case 0
  then show ?case by simp
next
  case (Suc n)
  let ?m = "m(d := m s)"
  have sd: "s + 1 - (d + 1) = s - d" by simp
  have IH: "copy_up ?m (d + 1) (s + 1) n
      = (\<lambda>a. if within a (d + 1) n then ?m (s + 1 + (a - (d + 1))) else ?m a)"
    by (rule Suc.IH) (use Suc.prems in \<open>simp add: sd\<close>)
  have ne: "s + 1 + (a - (d + 1)) \<noteq> d" if "within a (d + 1) n" for a
  proof
    assume "s + 1 + (a - (d + 1)) = d"
    then have sum: "(s - d) + (a - d) = 0" by (simp add: algebra_simps)
    have nz: "a - d \<noteq> 0"
    proof
      assume "a - d = 0"
      then have "a - (d + 1) = -1" by (simp add: algebra_simps)
      then have "unat (a - (d + 1)) = 2 ^ 64 - 1" by (simp add: unsigned_minus_1_eq_mask mask_eq_exp_minus_1)
      with that Suc.prems show False by (simp add: within_def)
    qed
    then have "a \<noteq> d" by simp
    with that have lt: "unat (a - d) < Suc n"
      by (simp add: within_def unat_diff_succ)
    have "unat ((s - d) + (a - d)) = unat (s - d) + unat (a - d)"
      by (rule unat_add_nowrap) (use lt Suc.prems in simp)
    moreover have "0 < unat (a - d)" using nz by (simp only: word_nonzero_unat)
    ultimately show False by (simp only: sum unsigned_0)
  qed
  have eq: "s + 1 + (a - (d + 1)) = s + (a - d)" for a :: u64
    by simp
  show ?case
    by (auto simp: IH within_Suc fun_eq_iff eq dest: ne)
qed

lemma within_snoc:
  assumes "n < 2 ^ 64"
  shows "within a d (Suc n) \<longleftrightarrow> within a d n \<or> a = d + of_nat n"
proof -
  have "unat (a - d) = n \<longleftrightarrow> a = d + of_nat n"
  proof
    assume n: "unat (a - d) = n"
    have "a - d = of_nat (unat (a - d))" by simp
    with n have "a - d = of_nat n" by simp
    then show "a = d + of_nat n" by (simp add: algebra_simps)
  next
    assume "a = d + of_nat n"
    then show "unat (a - d) = n" using assms by (simp add: unat_of_nat_lt)
  qed
  then show ?thesis by (auto simp: within_def less_Suc_eq)
qed

lemma copy_down_eq:
  assumes "unat (d - s) + n \<le> 2 ^ 64"
  shows "copy_down m (d + of_nat n) (s + of_nat n) n = (\<lambda>a. if within a d n then m (s + (a - d)) else m a)"
  using assms
proof (induction n arbitrary: m)
  case 0
  then show ?case by simp
next
  case (Suc n)
  let ?m = "m(d + of_nat n := m (s + of_nat n))"
  have IH: "copy_down ?m (d + of_nat n) (s + of_nat n) n
      = (\<lambda>a. if within a d n then ?m (s + (a - d)) else ?m a)"
    by (rule Suc.IH) (use Suc.prems in simp)
  have ne: "s + (a - d) \<noteq> d + of_nat n" if w: "within a d n" for a
  proof
    assume eq: "s + (a - d) = d + of_nat n"
    let ?k = "n - unat (a - d)"
    from w have k: "0 < ?k" "?k \<le> n" by (auto simp: within_def)
    have "of_nat n = of_nat ?k + (a - d)"
      using w by (simp add: within_def)
    with eq have sum: "(d - s) + of_nat ?k = 0" by (simp add: algebra_simps)
    have uk: "unat (of_nat ?k :: u64) = ?k"
      by (rule unat_of_nat_lt) (use k Suc.prems in simp)
    have "unat ((d - s) + of_nat ?k) = unat (d - s) + unat (of_nat ?k :: u64)"
      by (rule unat_add_nowrap) (use k uk Suc.prems in simp)
    with uk k(1) show False by (simp only: sum unsigned_0)
  qed
  have n: "n < 2 ^ 64" using Suc.prems by simp
  have d: "d + of_nat (Suc n) - 1 = d + of_nat n" "s + of_nat (Suc n) - 1 = s + of_nat n"
    by simp_all
  have "copy_down m (d + of_nat (Suc n)) (s + of_nat (Suc n)) (Suc n)
      = copy_down ?m (d + of_nat n) (s + of_nat n) n"
    by (simp only: copy_down.simps d)
  also have "\<dots> = (\<lambda>a. if within a d (Suc n) then m (s + (a - d)) else m a)"
    unfolding IH using ne by (auto simp: within_snoc [OF n] fun_eq_iff)
  finally show ?case .
qed

lemma unat_sub_le: "b \<le> a \<Longrightarrow> unat (a - b) = unat a - unat b" for a b :: u64
  by (rule unat_sub)

lemma unat_sub_lt:
  fixes a b :: u64
  assumes "a < b"
  shows "unat (a - b) + unat b = unat a + 2 ^ 64"
proof -
  have m: "(unat (a - b) + unat b) mod 2 ^ 64 = unat a"
    using unat_word_ariths(1) [of "a - b" b] by simp
  have "unat a < unat b" using assms by (simp only: word_less_nat_alt)
  moreover have "unat (a - b) < 2 ^ 64" "unat b < 2 ^ 64"
    using unat_lt_u64 [of "a - b"] unat_lt_u64 [of b] by simp_all
  ultimately show ?thesis
    using m by (cases "unat (a - b) + unat b < 2 ^ 64") (simp_all add: le_mod_geq)
qed

lemma memmove_eq:
  assumes "unat dst + unat n \<le> 2 ^ 64" and "unat src + unat n \<le> 2 ^ 64"
  shows "memmove m dst src n = (\<lambda>a. if within a dst (unat n) then m (src + (a - dst)) else m a)"
proof (cases "n = 0")
  case True
  then show ?thesis by (simp add: memmove_def)
next
  case False
  have n2: "unat n < 2 ^ 32" using unat_lt_u32 [of n] by simp
  have n1: "0 < unat n" using False by (simp only: word_nonzero_unat)
  have un: "ucast n = (of_nat (unat n) :: u64)" by simp
  have unn: "unat (ucast n :: u64) = unat n" unfolding un by (rule unat_of_nat_lt) (use n2 in simp)
  show ?thesis
  proof (cases "src < dst \<and> src + ucast n > dst")
    case True
    then have "unat (dst - src) = unat dst - unat src"
      by (intro unat_sub_le) (simp add: less_imp_le)
    then have "unat (dst - src) + unat n \<le> 2 ^ 64" using assms by simp
    from copy_down_eq [OF this, of m] True False show ?thesis
      by (simp add: memmove_def)
  next
    case down: False
    have "unat (src - dst) + unat n \<le> 2 ^ 64"
    proof (cases "src < dst")
      case True
      then have lt: "unat src < unat dst" by (simp only: word_less_nat_alt)
      have "unat (src + ucast n) = unat src + unat (ucast n :: u64)"
        by (rule unat_add_nowrap) (use lt assms(1) unn in simp)
      moreover have "unat (src + ucast n) \<le> unat dst"
        using True down by (simp only: word_le_nat_alt [symmetric]) simp
      ultimately have "unat src + unat n \<le> unat dst" using unn by simp
      with unat_sub_lt [OF True] show ?thesis by simp
    next
      case False
      then have "unat (src - dst) = unat src - unat dst"
        by (intro unat_sub_le) simp
      with assms show ?thesis by simp
    qed
    from copy_up_eq [OF this, of m] down False show ?thesis
      by (auto simp: memmove_def)
  qed
qed

section \<open>Byte ranges and strings\<close>

text \<open>The \<open>n\<close> bytes at \<open>p\<close>, and the NUL-terminated string at \<open>p\<close>.\<close>

primrec bytes :: "memory \<Rightarrow> u64 \<Rightarrow> nat \<Rightarrow> u8 list" where
  "bytes m p 0 = []"
| "bytes m p (Suc n) = m p # bytes m (p + 1) n"

primrec cstr :: "memory \<Rightarrow> u64 \<Rightarrow> u8 list \<Rightarrow> bool" where
  "cstr m p [] = (m p = 0)"
| "cstr m p (x # xs) = (x \<noteq> 0 \<and> m p = x \<and> cstr m (p + 1) xs)"

text \<open>Two byte ranges that share no address.\<close>

definition apart :: "u64 \<Rightarrow> nat \<Rightarrow> u64 \<Rightarrow> nat \<Rightarrow> bool" where
  "apart s n t k = (\<forall>a. \<not> (within a s n \<and> within a t k))"

lemma length_bytes [simp]: "length (bytes m p n) = n"
  by (induction n arbitrary: p) simp_all

lemma bytes_numeral [simp]:
  "bytes m p (numeral k) = m p # bytes m (p + 1) (pred_numeral k)"
  by (simp add: numeral_eq_Suc)

lemma nth_bytes: "i < n \<Longrightarrow> bytes m p n ! i = m (p + of_nat i)"
proof (induction n arbitrary: p i)
  case 0
  then show ?case by simp
next
  case (Suc n)
  then show ?case by (cases i) (simp_all add: add.assoc)
qed

lemma bytes_cong: "(\<And>a. within a p n \<Longrightarrow> m a = m' a) \<Longrightarrow> bytes m p n = bytes m' p n"
  by (induction n arbitrary: p) (simp_all add: within_Suc)

lemma cstr_cong: "(\<And>a. within a p (Suc (length xs)) \<Longrightarrow> m a = m' a) \<Longrightarrow> cstr m p xs = cstr m' p xs"
proof (induction xs arbitrary: p)
  case Nil
  then show ?case by (simp add: within_Suc)
next
  case (Cons x xs)
  have "m p = m' p" by (rule Cons.prems) (simp add: within_Suc)
  moreover have "cstr m (p + 1) xs = cstr m' (p + 1) xs"
    by (rule Cons.IH) (rule Cons.prems, simp add: within_Suc [of _ p "Suc (length xs)"])
  ultimately show ?case by simp
qed

lemma apart_tails:
  assumes "apart s (Suc n) t (Suc k)"
  shows "apart (s + 1) n (t + 1) k" "\<not> within s (t + 1) k" "s \<noteq> t"
  using assms unfolding apart_def within_Suc by blast+

lemma not_within_next: "n < 2 ^ 64 \<Longrightarrow> \<not> within s (s + 1) n"
  by (simp add: within_def unsigned_minus_1_eq_mask mask_eq_exp_minus_1)

lemma uint_eq_iff: "uint (x :: u8) = uint y \<longleftrightarrow> x = y"
  by (metis word_uint_eqI)

lemma uint_0_iff: "uint (x :: u8) = 0 \<longleftrightarrow> x = 0"
  using uint_eq_iff [of x 0] by simp

lemma memcmp_loop_0_iff: "memcmp_loop m a b n = 0 \<longleftrightarrow> bytes m a n = bytes m b n"
  by (induction n arbitrary: a b) (auto simp: uint_eq_iff)

lemma strncmp_loop_0_iff:
  "strncmp_loop m p q n = 0 \<longleftrightarrow>
    takeWhile (\<lambda>c. c \<noteq> 0) (bytes m p n) = takeWhile (\<lambda>c. c \<noteq> 0) (bytes m q n)"
  by (induction n arbitrary: p q) (auto simp: uint_0_iff uint_eq_iff)

lemma strlen_cstr:
  assumes "cstr m (p + of_nat k) xs"
  shows "strlen_from m p k = Some (k + length xs)"
  using assms
proof (induction xs arbitrary: k)
  case Nil
  then show ?case by (subst strlen_from.simps) simp
next
  case (Cons x xs)
  then have "strlen_from m p (k + 1) = Some (k + 1 + length xs)"
    by (intro Cons.IH) (simp add: ac_simps)
  with Cons.prems show ?case by (subst strlen_from.simps) simp
qed

lemma safestrcpy_loop_spec:
  assumes "cstr m t xs" and "apart s (Suc k) t (Suc (length xs))" and "Suc k < 2 ^ 64"
  shows "cstr (safestrcpy_loop m s t k) s (take k xs) \<and>
    (\<forall>a. \<not> within a s (Suc k) \<longrightarrow> safestrcpy_loop m s t k a = m a)"
  using assms
proof (induction k arbitrary: m s t xs)
  case 0
  then show ?case by (simp add: within_Suc)
next
  case (Suc k)
  show ?case
  proof (cases xs)
    case Nil
    with Suc.prems show ?thesis by (auto simp: within_Suc)
  next
    case (Cons x ys)
    let ?m = "m(s := x)"
    from Suc.prems Cons have ap: "apart (s + 1) (Suc k) (t + 1) (Suc (length ys))"
      "\<not> within s (t + 1) (Suc (length ys))"
      by (auto dest: apart_tails)
    then have "cstr ?m (t + 1) ys = cstr m (t + 1) ys"
      by (intro cstr_cong) auto
    moreover have upd: "(\<lambda>a. if a = s then m t else m a) = m(s := m t)"
      by (simp add: fun_eq_iff)
    ultimately have IH: "cstr (safestrcpy_loop ?m (s + 1) (t + 1) k) (s + 1) (take k ys) \<and>
        (\<forall>a. \<not> within a (s + 1) (Suc k) \<longrightarrow> safestrcpy_loop ?m (s + 1) (t + 1) k a = ?m a)"
      using Suc.prems Cons ap by (intro Suc.IH) (auto simp: upd)
    moreover have "\<not> within s (s + 1) (Suc k)"
      by (rule not_within_next) (use Suc.prems in simp)
    ultimately show ?thesis
      using Suc.prems Cons by (auto simp: within_Suc [of _ s "Suc k"])
  qed
qed

lemma strncpy_pad_spec:
  "n < 2 ^ 64 \<Longrightarrow> strncpy_pad m s n = (\<lambda>a. if within a s n then 0 else m a)"
proof (induction n arbitrary: m s)
  case 0
  then show ?case by simp
next
  case (Suc n)
  have "\<not> within s (s + 1) n"
    by (rule not_within_next) (use Suc.prems in simp)
  with Suc show ?case by (auto simp: within_Suc fun_eq_iff)
qed

lemma bytes_zero: "(\<And>a. within a p n \<Longrightarrow> m a = 0) \<Longrightarrow> bytes m p n = replicate n 0"
  by (induction n arbitrary: p) (simp_all add: within_Suc)

lemma strncpy_spec_nat:
  assumes "cstr m t xs" and "apart s n t (Suc (length xs))" and "n < 2 ^ 64"
    and "strncpy_copy m s t n = (m', s', k)" and "r = strncpy_pad m' s' k"
  shows "bytes r s n = take n xs @ replicate (n - length xs) 0 \<and>
    (\<forall>a. \<not> within a s n \<longrightarrow> r a = m a)"
  using assms
proof (induction n arbitrary: m s t xs)
  case 0
  then show ?case by simp
next
  case (Suc n)
  have ns: "\<not> within s (s + 1) n"
    by (rule not_within_next) (use Suc.prems in simp)
  show ?case
  proof (cases xs)
    case Nil
    with Suc.prems have r: "r = (\<lambda>a. if within a (s + 1) n then 0 else (m(s := 0)) a)"
      by (auto simp: strncpy_pad_spec)
    then have "bytes r (s + 1) n = replicate n 0"
      by (intro bytes_zero) simp
    with Nil r ns show ?thesis by (auto simp: within_Suc)
  next
    case (Cons x ys)
    let ?m = "m(s := x)"
    from Suc.prems Cons have ap: "apart (s + 1) n (t + 1) (Suc (length ys))"
      "\<not> within s (t + 1) (Suc (length ys))"
      by (auto dest: apart_tails)
    then have "cstr ?m (t + 1) ys = cstr m (t + 1) ys"
      by (intro cstr_cong) auto
    moreover have upd: "(\<lambda>a. if a = s then m t else m a) = m(s := m t)"
      by (simp add: fun_eq_iff)
    ultimately have IH: "bytes r (s + 1) n = take n ys @ replicate (n - length ys) 0 \<and>
        (\<forall>a. \<not> within a (s + 1) n \<longrightarrow> r a = ?m a)"
      using Suc.prems Cons ap by (intro Suc.IH [of ?m "t + 1"]) (auto simp: upd)
    with ns Cons show ?thesis by (auto simp: within_Suc)
  qed
qed

text \<open>
  C27.  \<^verbatim>\<open>memmove\<close> is correct for overlapping ranges: whenever neither range runs
  past the end of the address space, the destination ends up holding the bytes
  the source held before the call, and no other byte changes.
\<close>

theorem memmove_correct:
  assumes "unat dst + unat n \<le> 2 ^ 64" and "unat src + unat n \<le> 2 ^ 64"
  shows "bytes (memmove m dst src n) dst (unat n) = bytes m src (unat n) \<and>
    (\<forall>a. \<not> within a dst (unat n) \<longrightarrow> memmove m dst src n a = m a)"
proof -
  have "bytes (memmove m dst src n) dst (unat n) ! i = bytes m src (unat n) ! i" if "i < unat n" for i
  proof -
    have "within (dst + of_nat i) dst (unat n)"
      by (rule within_offset) (use that unat_lt_u32 [of n] in simp_all)
    then show ?thesis
      using that by (simp add: nth_bytes memmove_eq [OF assms])
  qed
  then have "bytes (memmove m dst src n) dst (unat n) = bytes m src (unat n)"
    by (intro nth_equalityI) simp_all
  then show ?thesis by (simp add: memmove_eq [OF assms])
qed

theorem memmove_correct_witness:
  "bytes (memmove (\<lambda>a. ucast a) 102 100 8) 102 8 = [100, 101, 102, 103, 104, 105, 106, 107]"
proof -
  have "bytes (memmove (\<lambda>a. ucast a) 102 100 8) 102 8 = bytes (\<lambda>a. ucast a) 100 8"
    using memmove_correct [of 102 8 100 "\<lambda>a. ucast a"] by simp
  also have "\<dots> = [100, 101, 102, 103, 104, 105, 106, 107]"
    by simp
  finally show ?thesis .
qed

text \<open>
  \<^verbatim>\<open>safestrcpy\<close> always leaves a NUL-terminated string: copying the string
  \<open>xs\<close> into a buffer of \<open>n > 0\<close> bytes that does not overlap it stores the first
  \<open>n - 1\<close> characters of \<open>xs\<close> and a terminator, and writes nothing outside the
  \<open>n\<close> bytes; \<^verbatim>\<open>strlen\<close> of the result is the length of what was kept.
\<close>

theorem safestrcpy_terminates:
  assumes "cstr m t xs" and "0 < n" and "n < 2 ^ 31" and "apart s (nat n) t (Suc (length xs))"
  shows "cstr (safestrcpy m s t n) s (take (nat n - 1) xs) \<and>
    strlen (safestrcpy m s t n) s = Some (min (length xs) (nat n - 1)) \<and>
    (\<forall>a. \<not> within a s (nat n) \<longrightarrow> safestrcpy m s t n a = m a)"
proof -
  have n: "nat n = Suc (nat (n - 1))" using assms(2) by simp
  have "cstr (safestrcpy m s t n) s (take (nat (n - 1)) xs) \<and>
    (\<forall>a. \<not> within a s (Suc (nat (n - 1))) \<longrightarrow> safestrcpy m s t n a = m a)"
    using safestrcpy_loop_spec [OF assms(1), of s "nat (n - 1)"] assms n by (simp add: safestrcpy_def)
  moreover from this have "strlen (safestrcpy m s t n) s = Some (length (take (nat (n - 1)) xs))"
    using strlen_cstr [of "safestrcpy m s t n" s 0 "take (nat (n - 1)) xs"] by (simp add: strlen_def)
  ultimately show ?thesis by (simp add: n)
qed

end
