(* ===== verification/Memory.thy ===== *)
theory Memory
  imports Kstring
begin

text \<open>
  Little-endian loads and stores of 16, 32 and 64-bit values in byte memory: the
  way the compiled C code accesses the \<^verbatim>\<open>struct run\<close> of a free page, a page-table
  entry, a trap frame slot or a field of an on-disk structure.  The lemmas say what
  a load sees after a store, a fill or a copy.
\<close>

unbundle bit_operations_syntax

section \<open>Words as byte lists\<close>

primrec le_word :: "u8 list \<Rightarrow> 'a::len word" where
  "le_word [] = 0"
| "le_word (b # bs) = ucast b OR push_bit 8 (le_word bs)"

primrec le_bytes :: "nat \<Rightarrow> 'a::len word \<Rightarrow> u8 list" where
  "le_bytes 0 w = []"
| "le_bytes (Suc n) w = ucast w # le_bytes n (drop_bit 8 w)"

lemma length_le_bytes [simp]: "length (le_bytes n w) = n"
  by (induction n arbitrary: w) simp_all

lemma le_word_le_bytes: "le_word (le_bytes n w) = take_bit (8 * n) w"
proof (induction n arbitrary: w)
  case 0
  then show ?case by simp
next
  case (Suc n)
  show ?case
    by (rule bit_word_eqI) (auto simp: Suc bit_simps)
qed

lemma le_word_le_bytes_u64 [simp]: "le_word (le_bytes 8 (w :: u64)) = w"
  by (simp add: le_word_le_bytes take_bit_word_eq_self)

lemma le_word_le_bytes_u32 [simp]: "le_word (le_bytes 4 (w :: u32)) = w"
  by (simp add: le_word_le_bytes take_bit_word_eq_self)

lemma le_word_le_bytes_u16 [simp]: "le_word (le_bytes 2 (w :: u16)) = w"
  by (simp add: le_word_le_bytes take_bit_word_eq_self)

lemma bit_le_word_less: "bit (le_word bs :: 'a::len word) i \<Longrightarrow> i < 8 * length bs"
proof (induction bs arbitrary: i)
  case Nil
  then show ?case by simp
next
  case (Cons b bs)
  then consider "bit b i" | "8 \<le> i" "bit (le_word bs :: 'a word) (i - 8)"
    by (auto simp: bit_simps)
  then show ?case
  proof cases
    case 1
    then show ?thesis using bit_imp_le_length [of b i] by simp
  next
    case 2
    with Cons.IH [of "i - 8"] show ?thesis by simp
  qed
qed

lemma le_bytes_le_word:
  "8 * length bs \<le> LENGTH('a) \<Longrightarrow> le_bytes (length bs) (le_word bs :: 'a::len word) = bs"
proof (induction bs)
  case Nil
  then show ?case by simp
next
  case (Cons b bs)
  have "ucast (ucast b OR push_bit 8 (le_word bs :: 'a word)) = b"
    using Cons.prems by (intro bit_word_eqI) (auto simp: bit_simps)
  moreover have "drop_bit 8 (ucast b OR push_bit 8 (le_word bs :: 'a word)) =
      take_bit (LENGTH('a) - 8) (le_word bs)"
    by (rule bit_word_eqI) (auto simp: bit_simps dest: bit_imp_le_length)
  moreover have "take_bit (LENGTH('a) - 8) (le_word bs :: 'a word) = le_word bs"
  proof (rule bit_word_eqI)
    fix i
    show "bit (take_bit (LENGTH('a) - 8) (le_word bs :: 'a word)) i = bit (le_word bs :: 'a word) i"
      using Cons.prems bit_le_word_less [where 'a = 'a, of bs i] by (auto simp: bit_simps)
  qed
  ultimately show ?case using Cons by simp
qed

section \<open>Loads and stores\<close>

primrec write_bytes :: "memory \<Rightarrow> u64 \<Rightarrow> u8 list \<Rightarrow> memory" where
  "write_bytes m a [] = m"
| "write_bytes m a (b # bs) = write_bytes (m(a := b)) (a + 1) bs"

definition read64 :: "memory \<Rightarrow> u64 \<Rightarrow> u64" where
  "read64 m a = le_word (bytes m a 8)"

definition write64 :: "memory \<Rightarrow> u64 \<Rightarrow> u64 \<Rightarrow> memory" where
  "write64 m a v = write_bytes m a (le_bytes 8 v)"

definition read32 :: "memory \<Rightarrow> u64 \<Rightarrow> u32" where
  "read32 m a = le_word (bytes m a 4)"

definition write32 :: "memory \<Rightarrow> u64 \<Rightarrow> u32 \<Rightarrow> memory" where
  "write32 m a v = write_bytes m a (le_bytes 4 v)"

definition read16 :: "memory \<Rightarrow> u64 \<Rightarrow> u16" where
  "read16 m a = le_word (bytes m a 2)"

definition write16 :: "memory \<Rightarrow> u64 \<Rightarrow> u16 \<Rightarrow> memory" where
  "write16 m a v = write_bytes m a (le_bytes 2 v)"

lemma write_bytes_out: "\<not> within x a (length bs) \<Longrightarrow> write_bytes m a bs x = m x"
  by (induction bs arbitrary: m a) (simp_all add: within_Suc)

lemma bytes_write_bytes [simp]:
  "length bs < 2 ^ 64 \<Longrightarrow> bytes (write_bytes m a bs) a (length bs) = bs"
proof (induction bs arbitrary: m a)
  case Nil
  then show ?case by simp
next
  case (Cons b bs)
  have "\<not> within a (a + 1) (length bs)"
    by (rule not_within_next) (use Cons.prems in simp)
  with Cons show ?case by (simp add: write_bytes_out)
qed

lemma read64_write64 [simp]: "read64 (write64 m a v) a = v"
  using bytes_write_bytes [of "le_bytes 8 v" m a] by (simp add: read64_def write64_def del: bytes_write_bytes bytes_numeral)

lemma read32_write32 [simp]: "read32 (write32 m a v) a = v"
  using bytes_write_bytes [of "le_bytes 4 v" m a] by (simp add: read32_def write32_def del: bytes_write_bytes bytes_numeral)

lemma read16_write16 [simp]: "read16 (write16 m a v) a = v"
  using bytes_write_bytes [of "le_bytes 2 v" m a] by (simp add: read16_def write16_def del: bytes_write_bytes bytes_numeral)

lemma write64_out: "\<not> within x a 8 \<Longrightarrow> write64 m a v x = m x"
  by (simp add: write64_def write_bytes_out)

lemma write32_out: "\<not> within x a 4 \<Longrightarrow> write32 m a v x = m x"
  by (simp add: write32_def write_bytes_out)

lemma read64_cong: "(\<And>x. within x a 8 \<Longrightarrow> m x = m' x) \<Longrightarrow> read64 m a = read64 m' a"
  unfolding read64_def by (rule arg_cong [where f = le_word]) (rule bytes_cong)

lemma read64_write64_apart: "apart a 8 b 8 \<Longrightarrow> read64 (write64 m b v) a = read64 m a"
  by (rule read64_cong) (auto simp: apart_def intro: write64_out)

end
