(* ===== verification/Kalloc.thy ===== *)
theory Kalloc
  imports Spinlock Memory
begin

text \<open>
  The physical page allocator of \<^verbatim>\<open>kernel/kalloc.c\<close>.  The free list is threaded
  through the free pages themselves: the first eight bytes of a free page hold the
  address of the next one.  \<open>kend\<close> is the linker symbol \<^verbatim>\<open>end\<close>, the first address
  after the kernel.

  The list lives in byte memory; \<open>kmem_inv s rs\<close> says that the pages \<open>rs\<close>, in this
  order, are on it.  The interface the virtual-memory code relies on is the locale
  \<open>page_allocator\<close>, interpreted on the two operations at the end.
\<close>

section \<open>Definitions\<close>

record kmem_st = mach +
  kend :: u64
  freelist :: u64

definition kfree :: "u64 \<Rightarrow> ('z kmem_st_scheme, unit) kmon" where
  "kfree pa = bind (gets kend) (\<lambda>e.
     if pa mod PGSIZE \<noteq> 0 \<or> pa < e \<or> pa \<ge> PHYSTOP then panic ''kfree''
     else bind (modify (\<lambda>s. s\<lparr>mem := memset (mem s) pa 1 4096\<rparr>)) (\<lambda>_.
       bind (acquire LKmem) (\<lambda>_.
       bind (modify (\<lambda>s. s\<lparr>mem := write64 (mem s) pa (freelist s)\<rparr>)) (\<lambda>_.
       bind (modify (\<lambda>s. s\<lparr>freelist := pa\<rparr>)) (\<lambda>_.
       release LKmem)))))"

definition kalloc :: "('z kmem_st_scheme, u64) kmon" where
  "kalloc = bind (acquire LKmem) (\<lambda>_.
     bind (gets freelist) (\<lambda>r.
     bind (whenM (r \<noteq> 0) (modify (\<lambda>s. s\<lparr>freelist := read64 (mem s) r\<rparr>))) (\<lambda>_.
     bind (release LKmem) (\<lambda>_.
     bind (whenM (r \<noteq> 0) (modify (\<lambda>s. s\<lparr>mem := memset (mem s) r 5 4096\<rparr>))) (\<lambda>_.
     ret r)))))"

text \<open>
  The loop of \<^verbatim>\<open>freerange\<close>.  Pointer arithmetic does not overflow in C, so the
  bound is compared without wrap-around.
\<close>

function freerange_loop :: "u64 \<Rightarrow> u64 \<Rightarrow> ('z kmem_st_scheme, unit) kmon" where
  "freerange_loop p pa_end =
     (if unat p + 4096 \<le> unat pa_end
      then bind (kfree p) (\<lambda>_. freerange_loop (p + PGSIZE) pa_end)
      else ret ())"
  by pat_completeness auto
termination
proof (relation "measure (\<lambda>(p, pa_end). unat pa_end - unat p)", goal_cases)
  case (2 p pa_end x)
  have "unat (p + 4096) = unat p + 4096"
    by (rule unat_add_nowrap [of p 4096, simplified]) (use 2 unat_lt_u64 [of pa_end] in simp)
  with 2 show ?case by simp
qed simp

declare freerange_loop.simps [simp del]

definition freerange :: "u64 \<Rightarrow> u64 \<Rightarrow> ('z kmem_st_scheme, unit) kmon" where
  "freerange pa_start pa_end = freerange_loop (PGROUNDUP pa_start) pa_end"

definition kinit :: "('z kmem_st_scheme, unit) kmon" where
  "kinit = bind (initlock LKmem ''kmem'') (\<lambda>_.
     bind (gets kend) (\<lambda>e. freerange e PHYSTOP))"

section \<open>What each operation does\<close>

lemma kmem_held [simp, held_simps]:
  "kend (held l s) = kend s" "freelist (held l s) = freelist s"
  "(held l s)\<lparr>freelist := x\<rparr> = held l (s\<lparr>freelist := x\<rparr>)"
  by (simp_all add: held_def pushed_def set_sie_def)

lemma kmem_frame [simp]:
  "calm (s\<lparr>freelist := x\<rparr>) = calm s" "unlocked l (s\<lparr>freelist := x\<rparr>) = unlocked l s"
  by (simp_all add: calm_def unlocked_def sie_def)

definition pg_aligned :: "u64 \<Rightarrow> bool" where
  "pg_aligned pa = (4096 dvd unat pa)"

lemma pg_aligned_mod: "pa mod 4096 = 0 \<longleftrightarrow> pg_aligned pa"
proof -
  have "pa mod 4096 = 0 \<longleftrightarrow> unat (pa mod 4096) = 0" by (simp only: unat_eq_zero)
  then show ?thesis by (simp only: pg_aligned_def dvd_eq_mod_eq_0 unat_mod_distrib) simp
qed

text \<open>The guard of \<^verbatim>\<open>kfree\<close>: a page-aligned address between the kernel and the end of RAM.\<close>

definition page_ok :: "u64 \<Rightarrow> u64 \<Rightarrow> bool" where
  "page_ok e pa = (pg_aligned pa \<and> e \<le> pa \<and> pa < PHYSTOP)"

text \<open>No lock is held and the hart is in a balanced interrupt state.\<close>

abbreviation idle :: "lockid \<Rightarrow> 'z mach_scheme \<Rightarrow> bool" where
  "idle l s \<equiv> calm s \<and> unlocked l s"

lemma kfree_ok:
  assumes "idle LKmem s" and "page_ok (kend s) pa"
  shows "kfree pa s = Ok ()
    (s\<lparr>mem := write64 (memset (mem s) pa 1 4096) pa (freelist s), freelist := pa\<rparr>)"
  using assms by (auto simp: kfree_def mon_simps page_ok_def pg_aligned_mod simp flip: not_le)

lemma kfree_panic: "\<not> page_ok (kend s) pa \<Longrightarrow> kfree pa s = Panic ''kfree''"
  by (auto simp: kfree_def mon_simps page_ok_def pg_aligned_mod)

lemma kalloc_none: "idle LKmem s \<Longrightarrow> freelist s = 0 \<Longrightarrow> kalloc s = Ok 0 s"
  by (simp add: kalloc_def mon_simps)

lemma kalloc_some:
  "idle LKmem s \<Longrightarrow> freelist s \<noteq> 0 \<Longrightarrow> kalloc s = Ok (freelist s)
    (s\<lparr>mem := memset (mem s) (freelist s) 5 4096, freelist := read64 (mem s) (freelist s)\<rparr>)"
  by (simp add: kalloc_def mon_simps)

section \<open>The free list\<close>

primrec flist :: "memory \<Rightarrow> u64 \<Rightarrow> u64 list \<Rightarrow> bool" where
  "flist m p [] = (p = 0)"
| "flist m p (r # rs) = (p = r \<and> flist m (read64 m r) rs)"

definition kmem_inv :: "'z kmem_st_scheme \<Rightarrow> u64 list \<Rightarrow> bool" where
  "kmem_inv s rs = (idle LKmem s \<and> 0 < kend s \<and> flist (mem s) (freelist s) rs \<and>
     distinct rs \<and> (\<forall>r \<in> set rs. page_ok (kend s) r))"

text \<open>The bytes of the page at \<open>pa\<close>.\<close>

definition in_page :: "u64 \<Rightarrow> u64 \<Rightarrow> bool" where
  "in_page a pa = within a pa 4096"

lemma page_ok_nonzero: "page_ok e pa \<Longrightarrow> 0 < e \<Longrightarrow> pa \<noteq> 0"
  by (auto simp: page_ok_def)

text \<open>Distinct pages share no byte.\<close>

lemma div_4096_eq: "n div 4096 = q \<longleftrightarrow> 4096 * q \<le> n \<and> n < 4096 * q + (4096 :: nat)"
  by (auto simp: div_nat_eqI)

lemma in_page_div:
  assumes "pg_aligned pa"
  shows "in_page a pa \<longleftrightarrow> unat a div 4096 = unat pa div 4096"
proof -
  obtain q where q: "unat pa = 4096 * q"
    using assms unfolding pg_aligned_def by (elim dvdE)
  have le: "q < 4503599627370496" using unat_lt_u64 [of pa] q by linarith
  show ?thesis
  proof (cases "unat pa \<le> unat a")
    case True
    then have "unat (a - pa) = unat a - unat pa"
      by (simp add: unat_sub word_le_nat_alt)
    then show ?thesis
      using True q by (simp add: in_page_def within_def div_4096_eq) linarith
  next
    case False
    then have "unat (a - pa) = 2 ^ 64 + unat a - unat pa"
      by (simp add: unat_sub_if' word_le_nat_alt)
    moreover have "unat pa + 4096 \<le> 2 ^ 64" using q le by simp
    ultimately have "\<not> in_page a pa"
      unfolding in_page_def within_def by linarith
    moreover have "unat a div 4096 \<noteq> q"
      using False q by (simp add: div_4096_eq)
    ultimately show ?thesis using q by simp
  qed
qed

lemma in_page_disjoint:
  assumes "pg_aligned pa" and "pg_aligned pb" and "pa \<noteq> pb" and "in_page a pa"
  shows "\<not> in_page a pb"
proof
  assume "in_page a pb"
  with assms have "unat pa div 4096 = unat pb div 4096"
    by (simp add: in_page_div)
  moreover have "unat pa mod 4096 = 0" "unat pb mod 4096 = 0"
    using assms by (simp_all only: pg_aligned_def dvd_eq_mod_eq_0)
  ultimately have "unat pa = unat pb"
    using div_mult_mod_eq [of "unat pa" 4096] div_mult_mod_eq [of "unat pb" 4096] by simp
  then show False using assms(3) by (simp only: word_eq_unat)
qed

lemma within_in_page: "within a pa 8 \<Longrightarrow> in_page a pa"
  by (simp add: within_def in_page_def)

lemma memset_page: "memset m pa c 4096 a = (if in_page a pa then word_of_int c else m a)"
  by (simp add: memset_eq in_page_def)

lemma kfree_mem_out:
  "\<not> in_page a pa \<Longrightarrow> write64 (memset m pa c 4096) pa v a = m a"
proof -
  assume a: "\<not> in_page a pa"
  then have "\<not> within a pa 8" using within_in_page by blast
  with a show ?thesis by (simp add: memset_page write64_out)
qed

lemma flist_cong:
  "(\<And>r. r \<in> set rs \<Longrightarrow> read64 m r = read64 m' r) \<Longrightarrow> flist m p rs = flist m' p rs"
  by (induction rs arbitrary: p) auto

lemma flist_frame:
  assumes "\<And>a. \<not> in_page a pa \<Longrightarrow> m' a = m a" and "pg_aligned pa"
    and "\<forall>r \<in> set rs. pg_aligned r" and "pa \<notin> set rs"
  shows "flist m' p rs = flist m p rs"
proof (rule flist_cong)
  fix r assume r: "r \<in> set rs"
  show "read64 m' r = read64 m r"
  proof (rule read64_cong)
    fix x assume "within x r 8"
    then have "in_page x r" by (rule within_in_page)
    then have "\<not> in_page x pa" using assms r by (intro in_page_disjoint [of r pa]) auto
    then show "m' x = m x" by (rule assms(1))
  qed
qed

lemma flist_nonzero: "flist m p rs \<Longrightarrow> \<forall>r \<in> set rs. r \<noteq> 0 \<Longrightarrow> p \<noteq> 0 \<longleftrightarrow> rs \<noteq> []"
  by (cases rs) auto

lemma kmem_inv_pages:
  assumes "kmem_inv s rs"
  shows "\<forall>r \<in> set rs. r \<noteq> 0" "\<forall>r \<in> set rs. pg_aligned r" "freelist s = 0 \<longleftrightarrow> rs = []"
proof -
  show 1: "\<forall>r \<in> set rs. r \<noteq> 0" and "\<forall>r \<in> set rs. pg_aligned r"
    using assms by (auto simp: kmem_inv_def page_ok_def)
  then show "freelist s = 0 \<longleftrightarrow> rs = []"
    using assms flist_nonzero [of "mem s" "freelist s" rs] by (auto simp: kmem_inv_def)
qed

text \<open>The allocator and its clients touch only the memory and the list head.\<close>

definition mem_only :: "'z kmem_st_scheme \<Rightarrow> 'z kmem_st_scheme \<Rightarrow> bool" where
  "mem_only s s' = (\<exists>m f. s' = s\<lparr>mem := m, freelist := f\<rparr>)"

lemma mem_only_refl [simp, intro]: "mem_only s s"
  unfolding mem_only_def by (rule exI [of _ "mem s"], rule exI [of _ "freelist s"]) simp

lemma mem_only_trans [trans]: "mem_only s t \<Longrightarrow> mem_only t u \<Longrightarrow> mem_only s u"
  unfolding mem_only_def by (elim exE, hypsubst) (intro exI, simp)

lemma mem_only_upd [simp, intro]:
  "mem_only s (s\<lparr>mem := m\<rparr>)" "mem_only s (s\<lparr>mem := m, freelist := f\<rparr>)"
  unfolding mem_only_def by (rule exI [of _ m], rule exI [of _ "freelist s"], simp) blast

lemma mem_only_kend: "mem_only s t \<Longrightarrow> kend t = kend s"
  by (auto simp: mem_only_def)

text \<open>\<^verbatim>\<open>kfree\<close> pushes a page on the list; \<^verbatim>\<open>kalloc\<close> pops the most recent one.\<close>

lemma kfree_push:
  assumes "kmem_inv s rs" and "page_ok (kend s) pa" and "pa \<notin> set rs"
  obtains s' where "kfree pa s = Ok () s'" "kmem_inv s' (pa # rs)" "mem_only s s'" "kend s' = kend s"
    "\<forall>a. \<not> in_page a pa \<longrightarrow> mem s' a = mem s a"
proof
  let ?m = "write64 (memset (mem s) pa 1 4096) pa (freelist s)"
  let ?s = "s\<lparr>mem := ?m, freelist := pa\<rparr>"
  show "kfree pa s = Ok () ?s"
    using assms by (intro kfree_ok) (simp_all add: kmem_inv_def)
  have "flist ?m (freelist s) rs = flist (mem s) (freelist s) rs"
    using assms kmem_inv_pages [OF assms(1)]
    by (intro flist_frame [where pa = pa]) (auto simp: kfree_mem_out page_ok_def)
  then show "kmem_inv ?s (pa # rs)"
    using assms by (simp add: kmem_inv_def)
  show "\<forall>a. \<not> in_page a pa \<longrightarrow> mem ?s a = mem s a"
    by (simp add: kfree_mem_out)
qed simp_all

lemma kalloc_pop:
  assumes "kmem_inv s (r # rs)"
  obtains s' where "kalloc s = Ok r s'" "kmem_inv s' rs" "mem_only s s'" "kend s' = kend s"
    "\<forall>a. \<not> in_page a r \<longrightarrow> mem s' a = mem s a"
    "\<forall>a. in_page a r \<longrightarrow> mem s' a = 5"
proof
  let ?m = "memset (mem s) (freelist s) 5 4096"
  let ?s = "s\<lparr>mem := ?m, freelist := read64 (mem s) (freelist s)\<rparr>"
  have r: "freelist s = r" using assms by (simp add: kmem_inv_def)
  show "kalloc s = Ok r ?s"
    using kalloc_some [of s] assms kmem_inv_pages(3) [OF assms] by (simp add: kmem_inv_def r)
  have "flist ?m (read64 (mem s) r) rs = flist (mem s) (read64 (mem s) r) rs"
    using assms kmem_inv_pages [OF assms]
    by (intro flist_frame [where pa = r]) (auto simp: memset_page r kmem_inv_def)
  then show "kmem_inv ?s rs"
    using assms by (simp add: kmem_inv_def r)
  show "\<forall>a. \<not> in_page a r \<longrightarrow> mem ?s a = mem s a"
    by (simp add: memset_page r)
  show "\<forall>a. in_page a r \<longrightarrow> mem ?s a = 5"
    by (simp add: memset_page r)
qed simp_all

section \<open>Filling the list at boot\<close>

text \<open>The pages of a range of memory.\<close>

definition pages :: "u64 \<Rightarrow> u64 \<Rightarrow> u64 set" where
  "pages a b = {q. pg_aligned q \<and> a \<le> q \<and> q < b}"

lemma pg_aligned_add: "pg_aligned p \<Longrightarrow> unat (p + 4096) = unat p + 4096 \<Longrightarrow> pg_aligned (p + 4096)"
  by (simp add: pg_aligned_def)

lemma pg_aligned_le_next:
  assumes "pg_aligned p" and "pg_aligned q" and "p < q"
  shows "unat p + 4096 \<le> unat q"
proof -
  obtain i j where "unat p = 4096 * i" "unat q = 4096 * j"
    using assms(1, 2) unfolding pg_aligned_def by (elim dvdE)
  moreover from this have "i < j" using assms(3) by (simp add: word_less_nat_alt)
  ultimately show ?thesis by linarith
qed

lemma pages_split:
  assumes "pg_aligned p" and "p < b" and "unat (p + 4096) = unat p + 4096"
  shows "pages p b = insert p (pages (p + 4096) b)"
proof (rule set_eqI)
  fix q
  have "pg_aligned q \<and> p \<le> q \<longleftrightarrow> pg_aligned q \<and> (q = p \<or> unat p + 4096 \<le> unat q)"
    using pg_aligned_le_next [OF assms(1), of q]
    by (auto simp: word_le_nat_alt word_less_nat_alt word_eq_unat order_le_less)
  then show "q \<in> pages p b \<longleftrightarrow> q \<in> insert p (pages (p + 4096) b)"
    using assms by (auto simp: pages_def word_le_nat_alt)
qed

lemma freerange_loop_correct:
  fixes s :: "'z kmem_st_scheme"
  assumes "kmem_inv s rs" and "pg_aligned p" and "pg_aligned b" and "kend s \<le> p" and "b \<le> PHYSTOP"
    and "\<forall>r \<in> set rs. r < p"
  shows "\<exists>s' rs'. freerange_loop p b s = Ok () s' \<and> kmem_inv s' rs' \<and>
    set rs' = set rs \<union> pages p b \<and> kend s' = kend s"
  using assms
proof (induction p b arbitrary: s rs rule: freerange_loop.induct [where 'a = 'z])
  case (1 p b)
  show ?case
  proof (cases "p < b")
    case True
    then have bound: "unat p + 4096 \<le> unat b"
      using "1.prems" by (intro pg_aligned_le_next)
    then have next_p: "unat (p + 4096) = unat p + 4096"
      using unat_add_nowrap [of p 4096] unat_lt_u64 [of b] by simp
    have "page_ok (kend s) p" "p \<notin> set rs"
      using "1.prems" True by (auto simp: page_ok_def)
    then obtain s1 where s1: "kfree p s = Ok () s1" "kmem_inv s1 (p # rs)" "kend s1 = kend s"
      using kfree_push "1.prems"(1) by blast
    have "\<exists>s' rs'. freerange_loop (p + 4096) b s1 = Ok () s' \<and> kmem_inv s' rs' \<and>
        set rs' = set (p # rs) \<union> pages (p + 4096) b \<and> kend s' = kend s1"
    proof (rule "1.IH" [OF bound s1(1)])
      show "pg_aligned (p + 4096)" using "1.prems" next_p by (simp add: pg_aligned_add)
      show "kend s1 \<le> p + 4096" using "1.prems" s1 next_p by (simp add: word_le_nat_alt)
      show "\<forall>r \<in> set (p # rs). r < p + 4096"
        using "1.prems" next_p by (fastforce simp: word_less_nat_alt)
    qed (use "1.prems" s1 in simp_all)
    then show ?thesis
      using s1 bound pages_split [OF "1.prems"(2) True next_p]
      by (subst freerange_loop.simps) (auto simp: mon_simps)
  next
    case False
    then have "\<not> unat p + 4096 \<le> unat b" "pages p b = {}"
      by (auto simp: word_less_nat_alt word_le_nat_alt pages_def)
    then show ?thesis
      using "1.prems" by (subst freerange_loop.simps) auto
  qed
qed

section \<open>The interface of the allocator\<close>

locale page_allocator =
  fixes alloc :: "('s, u64) kmon" and free :: "u64 \<Rightarrow> ('s, unit) kmon"
    and free_set :: "'s \<Rightarrow> u64 set \<Rightarrow> bool" and valid :: "'s \<Rightarrow> u64 \<Rightarrow> bool"
    and content :: "'s \<Rightarrow> memory"
  assumes alloc_none: "free_set s {} \<Longrightarrow> alloc s = Ok 0 s"
    and alloc_page: "free_set s F \<Longrightarrow> F \<noteq> {} \<Longrightarrow>
      \<exists>r s'. alloc s = Ok r s' \<and> r \<in> F \<and> free_set s' (F - {r}) \<and> valid s' = valid s \<and>
        (\<forall>a. \<not> in_page a r \<longrightarrow> content s' a = content s a)"
    and free_page: "free_set s F \<Longrightarrow> valid s pa \<Longrightarrow> pa \<notin> F \<Longrightarrow>
      \<exists>s'. free pa s = Ok () s' \<and> free_set s' (insert pa F) \<and> valid s' = valid s \<and>
        (\<forall>a. \<not> in_page a pa \<longrightarrow> content s' a = content s a)"
    and free_invalid: "\<not> valid s pa \<Longrightarrow> \<exists>msg. free pa s = Panic msg"
    and free_set_valid: "free_set s F \<Longrightarrow> r \<in> F \<Longrightarrow> valid s r"
    and valid_aligned: "free_set s F \<Longrightarrow> valid s r \<Longrightarrow> pg_aligned r \<and> r \<noteq> 0"
    and free_set_finite: "free_set s F \<Longrightarrow> finite F"
begin

text \<open>Pages handed out together are distinct and were free, and nothing else changes.\<close>

lemma alloc_many:
  assumes "free_set s F" and "n \<le> card F"
  shows "\<exists>rs s'. replicateM n alloc s = Ok rs s' \<and> length rs = n \<and> distinct rs \<and> set rs \<subseteq> F \<and>
    free_set s' (F - set rs) \<and> (\<forall>a. (\<forall>r \<in> set rs. \<not> in_page a r) \<longrightarrow> content s' a = content s a)"
  using assms
proof (induction n arbitrary: s F)
  case 0
  then show ?case by simp
next
  case (Suc n)
  then have "F \<noteq> {}" by auto
  then obtain r s1 where r: "alloc s = Ok r s1" "r \<in> F" "free_set s1 (F - {r})"
      "\<forall>a. \<not> in_page a r \<longrightarrow> content s1 a = content s a"
    using alloc_page [OF Suc.prems(1)] by blast
  have "n \<le> card (F - {r})"
    using r Suc.prems(2) free_set_finite [OF Suc.prems(1)] by simp
  then obtain rs s2 where rs: "replicateM n alloc s1 = Ok rs s2" "length rs = n" "distinct rs"
      "set rs \<subseteq> F - {r}" "free_set s2 (F - {r} - set rs)"
      "\<forall>a. (\<forall>r \<in> set rs. \<not> in_page a r) \<longrightarrow> content s2 a = content s1 a"
    using Suc.IH [OF r(3)] by blast
  have "F - {r} - set rs = F - set (r # rs)" by auto
  with r rs show ?case
    by (intro exI [of _ "r # rs"] exI [of _ s2]) (auto simp: mon_simps)
qed

text \<open>Freeing a page and allocating again never fails.\<close>

lemma free_then_alloc:
  assumes "free_set s F" and "valid s pa" and "pa \<notin> F"
  shows "\<exists>r s'. bind (free pa) (\<lambda>_. alloc) s = Ok r s' \<and> r \<in> insert pa F \<and> r \<noteq> 0"
proof -
  obtain s1 where s1: "free pa s = Ok () s1" "free_set s1 (insert pa F)"
    using free_page [OF assms] by blast
  then obtain r s2 where r: "alloc s1 = Ok r s2" "r \<in> insert pa F"
    using alloc_page [of s1 "insert pa F"] by blast
  then have "r \<noteq> 0"
    using valid_aligned [OF s1(2)] free_set_valid [OF s1(2)] by blast
  with s1 r show ?thesis by (auto simp: mon_simps)
qed

end

definition kmem_free :: "'z kmem_st_scheme \<Rightarrow> u64 set \<Rightarrow> bool" where
  "kmem_free s F = (\<exists>rs. kmem_inv s rs \<and> set rs = F)"

lemma kmem_free_alloc:
  assumes "kmem_free s F" and "F \<noteq> {}"
  shows "\<exists>r s'. kalloc s = Ok r s' \<and> r \<in> F \<and> kmem_free s' (F - {r}) \<and> mem_only s s' \<and> kend s' = kend s \<and>
    (\<forall>a. \<not> in_page a r \<longrightarrow> mem s' a = mem s a)"
proof -
  obtain r rs where rs: "kmem_inv s (r # rs)" "F = insert r (set rs)"
    using assms by (metis kmem_free_def list.exhaust list.simps(15) set_empty)
  then have "r \<notin> set rs" by (simp add: kmem_inv_def)
  with rs show ?thesis
    by (metis Diff_insert_absorb insertI1 kalloc_pop kmem_free_def)
qed

lemma kmem_free_kfree:
  assumes "kmem_free s F" and "page_ok (kend s) pa" and "pa \<notin> F"
  shows "\<exists>s'. kfree pa s = Ok () s' \<and> kmem_free s' (insert pa F) \<and> mem_only s s' \<and> kend s' = kend s \<and>
    (\<forall>a. \<not> in_page a pa \<longrightarrow> mem s' a = mem s a)"
  using assms kfree_push by (metis kmem_free_def list.simps(15))

lemma kmem_free_frame:
  assumes "kmem_free s F" and "\<And>x r. r \<in> F \<Longrightarrow> in_page x r \<Longrightarrow> m x = mem s x"
  shows "kmem_free (s\<lparr>mem := m\<rparr>) F"
proof -
  obtain rs where rs: "kmem_inv s rs" "set rs = F" using assms(1) by (auto simp: kmem_free_def)
  have "flist m (freelist s) rs = flist (mem s) (freelist s) rs"
    by (intro flist_cong read64_cong assms(2)) (use rs in \<open>auto intro: within_in_page\<close>)
  then have "kmem_inv (s\<lparr>mem := m\<rparr>) rs" using rs by (simp add: kmem_inv_def)
  then show ?thesis using rs by (auto simp: kmem_free_def)
qed

interpretation km: page_allocator kalloc kfree kmem_free "\<lambda>s. page_ok (kend s)" mem
proof
  show "kalloc s = Ok 0 s" if "kmem_free s {}" for s :: "'a kmem_st_scheme"
    using that by (auto simp: kmem_free_def kmem_inv_def intro: kalloc_none)
  show "\<exists>msg. kfree pa s = Panic msg" if "\<not> page_ok (kend s) pa" for s :: "'a kmem_st_scheme" and pa
    using kfree_panic [OF that] by blast
  show "finite F" if "kmem_free s F" for s :: "'a kmem_st_scheme" and F
    using that by (auto simp: kmem_free_def)
  show "page_ok (kend s) r" if "kmem_free s F" "r \<in> F" for s :: "'a kmem_st_scheme" and F r
    using that by (auto simp: kmem_free_def kmem_inv_def)
  show "pg_aligned r \<and> r \<noteq> 0" if "kmem_free s F" "page_ok (kend s) r" for s :: "'a kmem_st_scheme" and F r
    using that by (auto simp: kmem_free_def kmem_inv_def page_ok_def)
qed (use kmem_free_alloc kmem_free_kfree in metis)+

section \<open>Properties\<close>

lemma kinit_state:
  "kinit s = freerange (kend s) PHYSTOP
    (s\<lparr>locks := (locks s)(LKmem := \<lparr>locked = 0, lk_name = ''kmem'', lk_cpu = None\<rparr>)\<rparr>)"
  by (simp add: kinit_def initlock_def mon_simps)

lemma PGROUNDUP_aligned:
  assumes "x \<le> PHYSTOP"
  shows "pg_aligned (PGROUNDUP x)" "x \<le> PGROUNDUP x" "pages (PGROUNDUP x) PHYSTOP = pages x PHYSTOP"
proof -
  have "unat x \<le> 2281701376" using assms by (simp add: word_le_nat_alt)
  then have u: "unat (PGROUNDUP x) = (unat x + 4095) div 4096 * 4096"
    by (intro PGROUNDUP_unat) simp
  then show "pg_aligned (PGROUNDUP x)" by (simp add: pg_aligned_def)
  have le: "unat x \<le> unat (PGROUNDUP x)" using u by simp
  then show "x \<le> PGROUNDUP x" by (simp add: word_le_nat_alt)
  have "PGROUNDUP x \<le> q \<longleftrightarrow> x \<le> q" if al: "pg_aligned q" for q
  proof
    assume "x \<le> q"
    obtain k where k: "unat q = 4096 * k" using al unfolding pg_aligned_def by (elim dvdE)
    have "unat x \<le> unat q" using \<open>x \<le> q\<close> by (simp add: word_le_nat_alt)
    then have "(unat x + 4095) div 4096 \<le> (4096 * k + 4095) div 4096" unfolding k by (intro div_le_mono) simp
    then show "PGROUNDUP x \<le> q" by (simp add: word_le_nat_alt u k)
  qed (use le in \<open>simp add: word_le_nat_alt\<close>)
  then show "pages (PGROUNDUP x) PHYSTOP = pages x PHYSTOP" by (auto simp: pages_def)
qed

text \<open>
  C28.  At boot \<^verbatim>\<open>kinit\<close> builds, in the memory it manages, a well-formed free list
  that holds each page from the end of the kernel to the end of RAM exactly once.
\<close>

theorem kinit_correct:
  assumes "calm s" and "freelist s = 0" and "0 < kend s" and "kend s \<le> PHYSTOP"
  shows "\<exists>s' rs. kinit s = Ok () s' \<and> kmem_inv s' rs \<and> set rs = pages (kend s) PHYSTOP"
proof -
  let ?s = "s\<lparr>locks := (locks s)(LKmem := \<lparr>locked = 0, lk_name = ''kmem'', lk_cpu = None\<rparr>)\<rparr>"
  have "calm ?s" "unlocked LKmem ?s"
    using assms(1) by (simp_all add: unlocked_def)
  then have "kmem_inv ?s []" using assms by (simp add: kmem_inv_def)
  then have "\<exists>s' rs. freerange_loop (PGROUNDUP (kend s)) PHYSTOP ?s = Ok () s' \<and> kmem_inv s' rs \<and>
      set rs = set [] \<union> pages (PGROUNDUP (kend s)) PHYSTOP \<and> kend s' = kend ?s"
    using PGROUNDUP_aligned [OF assms(4)]
    by (intro freerange_loop_correct) (auto simp: pg_aligned_def)
  then show ?thesis
    using PGROUNDUP_aligned [OF assms(4)] by (auto simp: kinit_state freerange_def)
qed

definition zero_kmem :: "u64 \<Rightarrow> kmem_st" where
  "zero_kmem e = \<lparr>tp = tp zero_mach, harts = harts zero_mach, cpus = cpus zero_mach,
     locks = locks zero_mach, mem = mem zero_mach, kend = e, freelist = 0\<rparr>"

lemma zero_kmem_idle [simp]: "idle l (zero_kmem e)"
  by (simp add: zero_kmem_def zero_mach_def calm_def unlocked_def sie_def zero_csrs_def zero_cpu_def zero_lock_def)

theorem kinit_correct_witness:
  "\<exists>s' rs. kinit (zero_kmem 0x80022000) = Ok () s' \<and> kmem_inv s' rs \<and> set rs = pages 0x80022000 PHYSTOP"
  using kinit_correct [of "zero_kmem 0x80022000"] zero_kmem_idle [of "0x80022000" LKmem]
  by (simp add: zero_kmem_def)

text \<open>
  C16.  As long as pages are left, \<^verbatim>\<open>kalloc\<close> never fails, successive calls return
  distinct pages that were free, and no byte outside the returned pages changes.
\<close>

theorem kalloc_distinct_pages:
  assumes "kmem_free s F" and "n \<le> card F"
  shows "\<exists>rs s'. replicateM n kalloc s = Ok rs s' \<and> length rs = n \<and> distinct rs \<and> set rs \<subseteq> F \<and>
    kmem_free s' (F - set rs) \<and> (\<forall>a. (\<forall>r \<in> set rs. \<not> in_page a r) \<longrightarrow> mem s' a = mem s a)"
  using assms by (rule km.alloc_many)

text \<open>A concrete allocator with the two pages of addresses \<open>0x87ffe000\<close> and \<open>0x87fff000\<close>.\<close>

definition two_pages :: kmem_st where
  "two_pages = (zero_kmem 0x80022000)\<lparr>
     mem := write64 (write64 (mem zero_mach) 0x87fff000 0) 0x87ffe000 0x87fff000,
     freelist := 0x87ffe000\<rparr>"

lemma apart_pages: "apart 0x87fff000 8 0x87ffe000 8"
  unfolding apart_def within_numeral by (auto simp: within_Suc within_numeral)

lemma two_pages_inv: "kmem_inv two_pages [0x87ffe000, 0x87fff000]"
proof -
  have "idle LKmem two_pages"
    using zero_kmem_idle [of "0x80022000" LKmem] by (simp add: two_pages_def)
  then show ?thesis
    using apart_pages
    by (simp add: kmem_inv_def two_pages_def zero_kmem_def read64_write64_apart page_ok_def pg_aligned_def)
qed

theorem kalloc_distinct_pages_witness:
  "\<exists>rs s'. replicateM 2 kalloc two_pages = Ok rs s' \<and> length rs = 2 \<and> distinct rs \<and>
    set rs \<subseteq> {0x87ffe000, 0x87fff000}"
proof -
  have "kmem_free two_pages {0x87ffe000, 0x87fff000}"
    using two_pages_inv by (auto simp: kmem_free_def)
  moreover have "2 \<le> card {0x87ffe000, 0x87fff000 :: u64}" by simp
  ultimately show ?thesis using kalloc_distinct_pages by blast
qed



end
