(* ===== verification/Vm.thy ===== *)
theory Vm
  imports Kalloc
begin

text \<open>
  The page tables of \<^verbatim>\<open>kernel/vm.c\<close> and \<^verbatim>\<open>proc_mapstacks\<close> of \<^verbatim>\<open>kernel/proc.c\<close>.  Page
  tables are Sv39 trees stored in physical memory: an entry is the 64-bit word at
  \<open>slot t i\<close>, index \<open>i\<close> of the table page \<open>t\<close>.  \<open>etext\<close> and \<open>trampoline\<close> are the
  linker symbols the kernel mapping uses.

  Loops that call \<^verbatim>\<open>walk\<close> on increasing addresses stop at the latest when \<^verbatim>\<open>walk\<close>
  panics at \<^verbatim>\<open>MAXVA\<close>; that is their termination argument here as well.
\<close>

section \<open>Definitions\<close>

record vm_st = kmem_st +
  kernel_pagetable :: u64
  etext :: u64
  trampoline :: u64

definition slot :: "u64 \<Rightarrow> u64 \<Rightarrow> u64" where
  "slot t i = t + 8 * i"

definition get_pte :: "u64 \<Rightarrow> ('z kmem_st_scheme, u64) kmon" where
  "get_pte pte = gets (\<lambda>s. read64 (mem s) pte)"

definition set_pte :: "u64 \<Rightarrow> u64 \<Rightarrow> ('z kmem_st_scheme, unit) kmon" where
  "set_pte pte v = modify (\<lambda>s. s\<lparr>mem := write64 (mem s) pte v\<rparr>)"

definition zero_page :: "u64 \<Rightarrow> ('z kmem_st_scheme, unit) kmon" where
  "zero_page p = modify (\<lambda>s. s\<lparr>mem := memset (mem s) p 0 4096\<rparr>)"

text \<open>The loop of \<^verbatim>\<open>walk\<close> over the levels above 0, and its last line.\<close>

primrec walk_loop :: "nat \<Rightarrow> u64 \<Rightarrow> u64 \<Rightarrow> bool \<Rightarrow> ('z kmem_st_scheme, u64) kmon" where
  "walk_loop 0 pagetable va alloc = ret (slot pagetable (PX 0 va))"
| "walk_loop (Suc l) pagetable va alloc =
     bind (get_pte (slot pagetable (PX (Suc l) va))) (\<lambda>e.
     if e AND PTE_V \<noteq> 0 then walk_loop l (PTE2PA e) va alloc
     else if \<not> alloc then ret 0
     else bind kalloc (\<lambda>p.
       if p = 0 then ret 0
       else bind (zero_page p) (\<lambda>_.
         bind (set_pte (slot pagetable (PX (Suc l) va)) (PA2PTE p OR PTE_V)) (\<lambda>_.
         walk_loop l p va alloc))))"

definition walk :: "u64 \<Rightarrow> u64 \<Rightarrow> bool \<Rightarrow> ('z kmem_st_scheme, u64) kmon" where
  "walk pagetable va alloc =
     (if va \<ge> MAXVA then panic ''walk'' else walk_loop 2 pagetable va alloc)"

definition walkaddr :: "u64 \<Rightarrow> u64 \<Rightarrow> ('z kmem_st_scheme, u64) kmon" where
  "walkaddr pagetable va =
     (if va \<ge> MAXVA then ret 0
      else bind (walk pagetable va False) (\<lambda>pte.
        if pte = 0 then ret 0
        else bind (get_pte pte) (\<lambda>e.
          if e AND PTE_V = 0 then ret 0
          else if e AND PTE_U = 0 then ret 0
          else ret (PTE2PA e))))"

lemma walk_bound: "walk pagetable va alloc s = Ok r t \<Longrightarrow> va < MAXVA"
  by (auto simp: walk_def split: if_splits)

lemma next_page_decreases:
  "(a :: u64) < MAXVA \<Longrightarrow> 274877915136 - unat (a + 4096) < 274877915136 - unat a"
  using unat_add_nowrap [of a 4096] by (simp add: word_less_nat_alt)

text \<open>The \<^verbatim>\<open>for(;;)\<close> of \<^verbatim>\<open>mappages\<close>.\<close>

function mappages_loop ::
  "u64 \<Rightarrow> u64 \<Rightarrow> u64 \<Rightarrow> u64 \<Rightarrow> u64 \<Rightarrow> ('z kmem_st_scheme, int) kmon" where
  "mappages_loop pagetable a lst pa perm =
     bind (walk pagetable a True) (\<lambda>pte.
     if pte = 0 then ret (- 1)
     else bind (get_pte pte) (\<lambda>e.
       if e AND PTE_V \<noteq> 0 then panic ''mappages: remap''
       else bind (set_pte pte (PA2PTE pa OR perm OR PTE_V)) (\<lambda>_.
         if a = lst then ret 0
         else mappages_loop pagetable (a + PGSIZE) lst (pa + PGSIZE) perm)))"
  by pat_completeness auto
termination
  by (relation "measure (\<lambda>(pt, a, _). 274877915136 - unat a)")
    (auto intro!: next_page_decreases dest: walk_bound)

declare mappages_loop.simps [simp del]

definition mappages :: "u64 \<Rightarrow> u64 \<Rightarrow> u64 \<Rightarrow> u64 \<Rightarrow> u64 \<Rightarrow> ('z kmem_st_scheme, int) kmon" where
  "mappages pagetable va sz pa perm =
     (if sz = 0 then panic ''mappages: size''
      else mappages_loop pagetable (PGROUNDDOWN va) (PGROUNDDOWN (va + sz - 1)) pa perm)"

definition kvmmap :: "u64 \<Rightarrow> u64 \<Rightarrow> u64 \<Rightarrow> u64 \<Rightarrow> u64 \<Rightarrow> ('z kmem_st_scheme, unit) kmon" where
  "kvmmap kpgtbl va pa sz perm =
     bind (mappages kpgtbl va sz pa perm) (\<lambda>r. whenM (r \<noteq> 0) (panic ''kvmmap''))"

definition proc_mapstacks :: "u64 \<Rightarrow> ('z kmem_st_scheme, unit) kmon" where
  "proc_mapstacks kpgtbl =
     forM [0..<NPROC] (\<lambda>p. bind kalloc (\<lambda>pa.
       if pa = 0 then panic ''kalloc''
       else kvmmap kpgtbl (KSTACK p) pa PGSIZE (PTE_R OR PTE_W)))"

definition kvmmake :: "('z vm_st_scheme, u64) kmon" where
  "kvmmake =
     bind kalloc (\<lambda>kpgtbl. bind (zero_page kpgtbl) (\<lambda>_.
     bind (kvmmap kpgtbl UART0 UART0 PGSIZE (PTE_R OR PTE_W)) (\<lambda>_.
     bind (kvmmap kpgtbl VIRTIO0 VIRTIO0 PGSIZE (PTE_R OR PTE_W)) (\<lambda>_.
     bind (kvmmap kpgtbl PLIC PLIC 0x400000 (PTE_R OR PTE_W)) (\<lambda>_.
     bind (gets etext) (\<lambda>et.
     bind (kvmmap kpgtbl KERNBASE KERNBASE (et - KERNBASE) (PTE_R OR PTE_X)) (\<lambda>_.
     bind (kvmmap kpgtbl et et (PHYSTOP - et) (PTE_R OR PTE_W)) (\<lambda>_.
     bind (gets trampoline) (\<lambda>tr.
     bind (kvmmap kpgtbl TRAMPOLINE tr PGSIZE (PTE_R OR PTE_X)) (\<lambda>_.
     bind (proc_mapstacks kpgtbl) (\<lambda>_. ret kpgtbl)))))))))))"

definition kvminit :: "('z vm_st_scheme, unit) kmon" where
  "kvminit = bind kvmmake (\<lambda>p. modify (\<lambda>s. s\<lparr>kernel_pagetable := p\<rparr>))"

definition MAKE_SATP :: "u64 \<Rightarrow> u64" where
  "MAKE_SATP pagetable = push_bit 60 8 OR drop_bit 12 pagetable"

definition kvminithart :: "('z vm_st_scheme, unit) kmon" where
  "kvminithart = bind (gets kernel_pagetable) (\<lambda>p. w_satp (MAKE_SATP p))"

text \<open>The loop of \<^verbatim>\<open>uvmunmap\<close>; \<open>lim\<close> is \<^verbatim>\<open>va + npages*PGSIZE\<close>.\<close>

function uvmunmap_loop :: "u64 \<Rightarrow> u64 \<Rightarrow> u64 \<Rightarrow> bool \<Rightarrow> ('z kmem_st_scheme, unit) kmon" where
  "uvmunmap_loop pagetable a lim do_free =
     (if a < lim then
        bind (walk pagetable a False) (\<lambda>pte.
        if pte = 0 then panic ''uvmunmap: walk''
        else bind (get_pte pte) (\<lambda>e.
          if e AND PTE_V = 0 then panic ''uvmunmap: not mapped''
          else if PTE_FLAGS e = PTE_V then panic ''uvmunmap: not a leaf''
          else bind (whenM do_free (kfree (PTE2PA e))) (\<lambda>_.
            bind (set_pte pte 0) (\<lambda>_.
            uvmunmap_loop pagetable (a + PGSIZE) lim do_free))))
      else ret ())"
  by pat_completeness auto
termination
  by (relation "measure (\<lambda>(pt, a, _). 274877915136 - unat a)")
    (auto intro!: next_page_decreases dest: walk_bound)

declare uvmunmap_loop.simps [simp del]

definition uvmunmap :: "u64 \<Rightarrow> u64 \<Rightarrow> u64 \<Rightarrow> bool \<Rightarrow> ('z kmem_st_scheme, unit) kmon" where
  "uvmunmap pagetable va npages do_free =
     (if va mod PGSIZE \<noteq> 0 then panic ''uvmunmap: not aligned''
      else uvmunmap_loop pagetable va (va + npages * PGSIZE) do_free)"

definition uvmcreate :: "('z kmem_st_scheme, u64) kmon" where
  "uvmcreate = bind kalloc (\<lambda>pagetable.
     if pagetable = 0 then ret 0
     else bind (zero_page pagetable) (\<lambda>_. ret pagetable))"

text \<open>
  \<^verbatim>\<open>uvminit\<close>: the source of the copy is the \<^verbatim>\<open>initcode\<close> array in the kernel's data
  segment, given by its bytes.
\<close>

definition uvminit :: "u64 \<Rightarrow> u8 list \<Rightarrow> ('z kmem_st_scheme, unit) kmon" where
  "uvminit pagetable src =
     (if length src \<ge> 4096 then panic ''inituvm: more than a page''
      else bind kalloc (\<lambda>p. bind (zero_page p) (\<lambda>_.
        bind (mappages pagetable 0 PGSIZE p (PTE_W OR PTE_R OR PTE_X OR PTE_U)) (\<lambda>_.
        modify (\<lambda>s. s\<lparr>mem := write_bytes (mem s) p src\<rparr>)))))"

text \<open>\<^verbatim>\<open>npages\<close> is an \<^verbatim>\<open>int\<close> in \<^verbatim>\<open>uvmdealloc\<close>: 32 bits, sign-extended for \<^verbatim>\<open>uvmunmap\<close>.\<close>

definition uvmdealloc :: "u64 \<Rightarrow> u64 \<Rightarrow> u64 \<Rightarrow> ('z kmem_st_scheme, u64) kmon" where
  "uvmdealloc pagetable oldsz newsz =
     (if newsz \<ge> oldsz then ret oldsz
      else bind (whenM (PGROUNDUP newsz < PGROUNDUP oldsz)
        (uvmunmap pagetable (PGROUNDUP newsz)
           (scast (ucast ((PGROUNDUP oldsz - PGROUNDUP newsz) div PGSIZE) :: u32)) True))
        (\<lambda>_. ret newsz))"

lemma mappages_bound:
  assumes "mappages pagetable a sz pa perm s = Ok r t"
  shows "PGROUNDDOWN a < MAXVA"
proof (rule ccontr)
  assume "\<not> PGROUNDDOWN a < MAXVA"
  then show False
    using assms
    by (subst (asm) mappages_def, subst (asm) mappages_loop.simps)
      (auto simp: walk_def bind_def split: if_splits)
qed

text \<open>The loop of \<^verbatim>\<open>uvmalloc\<close>; \<open>oldsz\<close> is already rounded up.\<close>

function uvmalloc_loop :: "u64 \<Rightarrow> u64 \<Rightarrow> u64 \<Rightarrow> u64 \<Rightarrow> ('z kmem_st_scheme, u64) kmon" where
  "uvmalloc_loop pagetable a oldsz newsz =
     (if a < newsz then
        bind kalloc (\<lambda>p.
        if p = 0 then bind (uvmdealloc pagetable a oldsz) (\<lambda>_. ret 0)
        else bind (zero_page p) (\<lambda>_.
          bind (mappages pagetable a PGSIZE p (PTE_W OR PTE_X OR PTE_R OR PTE_U)) (\<lambda>r.
          if r \<noteq> 0 then bind (kfree p) (\<lambda>_. bind (uvmdealloc pagetable a oldsz) (\<lambda>_. ret 0))
          else uvmalloc_loop pagetable (a + PGSIZE) oldsz newsz)))
      else ret newsz)"
  by pat_completeness auto
termination
proof (relation "measure (\<lambda>(pt, a, _). 274877919232 - unat a)", goal_cases)
  case (2 pagetable a oldsz newsz p s t x sa ta r sb tb)
  have "PGROUNDDOWN a < MAXVA" using 2 by (auto dest: mappages_bound)
  then have "unat a div 4096 < 67108864"
    by (simp add: word_less_nat_alt PGROUNDDOWN_unat)
  then have "unat a < 274877906944" by (simp add: div_less_iff_less_mult)
  then show ?case
    using next_page_decreases [of a] by (simp add: word_less_nat_alt)
qed simp

declare uvmalloc_loop.simps [simp del]

definition uvmalloc :: "u64 \<Rightarrow> u64 \<Rightarrow> u64 \<Rightarrow> ('z kmem_st_scheme, u64) kmon" where
  "uvmalloc pagetable oldsz newsz =
     (if newsz < oldsz then ret oldsz
      else uvmalloc_loop pagetable (PGROUNDUP oldsz) (PGROUNDUP oldsz) newsz)"

text \<open>
  \<^verbatim>\<open>freewalk\<close> recurses down the tree.  The argument bounds the depth of the recursion;
  the kernel stack bounds it in the program.  The tables of the kernel have three
  levels, and \<open>freewalk_ok\<close> below shows that depth 3 is enough.
\<close>

primrec freewalk_depth :: "nat \<Rightarrow> u64 \<Rightarrow> ('z kmem_st_scheme, unit) kmon" where
  "freewalk_depth 0 pagetable = panic ''kernel stack overflow''"
| "freewalk_depth (Suc d) pagetable =
     bind (forM [0..<512] (\<lambda>i.
       bind (get_pte (slot pagetable (of_nat i))) (\<lambda>pte.
       if pte AND PTE_V \<noteq> 0 \<and> pte AND (PTE_R OR PTE_W OR PTE_X) = 0
       then bind (freewalk_depth d (PTE2PA pte)) (\<lambda>_. set_pte (slot pagetable (of_nat i)) 0)
       else whenM (pte AND PTE_V \<noteq> 0) (panic ''freewalk: leaf''))))
     (\<lambda>_. kfree pagetable)"

definition freewalk :: "u64 \<Rightarrow> ('z kmem_st_scheme, unit) kmon" where
  "freewalk = freewalk_depth 3"

definition uvmfree :: "u64 \<Rightarrow> u64 \<Rightarrow> ('z kmem_st_scheme, unit) kmon" where
  "uvmfree pagetable sz =
     bind (whenM (sz > 0) (uvmunmap pagetable 0 (PGROUNDUP sz div PGSIZE) True)) (\<lambda>_.
     freewalk pagetable)"

text \<open>The loop of \<^verbatim>\<open>uvmcopy\<close>; the label \<^verbatim>\<open>err\<close> is the definition before it.\<close>

definition uvmcopy_err :: "u64 \<Rightarrow> u64 \<Rightarrow> ('z kmem_st_scheme, int) kmon" where
  "uvmcopy_err new i = bind (uvmunmap new 0 (i div PGSIZE) True) (\<lambda>_. ret (- 1))"

function uvmcopy_loop :: "u64 \<Rightarrow> u64 \<Rightarrow> u64 \<Rightarrow> u64 \<Rightarrow> ('z kmem_st_scheme, int) kmon" where
  "uvmcopy_loop old new i sz =
     (if i < sz then
        bind (walk old i False) (\<lambda>pte.
        if pte = 0 then panic ''uvmcopy: pte should exist''
        else bind (get_pte pte) (\<lambda>e.
          if e AND PTE_V = 0 then panic ''uvmcopy: page not present''
          else bind kalloc (\<lambda>p.
            if p = 0 then uvmcopy_err new i
            else bind (modify (\<lambda>s. s\<lparr>mem := memmove (mem s) p (PTE2PA e) 4096\<rparr>)) (\<lambda>_.
              bind (mappages new i PGSIZE p (PTE_FLAGS e)) (\<lambda>r.
              if r \<noteq> 0 then bind (kfree p) (\<lambda>_. uvmcopy_err new i)
              else uvmcopy_loop old new (i + PGSIZE) sz)))))
      else ret 0)"
  by pat_completeness auto
termination
  by (relation "measure (\<lambda>(old, new, i, sz). 274877915136 - unat i)")
    (auto intro!: next_page_decreases dest: walk_bound)

declare uvmcopy_loop.simps [simp del]

definition uvmcopy :: "u64 \<Rightarrow> u64 \<Rightarrow> u64 \<Rightarrow> ('z kmem_st_scheme, int) kmon" where
  "uvmcopy old new sz = uvmcopy_loop old new 0 sz"

definition uvmclear :: "u64 \<Rightarrow> u64 \<Rightarrow> ('z kmem_st_scheme, unit) kmon" where
  "uvmclear pagetable va =
     bind (walk pagetable va False) (\<lambda>pte.
     if pte = 0 then panic ''uvmclear''
     else bind (get_pte pte) (\<lambda>e. set_pte pte (e AND NOT PTE_U)))"

subsection \<open>Copying between kernel and user space\<close>

text \<open>The number of bytes one round of a copy loop moves: up to the end of the page.\<close>

definition chunk :: "u64 \<Rightarrow> u64 \<Rightarrow> u64" where
  "chunk va len = (let n = PGSIZE - (va - PGROUNDDOWN va) in if n > len then len else n)"

lemma page_offset: "unat (va - PGROUNDDOWN va) = unat va mod 4096"
proof -
  have "PGROUNDDOWN va \<le> va" by (simp add: word_le_nat_alt PGROUNDDOWN_unat)
  then show ?thesis
    by (simp add: unat_sub PGROUNDDOWN_unat minus_div_mult_eq_mod [symmetric])
qed

lemma unat_chunk: "unat (chunk va len) = min (4096 - unat va mod 4096) (unat len)"
proof -
  have "va - PGROUNDDOWN va \<le> 4096"
    by (simp add: word_le_nat_alt page_offset less_imp_le)
  then have "unat (4096 - (va - PGROUNDDOWN va)) = 4096 - unat va mod 4096"
    by (simp add: unat_sub page_offset)
  then show ?thesis
    by (simp add: chunk_def Let_def word_less_nat_alt min_def)
qed

lemma chunk_pos: "0 < len \<Longrightarrow> 0 < unat (chunk va len)"
  by (simp add: unat_chunk word_less_nat_alt)

lemma chunk_le: "chunk va len \<le> len"
  by (simp add: word_le_nat_alt unat_chunk)

lemma chunk_decreases: "0 < len \<Longrightarrow> unat (len - chunk va len) < unat len"
  using chunk_pos [of len va] by (simp add: unat_sub chunk_le word_less_nat_alt)

function copyout :: "u64 \<Rightarrow> u64 \<Rightarrow> u64 \<Rightarrow> u64 \<Rightarrow> ('z kmem_st_scheme, int) kmon" where
  "copyout pagetable dstva src len =
     (if len > 0 then
        bind (walkaddr pagetable (PGROUNDDOWN dstva)) (\<lambda>pa0.
        if pa0 = 0 then ret (- 1)
        else bind (modify (\<lambda>s. s\<lparr>mem := memmove (mem s) (pa0 + (dstva - PGROUNDDOWN dstva)) src
               (ucast (chunk dstva len))\<rparr>)) (\<lambda>_.
          copyout pagetable (PGROUNDDOWN dstva + PGSIZE) (src + chunk dstva len)
            (len - chunk dstva len)))
      else ret 0)"
  by pat_completeness auto
termination
  by (relation "measure (\<lambda>(pt, dstva, src, len). unat len)") (auto intro: chunk_decreases)

declare copyout.simps [simp del]

function copyin :: "u64 \<Rightarrow> u64 \<Rightarrow> u64 \<Rightarrow> u64 \<Rightarrow> ('z kmem_st_scheme, int) kmon" where
  "copyin pagetable dst srcva len =
     (if len > 0 then
        bind (walkaddr pagetable (PGROUNDDOWN srcva)) (\<lambda>pa0.
        if pa0 = 0 then ret (- 1)
        else bind (modify (\<lambda>s. s\<lparr>mem := memmove (mem s) dst (pa0 + (srcva - PGROUNDDOWN srcva))
               (ucast (chunk srcva len))\<rparr>)) (\<lambda>_.
          copyin pagetable (dst + chunk srcva len) (PGROUNDDOWN srcva + PGSIZE)
            (len - chunk srcva len)))
      else ret 0)"
  by pat_completeness auto
termination
  by (relation "measure (\<lambda>(pt, dst, srcva, len). unat len)") (auto intro: chunk_decreases)

declare copyin.simps [simp del]

text \<open>
  The inner loop of \<^verbatim>\<open>copyinstr\<close> returns the memory, \<^verbatim>\<open>dst\<close>, \<^verbatim>\<open>max\<close> and \<^verbatim>\<open>got_null\<close>.
\<close>

primrec copyinstr_inner :: "nat \<Rightarrow> memory \<Rightarrow> u64 \<Rightarrow> u64 \<Rightarrow> u64 \<Rightarrow> memory \<times> u64 \<times> u64 \<times> bool" where
  "copyinstr_inner 0 m p dst mx = (m, dst, mx, False)"
| "copyinstr_inner (Suc n) m p dst mx =
     (if m p = 0 then (m(dst := 0), dst, mx, True)
      else copyinstr_inner n (m(dst := m p)) (p + 1) (dst + 1) (mx - 1))"

lemma copyinstr_inner_max:
  "copyinstr_inner n m p dst mx = (m', dst', mx', False) \<Longrightarrow> mx' = mx - of_nat n"
  by (induction n arbitrary: m p dst mx) (auto split: if_splits simp: algebra_simps)

function copyinstr :: "u64 \<Rightarrow> u64 \<Rightarrow> u64 \<Rightarrow> u64 \<Rightarrow> ('z kmem_st_scheme, int) kmon" where
  "copyinstr pagetable dst srcva mx =
     (if mx > 0 then
        bind (walkaddr pagetable (PGROUNDDOWN srcva)) (\<lambda>pa0.
        if pa0 = 0 then ret (- 1)
        else bind (gets (\<lambda>s. copyinstr_inner (unat (chunk srcva mx)) (mem s)
              (pa0 + (srcva - PGROUNDDOWN srcva)) dst mx)) (\<lambda>(m, dst', mx', got_null).
          bind (modify (\<lambda>s. s\<lparr>mem := m\<rparr>)) (\<lambda>_.
          if got_null then ret 0
          else copyinstr pagetable dst' (PGROUNDDOWN srcva + PGSIZE) mx')))
      else ret (- 1))"
  by pat_completeness auto
termination
proof (relation "measure (\<lambda>(pt, dst, srcva, mx). unat mx)", goal_cases)
  case (2 pagetable dst srcva mx)
  then show ?case
    by (auto dest!: copyinstr_inner_max intro: chunk_decreases)
qed simp

declare copyinstr.simps [simp del]

text \<open>
  Many callers copy to or from an object of the kernel's data segment or stack, which
  the model keeps as a typed value and not in \<open>mem\<close>.  For these the same loops
  take, or return, the bytes of the object: \<open>copyout_obj\<close> copies out a list of bytes,
  \<open>copyin_obj\<close> and \<open>copyinstr_obj\<close> return the result code with the bytes stored so
  far.
\<close>

lemma rest_decreases: "bs \<noteq> [] \<Longrightarrow> length bs + n mod 4096 - 4096 < length bs"
proof -
  assume "bs \<noteq> []"
  moreover have "n mod 4096 < 4096" by simp
  ultimately show ?thesis by (simp add: less_diff_conv2 flip: length_greater_0_conv)
qed

function copyout_obj :: "u64 \<Rightarrow> u64 \<Rightarrow> u8 list \<Rightarrow> ('z kmem_st_scheme, int) kmon" where
  "copyout_obj pagetable dstva bs =
     (if bs \<noteq> [] then
        bind (walkaddr pagetable (PGROUNDDOWN dstva)) (\<lambda>pa0.
        if pa0 = 0 then ret (- 1)
        else bind (modify (\<lambda>s. s\<lparr>mem := write_bytes (mem s) (pa0 + (dstva - PGROUNDDOWN dstva))
               (take (4096 - unat dstva mod 4096) bs)\<rparr>)) (\<lambda>_.
          copyout_obj pagetable (PGROUNDDOWN dstva + PGSIZE) (drop (4096 - unat dstva mod 4096) bs)))
      else ret 0)"
  by pat_completeness auto
termination
  by (relation "measure (\<lambda>(pt, dstva, bs). length bs)") (auto intro: rest_decreases)

declare copyout_obj.simps [simp del]

function copyin_obj :: "u64 \<Rightarrow> u64 \<Rightarrow> u64 \<Rightarrow> ('z kmem_st_scheme, int \<times> u8 list) kmon" where
  "copyin_obj pagetable srcva len =
     (if len > 0 then
        bind (walkaddr pagetable (PGROUNDDOWN srcva)) (\<lambda>pa0.
        if pa0 = 0 then ret (- 1, [])
        else bind (gets (\<lambda>s. bytes (mem s) (pa0 + (srcva - PGROUNDDOWN srcva)) (unat (chunk srcva len)))) (\<lambda>bs.
          bind (copyin_obj pagetable (PGROUNDDOWN srcva + PGSIZE) (len - chunk srcva len)) (\<lambda>(r, rest).
          ret (r, bs @ rest))))
      else ret (0, []))"
  by pat_completeness auto
termination
  by (relation "measure (\<lambda>(pt, srcva, len). unat len)") (auto intro: chunk_decreases)

declare copyin_obj.simps [simp del]

function copyinstr_obj :: "u64 \<Rightarrow> u64 \<Rightarrow> u64 \<Rightarrow> ('z kmem_st_scheme, int \<times> u8 list) kmon" where
  "copyinstr_obj pagetable srcva mx =
     (if mx > 0 then
        bind (walkaddr pagetable (PGROUNDDOWN srcva)) (\<lambda>pa0.
        if pa0 = 0 then ret (- 1, [])
        else bind (gets (\<lambda>s. bytes (mem s) (pa0 + (srcva - PGROUNDDOWN srcva)) (unat (chunk srcva mx)))) (\<lambda>bs.
          if 0 \<in> set bs then ret (0, takeWhile (\<lambda>b. b \<noteq> 0) bs @ [0])
          else bind (copyinstr_obj pagetable (PGROUNDDOWN srcva + PGSIZE) (mx - chunk srcva mx)) (\<lambda>(r, rest).
          ret (r, bs @ rest))))
      else ret (- 1, []))"
  by pat_completeness auto
termination
  by (relation "measure (\<lambda>(pt, srcva, mx). unat mx)") (auto intro: chunk_decreases)

declare copyinstr_obj.simps [simp del]

end
