(* ===== verification/PageTable.thy ===== *)
theory PageTable
  imports Vm
begin

text \<open>
  What the routines of \<^verbatim>\<open>kernel/vm.c\<close> do to a page table.  A table is described by
  a map \<open>G\<close> from paths of indices to table pages: \<open>G []\<close> is the root, \<open>G [i]\<close> the
  page that entry \<open>i\<close> of the root points to, \<open>G [i, j]\<close> the leaf page below it.
  \<open>ptable m G\<close> says that memory \<open>m\<close> holds exactly this tree and that its pages are
  distinct; \<open>pte_at m G n\<close> is the entry for virtual page \<open>n\<close>, 0 when there is none.
\<close>

unbundle bit_operations_syntax

section \<open>Entries\<close>

lemma pg_aligned_bit: "pg_aligned c \<Longrightarrow> i < 12 \<Longrightarrow> \<not> bit c i"
proof -
  assume "pg_aligned c" and i: "i < 12"
  then have "take_bit 12 (unat c) = 0" by (simp add: pg_aligned_def take_bit_eq_mod)
  then have "unat (take_bit 12 c) = 0" by (simp add: unsigned_take_bit_eq)
  then have "take_bit 12 c = 0" by (simp only: unat_eq_zero)
  then show ?thesis using i bit_take_bit_iff [of 12 c i] by simp
qed

lemma small_bit: "(f :: u64) < 1024 \<Longrightarrow> bit f i \<Longrightarrow> i < 10"
proof (rule ccontr)
  assume "f < 1024" and b: "bit f i" and "\<not> i < 10"
  then have "unat f < 2 ^ 10" by (simp add: word_less_nat_alt)
  then have "take_bit 10 (unat f) = unat f" by (simp add: take_bit_nat_eq_self)
  then have "take_bit 10 f = f" by (simp add: unsigned_take_bit_eq word_eq_unat)
  then show False using b \<open>\<not> i < 10\<close> bit_take_bit_iff [of 10 f i] by simp
qed

lemma PTE2PA_PA2PTE:
  assumes "pg_aligned c" and "f < 1024"
  shows "PTE2PA (PA2PTE c OR f) = c"
proof (rule bit_word_eqI)
  fix i assume "i < LENGTH(64)"
  then show "bit (PTE2PA (PA2PTE c OR f)) i = bit c i"
  proof (cases "i < 12")
    case True
    then show ?thesis
      using pg_aligned_bit [OF assms(1)] by (simp add: PTE2PA_def bit_simps)
  next
    case False
    then obtain j where j: "i = 12 + j" by (metis le_add_diff_inverse not_less)
    then show ?thesis
      using \<open>i < LENGTH(64)\<close> small_bit [OF assms(2), of "10 + j"]
      by (auto simp: PTE2PA_def PA2PTE_def bit_simps)
  qed
qed

lemma PTE2PA_table [simp]: "pg_aligned c \<Longrightarrow> PTE2PA (PA2PTE c OR 1) = c"
  by (rule PTE2PA_PA2PTE) simp_all

lemma and_1_pte [simp]: "(PA2PTE c OR 1) AND 1 = 1" "(PA2PTE c OR f OR 1) AND 1 = 1"
  by (auto intro!: bit_word_eqI simp: bit_simps)

lemma PTE_FLAGS_PA2PTE:
  assumes "f < 1024"
  shows "PTE_FLAGS (PA2PTE c OR f) = f"
proof -
  have m: "(0x3FF :: u64) = mask 10" by (simp add: mask_eq_exp_minus_1)
  show ?thesis
    unfolding PTE_FLAGS_def m take_bit_eq_mask [symmetric]
    by (rule bit_word_eqI) (use small_bit [OF assms] in \<open>auto simp: PA2PTE_def bit_simps\<close>)
qed

section \<open>Indices and slots\<close>

definition pidx :: "nat \<Rightarrow> nat \<Rightarrow> nat" where
  "pidx l n = n div 512 ^ l mod 512"

abbreviation vpn :: "u64 \<Rightarrow> nat" where
  "vpn va \<equiv> unat va div 4096"

lemma pidx_less [simp]: "pidx l n < 512"
  by (simp add: pidx_def)

lemma PX_pidx: "PX l va = of_nat (pidx l (vpn va))"
proof -
  have m: "(0x1FF :: u64) = mask 9" by (simp add: mask_eq_exp_minus_1)
  have "unat (PX l va) = unat va div 2 ^ (12 + 9 * l) mod 512"
    unfolding PX_def PXSHIFT_def m take_bit_eq_mask [symmetric]
    by (simp only: unsigned_take_bit_eq unsigned_drop_bit_eq)
      (simp add: take_bit_eq_mod drop_bit_eq_div mod_less [OF unat_lt_u64])
  also have "(2 :: nat) ^ (12 + 9 * l) = 4096 * 512 ^ l"
    by (simp add: power_add power_mult)
  finally have "unat (PX l va) = pidx l (vpn va)"
    by (simp add: pidx_def div_mult2_eq)
  then show ?thesis by (metis of_nat_unat ucast_id)
qed

lemma pidx_inj:
  assumes "n < 67108864" and "n' < 67108864"
    and "pidx 0 n = pidx 0 n'" and "pidx 1 n = pidx 1 n'" and "pidx 2 n = pidx 2 n'"
  shows "n = n'"
proof -
  have split: "x = x mod 512 + 512 * (x div 512 mod 512 + 512 * (x div 262144 mod 512))"
    if "x < 67108864" for x :: nat
  proof -
    have "x div 262144 < 512" using that by (simp add: div_less_iff_less_mult)
    then have "x div 262144 mod 512 = x div 512 div 512"
      using div_mult2_eq [of x 512 512] by simp
    moreover have "y = q * 512 + r \<Longrightarrow> q = p * 512 + r' \<Longrightarrow> y = r + 512 * (r' + 512 * p)"
      for y q r p r' :: nat by simp
    ultimately show ?thesis
      using div_mult_mod_eq [of x 512, symmetric] div_mult_mod_eq [of "x div 512" 512, symmetric] by metis
  qed
  show ?thesis
    using split [OF assms(1)] split [OF assms(2)] assms(3-5) by (simp add: pidx_def)
qed

abbreviation nslot :: "u64 \<Rightarrow> nat \<Rightarrow> u64" where
  "nslot t i \<equiv> slot t (of_nat i)"

abbreviation entry :: "memory \<Rightarrow> u64 \<Rightarrow> nat \<Rightarrow> u64" where
  "entry m t i \<equiv> read64 m (nslot t i)"

lemma slot_offset:
  assumes "i < 512" and "within x (nslot t i) 8"
  shows "unat (x - t) = 8 * i + unat (x - nslot t i)"
proof -
  have "unat (of_nat (8 * i) :: u64) = 8 * i" using assms(1) by (intro unat_of_nat_lt) simp
  moreover from this have "unat (of_nat (8 * i) + (x - nslot t i)) = 8 * i + unat (x - nslot t i)"
    using assms unat_add_nowrap [of "of_nat (8 * i)" "x - nslot t i"]
    by (simp add: within_def)
  moreover have "of_nat (8 * i) + (x - nslot t i) = x - t" by (simp add: slot_def)
  ultimately show ?thesis by metis
qed

lemma slot_in_page: "i < 512 \<Longrightarrow> within x (nslot t i) 8 \<Longrightarrow> in_page x t"
  using slot_offset [of i x t] by (simp add: in_page_def within_def)

lemma slots_apart:
  assumes "pg_aligned t" and "pg_aligned t'" and "i < 512" and "i' < 512" and "t \<noteq> t' \<or> i \<noteq> i'"
  shows "apart (nslot t i) 8 (nslot t' i') 8"
  unfolding apart_def
proof (intro allI notI, elim conjE)
  fix x assume w: "within x (nslot t i) 8" "within x (nslot t' i') 8"
  then have "in_page x t" "in_page x t'" using assms slot_in_page by blast+
  then have t: "t = t'" using assms in_page_disjoint by blast
  then have "8 * i + unat (x - nslot t i) = 8 * i' + unat (x - nslot t i')"
    using slot_offset w assms by metis
  then show False using w assms(5) t by (simp add: within_def)
qed

lemma entry_write:
  assumes "pg_aligned t" and "pg_aligned t'" and "i < 512" and "i' < 512"
  shows "entry (write64 m (nslot t i) v) t' i' = (if t = t' \<and> i = i' then v else entry m t' i')"
  using slots_apart [OF assms(2, 1, 4, 3)] by (auto simp: read64_write64_apart)

lemma entry_cong: "i < 512 \<Longrightarrow> (\<And>x. in_page x t \<Longrightarrow> m x = m' x) \<Longrightarrow> entry m t i = entry m' t i"
  by (rule read64_cong) (blast intro: slot_in_page)

lemma entry_zero: "i < 512 \<Longrightarrow> (\<And>x. in_page x t \<Longrightarrow> m x = 0) \<Longrightarrow> entry m t i = 0"
proof -
  assume "i < 512" and "\<And>x. in_page x t \<Longrightarrow> m x = 0"
  then have "bytes m (nslot t i) 8 = replicate 8 0"
    using slot_in_page by (intro bytes_zero) blast
  moreover have "le_word (replicate n 0) = (0 :: u64)" for n by (induction n) simp_all
  ultimately show ?thesis by (simp add: read64_def del: bytes_numeral)
qed

lemma slot_nonzero:
  assumes "pg_aligned t" and "t \<noteq> 0" and "i < 512"
  shows "nslot t i \<noteq> 0"
proof
  assume z: "nslot t i = 0"
  have "in_page (nslot t i) t" by (rule slot_in_page [OF assms(3)]) simp
  then have "in_page 0 t" by (simp add: z)
  moreover have "in_page 0 0" by (simp add: in_page_def)
  moreover have "pg_aligned 0" by (simp add: pg_aligned_def)
  ultimately show False using in_page_disjoint assms by blast
qed

section \<open>The tree of table pages\<close>

definition ptable :: "memory \<Rightarrow> (nat list \<rightharpoonup> u64) \<Rightarrow> bool" where
  "ptable m G =
     ((\<forall>p t. G p = Some t \<longrightarrow> length p \<le> 2 \<and> pg_aligned t \<and> t \<noteq> 0) \<and>
      (\<forall>p i. G (p @ [i]) \<noteq> None \<longrightarrow> G p \<noteq> None \<and> i < 512) \<and>
      inj_on G (dom G) \<and>
      (\<forall>p t i. G p = Some t \<longrightarrow> length p < 2 \<longrightarrow> i < 512 \<longrightarrow>
         entry m t i = (case G (p @ [i]) of None \<Rightarrow> 0 | Some c \<Rightarrow> PA2PTE c OR PTE_V)))"

definition pte_at :: "memory \<Rightarrow> (nat list \<rightharpoonup> u64) \<Rightarrow> nat \<Rightarrow> u64" where
  "pte_at m G n = (case G [pidx 2 n, pidx 1 n] of None \<Rightarrow> 0 | Some t \<Rightarrow> entry m t (pidx 0 n))"

lemma ptable_page: "ptable m G \<Longrightarrow> G p = Some t \<Longrightarrow> length p \<le> 2 \<and> pg_aligned t \<and> t \<noteq> 0"
  unfolding ptable_def by blast

lemma ptable_entry:
  "ptable m G \<Longrightarrow> G p = Some t \<Longrightarrow> length p < 2 \<Longrightarrow> i < 512 \<Longrightarrow>
    entry m t i = (case G (p @ [i]) of None \<Rightarrow> 0 | Some c \<Rightarrow> PA2PTE c OR PTE_V)"
  unfolding ptable_def by blast

lemma ptable_parent: "ptable m G \<Longrightarrow> G (p @ [i]) = Some t \<Longrightarrow> \<exists>u. G p = Some u"
  unfolding ptable_def by blast

lemma ptable_inj: "ptable m G \<Longrightarrow> G p = Some t \<Longrightarrow> G q = Some t \<Longrightarrow> p = q"
  unfolding ptable_def inj_on_def dom_def by (metis (mono_tags) mem_Collect_eq option.distinct(1))

lemma ptable_index: "ptable m G \<Longrightarrow> G (p @ [i]) = Some t \<Longrightarrow> i < 512"
  unfolding ptable_def by blast

lemma ran_page: "ptable m G \<Longrightarrow> t \<in> ran G \<Longrightarrow> pg_aligned t \<and> t \<noteq> 0"
  unfolding ran_def by (auto dest: ptable_page)

text \<open>A leaf table is not one of the upper tables.\<close>

lemma ptable_leaf_ne:
  assumes "ptable m G" and "G [a, b] = Some u" and "G p = Some t" and "length p < 2"
  shows "u \<noteq> t"
proof
  assume "u = t"
  then have "[a, b] = p" using ptable_inj [OF assms(1, 2)] assms(3) by blast
  then have "length p = 2" by auto
  with assms(4) show False by simp
qed

text \<open>The tree depends only on the bytes of its own pages.\<close>

lemma ptable_frame:
  assumes "ptable m G" and "\<And>x t. t \<in> ran G \<Longrightarrow> in_page x t \<Longrightarrow> m' x = m x"
  shows "ptable m' G" "pte_at m' G n = pte_at m G n"
proof -
  have e: "entry m' t i = entry m t i" if "G p = Some t" "i < 512" for p t i
    by (rule entry_cong) (use that assms(2) in \<open>auto simp: ran_def\<close>)
  show "ptable m' G"
    using assms(1) unfolding ptable_def by (simp add: e)
  show "pte_at m' G n = pte_at m G n"
    by (simp add: pte_at_def e split: option.split)
qed

text \<open>A new table page, cleared and entered in its parent.\<close>

lemma ptable_extend:
  assumes G: "ptable m G" and p: "G p = Some t" "length p < 2" and i: "i < 512"
    and new: "G (p @ [i]) = None" and c: "pg_aligned c" "c \<noteq> 0" "c \<notin> ran G"
    and m': "\<And>x. \<not> in_page x c \<Longrightarrow> m1 x = m x" "\<And>x. in_page x c \<Longrightarrow> m1 x = 0"
  defines "m' \<equiv> write64 m1 (nslot t i) (PA2PTE c OR PTE_V)"
  shows "ptable m' (G(p @ [i] \<mapsto> c))" "pte_at m' (G(p @ [i] \<mapsto> c)) n = pte_at m G n"
proof -
  let ?G = "G(p @ [i] \<mapsto> c)"
  have t: "pg_aligned t" "t \<noteq> c" using G p c by (auto dest: ptable_page simp: ran_def)
  have e_old: "entry m' u j = (if u = t \<and> j = i then PA2PTE c OR PTE_V else entry m u j)"
    if "G q = Some u" "j < 512" for q u j
  proof -
    have u: "pg_aligned u" "u \<noteq> c" using G that c by (auto dest: ptable_page simp: ran_def)
    have "entry m1 u j = entry m u j"
      by (rule entry_cong [OF that(2)], rule m'(1)) (use in_page_disjoint u c in blast)
    then show ?thesis
      unfolding m'_def using entry_write [OF t(1) u(1) i that(2)] by auto
  qed
  have e_new: "entry m' c j = 0" if "j < 512" for j
    unfolding m'_def using entry_write [OF t(1) c(1) i that] t entry_zero [OF that m'(2)] by simp
  have shape: "length q \<le> 2 \<and> pg_aligned u \<and> u \<noteq> 0" if "?G q = Some u" for q u
    using that p c ptable_page [OF G] by (auto split: if_splits)
  have parents: "?G q \<noteq> None \<and> j < 512" if "?G (q @ [j]) \<noteq> None" for q j
    using that G p i unfolding ptable_def by (auto split: if_splits)
  have inj: "inj_on ?G (dom ?G)"
  proof -
    have "inj_on G (dom G)" using G unfolding ptable_def by blast
    then show ?thesis
      using c(3) by (auto simp: inj_on_def ran_def dom_def)
  qed
  have entries: "entry m' u j = (case ?G (q @ [j]) of None \<Rightarrow> 0 | Some c \<Rightarrow> PA2PTE c OR PTE_V)"
    if q: "?G q = Some u" "length q < 2" "j < 512" for q u j
  proof (cases "q = p @ [i]")
    case True
    then have "G (q @ [j]) = None" using new ptable_parent [OF G, of q j] by (cases "G (q @ [j])") auto
    then show ?thesis using True q e_new by auto
  next
    case False
    then have Gq: "G q = Some u" using q by simp
    show ?thesis
    proof (cases "q @ [j] = p @ [i]")
      case True
      then show ?thesis using Gq p q e_old by auto
    next
      case F: False
      then have "\<not> (u = t \<and> j = i)" using ptable_inj [OF G Gq] p by auto
      then show ?thesis
        using F e_old [OF Gq q(3)] ptable_entry [OF G Gq q(2, 3)] by auto
    qed
  qed
  show "ptable m' ?G"
    unfolding ptable_def using shape parents inj entries by blast
  show "pte_at m' ?G n = pte_at m G n"
  proof (cases "[pidx 2 n, pidx 1 n] = p @ [i]")
    case True
    then have "G [pidx 2 n, pidx 1 n] = None" "?G [pidx 2 n, pidx 1 n] = Some c"
      using new by (simp_all only: fun_upd_same)
    then show ?thesis by (simp add: pte_at_def e_new)
  next
    case False
    have "entry m' u (pidx 0 n) = entry m u (pidx 0 n)" if "G [pidx 2 n, pidx 1 n] = Some u" for u
    proof -
      have "u \<noteq> t" by (rule ptable_leaf_ne [OF G that p])
      then show ?thesis using e_old [OF that] by simp
    qed
    moreover have same: "?G [pidx 2 n, pidx 1 n] = G [pidx 2 n, pidx 1 n]"
      by (rule fun_upd_other) (rule False)
    ultimately show ?thesis unfolding pte_at_def same by (simp split: option.split)
  qed
qed

text \<open>Writing a leaf entry changes the mapping of exactly one virtual page.\<close>

lemma ptable_set_leaf:
  assumes G: "ptable m G" and t: "G [pidx 2 n, pidx 1 n] = Some t" and n: "n < 67108864"
  shows "ptable (write64 m (nslot t (pidx 0 n)) v) G"
    "n' < 67108864 \<Longrightarrow> pte_at (write64 m (nslot t (pidx 0 n)) v) G n' = (if n' = n then v else pte_at m G n')"
proof -
  let ?m = "write64 m (nslot t (pidx 0 n)) v"
  have al: "pg_aligned t" using ptable_page [OF G t] by blast
  have e: "entry ?m u j = (if u = t \<and> j = pidx 0 n then v else entry m u j)"
    if "G q = Some u" "j < 512" for q u j
    using entry_write [OF al _ _ that(2), of u "pidx 0 n" m v] ptable_page [OF G that(1)] by auto
  have "entry ?m u j = entry m u j" if "G q = Some u" "length q < 2" "j < 512" for q u j
  proof -
    have "t \<noteq> u" by (rule ptable_leaf_ne [OF G t that(1, 2)])
    then show ?thesis using e that by simp
  qed
  then show "ptable ?m G" using G unfolding ptable_def by simp
  show "pte_at ?m G n' = (if n' = n then v else pte_at m G n')" if "n' < 67108864"
  proof (cases "n' = n")
    case True
    then show ?thesis using t e [OF t] by (simp add: pte_at_def)
  next
    case False
    have "entry ?m u (pidx 0 n') = entry m u (pidx 0 n')" if u: "G [pidx 2 n', pidx 1 n'] = Some u" for u
    proof -
      have "\<not> (u = t \<and> pidx 0 n' = pidx 0 n)"
      proof
        assume "u = t \<and> pidx 0 n' = pidx 0 n"
        then have "[pidx 2 n', pidx 1 n'] = [pidx 2 n, pidx 1 n]" "pidx 0 n' = pidx 0 n"
          using ptable_inj [OF G u] t by auto
        then have "n' = n" using pidx_inj [OF \<open>n' < 67108864\<close> n] by simp
        with False show False ..
      qed
      then show ?thesis using e [OF u pidx_less] by auto
    qed
    with False show ?thesis by (simp add: pte_at_def split: option.split)
  qed
qed

section \<open>Walking the tree\<close>

lemma walk_lookup:
  assumes G: "ptable (mem s) G" and root: "G [] = Some root" and va: "va < MAXVA"
  shows "walk root va False s = Ok (case G [pidx 2 (vpn va), pidx 1 (vpn va)] of
      None \<Rightarrow> 0 | Some t \<Rightarrow> nslot t (pidx 0 (vpn va))) s"
proof -
  let ?i = "pidx 2 (vpn va)" and ?j = "pidx 1 (vpn va)"
  have r: "entry (mem s) root ?i = (case G [?i] of None \<Rightarrow> 0 | Some c \<Rightarrow> PA2PTE c OR PTE_V)"
    using ptable_entry [OF G root] by simp
  show ?thesis
  proof (cases "G [?i]")
    case None
    then have "G [?i, ?j] = None"
      using ptable_parent [OF G, of "[?i]" ?j] by (cases "G [?i, ?j]") auto
    with None show ?thesis
      using va r by (simp add: walk_def numeral_2_eq_2 get_pte_def mon_simps PX_pidx not_le)
  next
    case (Some c)
    then have c: "pg_aligned c" using ptable_page [OF G] by blast
    have e: "entry (mem s) c ?j = (case G [?i, ?j] of None \<Rightarrow> 0 | Some d \<Rightarrow> PA2PTE d OR PTE_V)"
      using ptable_entry [OF G Some] by simp
    show ?thesis
    proof (cases "G [?i, ?j]")
      case None
      then show ?thesis
        using va r e Some c
        by (simp add: walk_def numeral_2_eq_2 get_pte_def mon_simps PX_pidx not_le)
    next
      case (Some d)
      then have "pg_aligned d" using ptable_page [OF G] by blast
      then show ?thesis
        using va r e Some \<open>G [?i] = Some c\<close> c
        by (simp add: walk_def numeral_2_eq_2 get_pte_def mon_simps PX_pidx not_le)
    qed
  qed
qed

text \<open>
  \<open>table_step\<close>: a change of a page table.  The tree only grows, by pages taken from
  the free list, and no byte outside the pages of the new tree changes.  \<open>grows\<close>: in
  addition every mapping stays as it was.
\<close>

definition table_step :: "'z kmem_st_scheme \<Rightarrow> u64 set \<Rightarrow> (nat list \<rightharpoonup> u64) \<Rightarrow>
    'z kmem_st_scheme \<Rightarrow> u64 set \<Rightarrow> (nat list \<rightharpoonup> u64) \<Rightarrow> bool" where
  "table_step s F G s' F' G' = (mem_only s s' \<and> kmem_free s' F' \<and> ptable (mem s') G' \<and> G \<subseteq>\<^sub>m G' \<and>
     F' \<subseteq> F \<and> ran G' = ran G \<union> (F - F') \<and>
     (\<forall>x. (\<forall>t \<in> ran G'. \<not> in_page x t) \<longrightarrow> mem s' x = mem s x))"

definition grows :: "'z kmem_st_scheme \<Rightarrow> u64 set \<Rightarrow> (nat list \<rightharpoonup> u64) \<Rightarrow>
    'z kmem_st_scheme \<Rightarrow> u64 set \<Rightarrow> (nat list \<rightharpoonup> u64) \<Rightarrow> bool" where
  "grows s F G s' F' G' = (table_step s F G s' F' G' \<and>
     (\<forall>n. pte_at (mem s') G' n = pte_at (mem s) G n))"

lemma table_step_refl: "kmem_free s F \<Longrightarrow> ptable (mem s) G \<Longrightarrow> table_step s F G s F G"
  by (simp add: table_step_def)

lemma table_step_trans:
  assumes "table_step s F G s1 F1 G1" and "table_step s1 F1 G1 s2 F2 G2"
  shows "table_step s F G s2 F2 G2"
proof -
  have "mem_only s s2" using assms unfolding table_step_def by (blast intro: mem_only_trans)
  moreover have "G \<subseteq>\<^sub>m G2" using assms unfolding table_step_def by (blast intro: map_le_trans)
  moreover have "ran G2 = ran G \<union> (F - F2)" "F2 \<subseteq> F" using assms unfolding table_step_def by auto
  moreover have "mem s2 x = mem s x" if "\<forall>t \<in> ran G2. \<not> in_page x t" for x
    using that assms unfolding table_step_def by auto
  ultimately show ?thesis using assms unfolding table_step_def by simp
qed

lemma grows_refl: "kmem_free s F \<Longrightarrow> ptable (mem s) G \<Longrightarrow> grows s F G s F G"
  by (simp add: grows_def table_step_refl)

lemma grows_trans: "grows s F G s1 F1 G1 \<Longrightarrow> grows s1 F1 G1 s2 F2 G2 \<Longrightarrow> grows s F G s2 F2 G2"
  unfolding grows_def by (auto intro: table_step_trans)

text \<open>The situation in which the routines are called: a table whose pages are not free.\<close>

definition has_table :: "'z kmem_st_scheme \<Rightarrow> u64 set \<Rightarrow> (nat list \<rightharpoonup> u64) \<Rightarrow> u64 \<Rightarrow> bool" where
  "has_table s F G root = (kmem_free s F \<and> ptable (mem s) G \<and> ran G \<inter> F = {} \<and> G [] = Some root)"

lemma map_le_Some: "G \<subseteq>\<^sub>m G' \<Longrightarrow> G p = Some t \<Longrightarrow> G' p = Some t"
  by (metis domI map_le_def)

lemma table_step_has_table: "has_table s F G root \<Longrightarrow> table_step s F G s' F' G' \<Longrightarrow> has_table s' F' G' root"
  unfolding has_table_def table_step_def by (auto dest: map_le_Some)

lemma kalloc_table_page:
  assumes inv: "kmem_free s F" and G: "ptable (mem s) G" and disj: "ran G \<inter> F = {}"
    and p: "G p = Some t" "length p < 2" and i: "i < 512" and new: "G (p @ [i]) = None" and F: "F \<noteq> {}"
  obtains c s1 where "c \<in> F" "kalloc s = Ok c s1" "c \<noteq> 0"
    "grows s F G (s1\<lparr>mem := write64 (memset (mem s1) c 0 4096) (nslot t i) (PA2PTE c OR PTE_V)\<rparr>)
      (F - {c}) (G(p @ [i] \<mapsto> c))"
proof -
  obtain c s1 where c: "kalloc s = Ok c s1" "c \<in> F" "kmem_free s1 (F - {c})" "mem_only s s1"
      "\<forall>x. \<not> in_page x c \<longrightarrow> mem s1 x = mem s x"
    using kmem_free_alloc [OF inv F] by blast
  have ok: "pg_aligned c" "c \<noteq> 0" using km.valid_aligned [OF inv] km.free_set_valid [OF inv c(2)] by auto
  let ?m1 = "memset (mem s1) c 0 4096"
  let ?m = "write64 ?m1 (nslot t i) (PA2PTE c OR PTE_V)"
  let ?G = "G(p @ [i] \<mapsto> c)"
  have al: "pg_aligned t" "t \<noteq> c" "t \<notin> F" using G p c disj by (auto dest: ptable_page simp: ran_def)
  have ext: "ptable ?m ?G" "pte_at ?m ?G n = pte_at (mem s) G n" for n
    using ptable_extend [OF G p i new ok, of ?m1] c disj by (auto simp: memset_page)
  have ran: "ran ?G = ran G \<union> {c}" using new by simp
  have out: "?m x = mem s x" if "\<forall>t \<in> ran ?G. \<not> in_page x t" for x
  proof -
    have x: "\<not> in_page x c" "\<not> in_page x t" using that ranI [of G p t] p ran by auto
    then have "\<not> within x (nslot t i) 8" using slot_in_page [OF i] by blast
    then show ?thesis using x c by (simp add: write64_out memset_page)
  qed
  have free: "kmem_free (s1\<lparr>mem := ?m\<rparr>) (F - {c})"
  proof (rule kmem_free_frame [OF c(3)])
    fix x r assume r: "r \<in> F - {c}" "in_page x r"
    then have "pg_aligned r" using km.valid_aligned [OF inv] km.free_set_valid [OF inv] by blast
    then have "\<not> in_page x c" "\<not> in_page x t"
      using r al ok in_page_disjoint [of r c x] in_page_disjoint [of r t x] by auto
    moreover from this have "\<not> within x (nslot t i) 8" using slot_in_page [OF i] by blast
    ultimately show "?m x = mem s1 x" by (simp add: write64_out memset_page)
  qed
  have "grows s F G (s1\<lparr>mem := ?m\<rparr>) (F - {c}) ?G"
    unfolding grows_def table_step_def
  proof (intro conjI allI impI)
    show "mem_only s (s1\<lparr>mem := ?m\<rparr>)" using c(4) mem_only_upd(1) by (rule mem_only_trans)
    show "G \<subseteq>\<^sub>m ?G" using new by (auto simp: map_le_def)
    show "ran ?G = ran G \<union> (F - (F - {c}))" using ran c(2) by auto
  qed (use ext out free in auto)
  then show thesis using that c ok by blast
qed

text \<open>The indices still to follow from level \<open>l\<close> down to level 1.\<close>

primrec ipath :: "nat \<Rightarrow> nat \<Rightarrow> nat list" where
  "ipath 0 n = []"
| "ipath (Suc l) n = pidx (Suc l) n # ipath l n"

lemma walk_loop_alloc:
  assumes "kmem_free s F" and "ptable (mem s) G" and "ran G \<inter> F = {}"
    and "G p = Some t" and "length p + l = 2"
  shows "\<exists>r s' F' G'. walk_loop l t va True s = Ok r s' \<and> grows s F G s' F' G' \<and>
    (if r = 0 then F' = {}
     else \<exists>u. G' (p @ ipath l (vpn va)) = Some u \<and> r = nslot u (pidx 0 (vpn va)))"
  using assms
proof (induction l arbitrary: s F G p t)
  case 0
  then have "nslot t (pidx 0 (vpn va)) \<noteq> 0" using ptable_page [OF 0(2, 4)] slot_nonzero by simp
  then show ?case
    using 0 grows_refl [OF 0(1, 2)] by (auto simp: PX_pidx intro!: exI [of _ F] exI [of _ G])
next
  case (Suc l)
  let ?i = "pidx (Suc l) (vpn va)"
  have len: "length p < 2" using Suc.prems by simp
  have e: "entry (mem s) t ?i = (case G (p @ [?i]) of None \<Rightarrow> 0 | Some c \<Rightarrow> PA2PTE c OR PTE_V)"
    using ptable_entry [OF Suc.prems(2, 4) len] by simp
  show ?case
  proof (cases "G (p @ [?i])")
    case (Some c)
    then have c: "pg_aligned c" using ptable_page [OF Suc.prems(2)] by blast
    have "walk_loop (Suc l) t va True s = walk_loop l c va True s"
      using e c by (simp add: Some mon_simps get_pte_def PX_pidx del: One_nat_def)
    then show ?thesis
      using Suc.IH [OF Suc.prems(1-3) Some] Suc.prems(5)
      by (simp only: append_assoc append_Cons append_Nil length_append list.size ipath.simps)
  next
    case None
    show ?thesis
    proof (cases "F = {}")
      case True
      then have "walk_loop (Suc l) t va True s = Ok 0 s"
        using e None km.alloc_none [of s] Suc.prems(1) by (simp add: mon_simps get_pte_def PX_pidx)
      then show ?thesis using True grows_refl [OF Suc.prems(1, 2)] by auto
    next
      case False
      then obtain c s1 where c: "c \<in> F" "kalloc s = Ok c s1" "c \<noteq> 0"
        "grows s F G (s1\<lparr>mem := write64 (memset (mem s1) c 0 4096) (nslot t ?i) (PA2PTE c OR PTE_V)\<rparr>)
          (F - {c}) (G(p @ [?i] \<mapsto> c))" (is "grows s F G ?s1 _ ?G1")
        using kalloc_table_page [OF Suc.prems(1-4) len _ None] by auto
      have w: "walk_loop (Suc l) t va True s = walk_loop l c va True ?s1"
        using e None c by (simp add: mon_simps get_pte_def set_pte_def zero_page_def PX_pidx)
      have "ran ?G1 \<inter> (F - {c}) = {}" using Suc.prems(3) None by auto
      moreover have "kmem_free ?s1 (F - {c})" "ptable (mem ?s1) ?G1" using c(4) by (simp_all add: grows_def table_step_def)
      moreover have "?G1 (p @ [?i]) = Some c" "length (p @ [?i]) + l = 2" using Suc.prems(5) by simp_all
      ultimately obtain r s' F' G' where
        rs: "walk_loop l c va True ?s1 = Ok r s'" "grows ?s1 (F - {c}) ?G1 s' F' G'"
        "if r = 0 then F' = {} else \<exists>u. G' ((p @ [?i]) @ ipath l (vpn va)) = Some u \<and> r = nslot u (pidx 0 (vpn va))"
        using Suc.IH by blast
      have path: "(p @ [?i]) @ ipath l (vpn va) = p @ ipath (Suc l) (vpn va)" by simp
      show ?thesis
        using rs(1) rs(3) [unfolded path] grows_trans [OF c(4) rs(2)] unfolding w by blast
    qed
  qed
qed

lemma walk_alloc:
  assumes T: "has_table s F G root" and va: "va < MAXVA"
  obtains r s' F' G' where "walk root va True s = Ok r s'" "grows s F G s' F' G'"
    "if r = 0 then F' = {}
     else \<exists>u. G' [pidx 2 (vpn va), pidx 1 (vpn va)] = Some u \<and> r = nslot u (pidx 0 (vpn va))"
proof -
  have w: "walk root va True s = walk_loop 2 root va True s"
    using va by (simp add: walk_def flip: not_le)
  have p: "[] @ ipath 2 (vpn va) = [pidx 2 (vpn va), pidx 1 (vpn va)]"
    by (simp add: numeral_2_eq_2)
  have "length [] + 2 = 2" by simp
  from walk_loop_alloc [OF _ _ _ _ this, of s F G root va, unfolded p] T show thesis
    using that unfolding w has_table_def by blast
qed

section \<open>mappages\<close>

lemma set_leaf_step:
  assumes T: "has_table s F G root" and t: "G [pidx 2 n, pidx 1 n] = Some t" and n: "n < 67108864"
  shows "table_step s F G (s\<lparr>mem := write64 (mem s) (nslot t (pidx 0 n)) v\<rparr>) F G"
proof -
  let ?m = "write64 (mem s) (nslot t (pidx 0 n)) v"
  have G: "ptable (mem s) G" and F: "kmem_free s F" and d: "ran G \<inter> F = {}"
    using T by (simp_all add: has_table_def)
  have tr: "t \<in> ran G" "pg_aligned t" using t ptable_page [OF G t] by (auto simp: ran_def)
  have out: "?m x = mem s x" if "\<not> in_page x t" for x
    using that slot_in_page [OF pidx_less [of 0 n]] by (blast intro: write64_out)
  have "kmem_free (s\<lparr>mem := ?m\<rparr>) F"
  proof (rule kmem_free_frame [OF F])
    fix x r assume r: "r \<in> F" "in_page x r"
    then have "pg_aligned r" "r \<noteq> t"
      using km.valid_aligned [OF F] km.free_set_valid [OF F] d tr by blast+
    then show "?m x = mem s x" using r tr in_page_disjoint out by blast
  qed
  then show ?thesis
    using ptable_set_leaf(1) [OF G t n] tr out by (auto simp: table_step_def)
qed

lemma unat_page_addr: "n \<le> 67108864 \<Longrightarrow> unat (of_nat (4096 * n) :: u64) = 4096 * n"
  by (rule unat_of_nat_lt) simp

lemma page_addr_less: "n < 67108864 \<Longrightarrow> (of_nat (4096 * n) :: u64) < MAXVA"
  by (simp add: word_less_nat_alt unat_page_addr del: of_nat_mult)

text \<open>One round of the loop of \<^verbatim>\<open>mappages\<close>.\<close>

lemma mappages_round:
  fixes s :: "'z kmem_st_scheme"
  assumes T: "has_table s F G root" and n: "n < 67108864" and free: "pte_at (mem s) G n AND PTE_V = 0"
  obtains (fail) s' G' where "mappages_loop root (of_nat (4096 * n)) lst pa perm s = Ok (- 1) s'"
      "grows s F G s' {} G'"
    | (ok) s' F' G' where "table_step s F G s' F' G'"
      "mappages_loop root (of_nat (4096 * n)) lst pa perm s =
        (if of_nat (4096 * n) = lst then Ok 0 s'
         else mappages_loop root (of_nat (4096 * n) + PGSIZE) lst (pa + PGSIZE) perm s')"
      "\<forall>i < 67108864. pte_at (mem s') G' i =
        (if i = n then PA2PTE pa OR perm OR PTE_V else pte_at (mem s) G i)"
proof -
  let ?a = "of_nat (4096 * n) :: u64"
  have vpn: "vpn ?a = n" using n by (simp add: unat_page_addr del: of_nat_mult)
  obtain r s1 F1 G1 where w: "walk root ?a True s = Ok r s1" "grows s F G s1 F1 G1"
    "if r = 0 then F1 = {} else \<exists>u. G1 [pidx 2 n, pidx 1 n] = Some u \<and> r = nslot u (pidx 0 n)"
    using walk_alloc [OF T page_addr_less [OF n], unfolded vpn] by blast
  show thesis
  proof (cases "r = 0")
    case True
    then have "mappages_loop root ?a lst pa perm s = Ok (- 1) s1"
      using w by (subst mappages_loop.simps) (simp add: mon_simps)
    then show thesis using fail w True by simp
  next
    case False
    then obtain u where u: "G1 [pidx 2 n, pidx 1 n] = Some u" "r = nslot u (pidx 0 n)" using w(3) by auto
    let ?v = "PA2PTE pa OR perm OR PTE_V"
    let ?s = "s1\<lparr>mem := write64 (mem s1) r ?v\<rparr>"
    have st: "table_step s F G s1 F1 G1" using w(2) by (simp add: grows_def)
    have T1: "has_table s1 F1 G1 root" by (rule table_step_has_table [OF T st])
    have "read64 (mem s1) r = pte_at (mem s1) G1 n" using u by (simp add: pte_at_def)
    then have e: "read64 (mem s1) r AND PTE_V = 0" using w(2) free by (simp add: grows_def)
    have "mappages_loop root ?a lst pa perm s = (if ?a = lst then Ok 0 ?s
         else mappages_loop root (?a + PGSIZE) lst (pa + PGSIZE) perm ?s)"
      using w(1) e False by (subst mappages_loop.simps) (simp add: mon_simps get_pte_def set_pte_def)
    moreover have "table_step s F G ?s F1 G1"
      using table_step_trans [OF st set_leaf_step [OF T1 u(1) n]] u(2) by simp
    moreover have "\<forall>i < 67108864. pte_at (mem ?s) G1 i = (if i = n then ?v else pte_at (mem s) G i)"
      using ptable_set_leaf(2) [where G = G1 and m = "mem s1" and t = u and n = n] u n T1 w(2)
      by (simp add: has_table_def grows_def)
    ultimately show thesis using ok by blast
  qed
qed

lemma mappages_loop_correct:
  fixes s :: "'z kmem_st_scheme"
  assumes "has_table s F G root" and "n + k < 67108864"
    and "\<forall>j \<le> k. pte_at (mem s) G (n + j) AND PTE_V = 0"
  shows "\<exists>r s' F' G' j. mappages_loop root (of_nat (4096 * n)) (of_nat (4096 * (n + k))) pa perm s = Ok r s' \<and>
    table_step s F G s' F' G' \<and> (r = 0 \<and> j = Suc k \<or> r = - 1 \<and> j \<le> k \<and> F' = {}) \<and>
    (\<forall>i < 67108864. pte_at (mem s') G' i =
      (if n \<le> i \<and> i < n + j then PA2PTE (pa + of_nat (4096 * (i - n))) OR perm OR PTE_V
       else pte_at (mem s) G i))"
  using assms
proof (induction k arbitrary: s F G n pa)
  case 0
  have n: "n < 67108864" and e: "pte_at (mem s) G n AND PTE_V = 0" using 0 by simp_all
  show ?case
  proof (rule mappages_round [OF 0(1) n e, of "of_nat (4096 * (n + 0))" pa perm], goal_cases)
    case (1 s' G')
    then show ?case by (intro exI [of _ "- 1"] exI [of _ s'] exI [of _ "{}"] exI [of _ G'] exI [of _ 0]) (auto simp: grows_def)
  next
    case (2 s' F' G')
    then show ?case
      by (intro exI [of _ 0] exI [of _ s'] exI [of _ F'] exI [of _ G'] exI [of _ 1]) auto
  qed
next
  case (Suc k)
  have n: "n < 67108864" and e: "pte_at (mem s) G n AND PTE_V = 0" using Suc.prems(2, 3) by auto
  have ne: "(of_nat (4096 * n) :: u64) \<noteq> of_nat (4096 * (n + Suc k))"
  proof
    assume "(of_nat (4096 * n) :: u64) = of_nat (4096 * (n + Suc k))"
    then have "4096 * n = 4096 * (n + Suc k)"
      using unat_page_addr [of n] unat_page_addr [of "n + Suc k"] Suc.prems(2) by (metis add_leD1 less_imp_le)
    then show False by simp
  qed
  have nxt: "(of_nat (4096 * n) :: u64) + 4096 = of_nat (4096 * Suc n)" by simp
  show ?case
  proof (rule mappages_round [OF Suc.prems(1) n e, of "of_nat (4096 * (n + Suc k))" pa perm], goal_cases)
    case (1 s' G')
    then show ?case by (intro exI [of _ "- 1"] exI [of _ s'] exI [of _ "{}"] exI [of _ G'] exI [of _ 0]) (auto simp: grows_def)
  next
    case (2 s1 F1 G1)
    have "has_table s1 F1 G1 root" by (rule table_step_has_table [OF Suc.prems(1) 2(1)])
    moreover have "\<forall>j \<le> k. pte_at (mem s1) G1 (Suc n + j) AND PTE_V = 0"
      using Suc.prems(2, 3) 2(3) by auto
    moreover have "Suc n + k < 67108864" using Suc.prems(2) by simp
    ultimately obtain r s' F' G' j where IH:
      "mappages_loop root (of_nat (4096 * Suc n)) (of_nat (4096 * (Suc n + k))) (pa + 4096) perm s1 = Ok r s'"
      "table_step s1 F1 G1 s' F' G'" "r = 0 \<and> j = Suc k \<or> r = - 1 \<and> j \<le> k \<and> F' = {}"
      "\<forall>i < 67108864. pte_at (mem s') G' i =
        (if Suc n \<le> i \<and> i < Suc n + j then PA2PTE (pa + 4096 + of_nat (4096 * (i - Suc n))) OR perm OR PTE_V
         else pte_at (mem s1) G1 i)"
      using Suc.IH [of s1 F1 G1 "Suc n" "pa + 4096"] by blast
    have shift: "pa + 4096 + of_nat (4096 * (i - Suc n)) = pa + of_nat (4096 * (i - n))" if "Suc n \<le> i" for i
    proof -
      have "4096 * (i - n) = 4096 + 4096 * (i - Suc n)" using that by simp
      then show ?thesis by (simp only: of_nat_add) simp
    qed
    have "\<forall>i < 67108864. pte_at (mem s') G' i =
      (if n \<le> i \<and> i < n + Suc j then PA2PTE (pa + of_nat (4096 * (i - n))) OR perm OR PTE_V
       else pte_at (mem s) G i)"
      using IH(4) 2(3) shift by (auto simp: not_le Suc_le_eq)
    moreover have "mappages_loop root (of_nat (4096 * n)) (of_nat (4096 * (n + Suc k))) pa perm s = Ok r s'"
      using 2(2) ne IH(1) by (simp add: ac_simps)
    moreover have "table_step s F G s' F' G'" by (rule table_step_trans [OF 2(1) IH(2)])
    moreover have "r = 0 \<and> Suc j = Suc (Suc k) \<or> r = - 1 \<and> Suc j \<le> Suc k \<and> F' = {}" using IH(3) by auto
    ultimately show ?case by blast
  qed
qed

lemma walkaddr_lookup:
  assumes G: "ptable (mem s) G" and root: "G [] = Some root"
  shows "walkaddr root va s = Ok (let e = pte_at (mem s) G (vpn va) in
    if va < MAXVA \<and> e AND PTE_V \<noteq> 0 \<and> e AND PTE_U \<noteq> 0 then PTE2PA e else 0) s"
proof (cases "va < MAXVA")
  case True
  have "nslot t i \<noteq> 0" if "G p = Some t" "i < 512" for p t i
    using slot_nonzero ptable_page [OF G that(1)] that(2) by blast
  then show ?thesis
    using True walk_lookup [OF G root True]
    by (auto simp: walkaddr_def mon_simps get_pte_def pte_at_def Let_def not_le split: option.splits)
next
  case False
  then have "va \<ge> MAXVA" by simp
  then show ?thesis using False by (simp add: walkaddr_def Let_def flip: not_less)
qed

lemma PGROUNDDOWN_page: "PGROUNDDOWN va = of_nat (4096 * vpn va)"
  using PGROUNDDOWN_unat [of va] by (metis mult.commute of_nat_unat ucast_id)

lemma range_vpn:
  assumes "0 < sz" and "unat va + unat sz \<le> 274877906944"
  shows "vpn va \<le> vpn (va + sz - 1)" "vpn (va + sz - 1) < 67108864"
proof -
  have pos: "0 < unat sz" using assms(1) by (simp add: word_less_nat_alt)
  have "unat (va + sz) = unat va + unat sz"
    using assms(2) by (intro unat_add_nowrap) simp
  then have last: "unat (va + sz - 1) = unat va + unat sz - 1"
    using pos by (subst unat_minus_one) auto
  show "vpn va \<le> vpn (va + sz - 1)" unfolding last using pos by (intro div_le_mono) simp
  show "vpn (va + sz - 1) < 67108864"
    unfolding last using pos assms(2) by (simp add: div_less_iff_less_mult)
qed

lemma pg_aligned_plus: "pg_aligned a \<Longrightarrow> pg_aligned b \<Longrightarrow> pg_aligned (a + b)"
  by (simp add: pg_aligned_def unat_word_ariths dvd_mod)

lemma pg_aligned_of_nat: "pg_aligned (of_nat (4096 * k))"
  by (simp add: pg_aligned_def unat_of_nat take_bit_eq_mod dvd_mod del: of_nat_mult)

lemma less_1024_iff: "(f :: u64) < 1024 \<longleftrightarrow> take_bit 10 f = f"
proof -
  have "f < 1024 \<longleftrightarrow> unat f < 2 ^ 10" by (simp add: word_less_nat_alt)
  also have "\<dots> \<longleftrightarrow> take_bit 10 (unat f) = unat f" by (simp only: take_bit_nat_eq_self_iff)
  also have "\<dots> \<longleftrightarrow> take_bit 10 f = f" by (simp add: word_eq_unat unsigned_take_bit_eq)
  finally show ?thesis .
qed

lemma or_less_1024: "(a :: u64) < 1024 \<Longrightarrow> b < 1024 \<Longrightarrow> a OR b < 1024"
  by (simp add: less_1024_iff)

lemma and_U_iff: "(x :: u64) AND 16 = 0 \<longleftrightarrow> \<not> bit x 4"
  using and_exp_eq_0_iff_not_bit [of x 4] by simp

text \<open>\<^verbatim>\<open>mappages\<close> of a range.\<close>

lemma mappages_correct:
  assumes "has_table s F G root" and "0 < sz" and "unat va + unat sz \<le> 274877906944"
    and "\<forall>i. vpn va \<le> i \<and> i \<le> vpn (va + sz - 1) \<longrightarrow> pte_at (mem s) G i AND PTE_V = 0"
  obtains r s' F' G' j where "mappages root va sz pa perm s = Ok r s'" "table_step s F G s' F' G'"
    "r = 0 \<and> j = Suc (vpn (va + sz - 1)) \<or> r = - 1 \<and> j \<le> vpn (va + sz - 1) \<and> F' = {}" "vpn va \<le> j"
    "\<forall>i < 67108864. pte_at (mem s') G' i =
      (if vpn va \<le> i \<and> i < j then PA2PTE (pa + of_nat (4096 * (i - vpn va))) OR perm OR PTE_V
       else pte_at (mem s) G i)"
proof -
  let ?last = "va + sz - 1"
  define k where "k = vpn ?last - vpn va"
  have k: "vpn ?last = vpn va + k" "vpn va + k < 67108864"
    using range_vpn [OF assms(2, 3)] by (simp_all add: k_def)
  have m: "mappages root va sz pa perm s =
      mappages_loop root (of_nat (4096 * vpn va)) (of_nat (4096 * (vpn va + k))) pa perm s"
    using assms(2) k by (auto simp: mappages_def PGROUNDDOWN_page simp del: of_nat_mult)
  have "\<forall>j \<le> k. pte_at (mem s) G (vpn va + j) AND PTE_V = 0" using assms(4) k by auto
  from mappages_loop_correct [OF assms(1) k(2) this, of pa perm] obtain r s' F' G' j where
    "mappages_loop root (of_nat (4096 * vpn va)) (of_nat (4096 * (vpn va + k))) pa perm s = Ok r s'"
    "table_step s F G s' F' G'" "r = 0 \<and> j = Suc k \<or> r = - 1 \<and> j \<le> k \<and> F' = {}"
    "\<forall>i < 67108864. pte_at (mem s') G' i =
      (if vpn va \<le> i \<and> i < vpn va + j then PA2PTE (pa + of_nat (4096 * (i - vpn va))) OR perm OR PTE_V
       else pte_at (mem s) G i)" by blast
  then show thesis using that [of r s' F' G' "vpn va + j"] m k by auto
qed

text \<open>
  C5.  \<^verbatim>\<open>mappages\<close> and \<^verbatim>\<open>walkaddr\<close> agree: mapping an unmapped range either fails
  because memory ran out, or afterwards every page of the range translates to the
  corresponding physical page; every other virtual page keeps its entry; and outside
  the pages of the table no byte of memory changes.
\<close>

theorem mappages_translates:
  assumes "has_table s F G root" and "0 < sz" and "unat va + unat sz \<le> 274877906944"
    and "\<forall>i. vpn va \<le> i \<and> i \<le> vpn (va + sz - 1) \<longrightarrow> pte_at (mem s) G i AND PTE_V = 0"
    and "pg_aligned pa" and "perm < 1024" and "perm AND PTE_U \<noteq> 0"
  shows "\<exists>r s' F' G'. mappages root va sz pa perm s = Ok r s' \<and> table_step s F G s' F' G' \<and>
    (r = 0 \<or> r = - 1 \<and> F' = {}) \<and>
    (\<forall>i. vpn va \<le> i \<and> i \<le> vpn (va + sz - 1) \<and> r = 0 \<longrightarrow>
      walkaddr root (of_nat (4096 * i)) s' = Ok (pa + of_nat (4096 * (i - vpn va))) s') \<and>
    (\<forall>i < 67108864. i < vpn va \<or> vpn (va + sz - 1) < i \<longrightarrow> pte_at (mem s') G' i = pte_at (mem s) G i)"
proof -
  obtain r s' F' G' j where M: "mappages root va sz pa perm s = Ok r s'" "table_step s F G s' F' G'"
    "r = 0 \<and> j = Suc (vpn (va + sz - 1)) \<or> r = - 1 \<and> j \<le> vpn (va + sz - 1) \<and> F' = {}" "vpn va \<le> j"
    "\<forall>i < 67108864. pte_at (mem s') G' i =
      (if vpn va \<le> i \<and> i < j then PA2PTE (pa + of_nat (4096 * (i - vpn va))) OR perm OR PTE_V
       else pte_at (mem s) G i)"
    using mappages_correct [OF assms(1-4)] by blast
  have T: "ptable (mem s') G'" "G' [] = Some root"
    using table_step_has_table [OF assms(1) M(2)] by (auto simp: has_table_def)
  have tr: "walkaddr root (of_nat (4096 * i)) s' = Ok (pa + of_nat (4096 * (i - vpn va))) s'"
    if i: "vpn va \<le> i" "i \<le> vpn (va + sz - 1)" "r = 0" for i
  proof -
    let ?pa = "pa + of_nat (4096 * (i - vpn va))"
    have n: "i < 67108864" using i range_vpn [OF assms(2, 3)] by simp
    then have v: "vpn (of_nat (4096 * i) :: u64) = i" by (simp add: unat_page_addr del: of_nat_mult)
    have e: "pte_at (mem s') G' i = PA2PTE ?pa OR (perm OR PTE_V)"
      using M(3, 5) i n by auto
    have "pg_aligned ?pa" by (intro pg_aligned_plus pg_aligned_of_nat assms(5))
    moreover have "perm OR PTE_V < 1024" by (rule or_less_1024) (use assms(6) in simp_all)
    ultimately have "PTE2PA (pte_at (mem s') G' i) = ?pa" unfolding e by (rule PTE2PA_PA2PTE)
    moreover have "pte_at (mem s') G' i AND PTE_V \<noteq> 0" "pte_at (mem s') G' i AND PTE_U \<noteq> 0"
      using assms(7) by (simp_all add: e and_U_iff bit_or_iff)
    ultimately show ?thesis
      using walkaddr_lookup [OF T, of "of_nat (4096 * i)"] page_addr_less [OF n] v
      by (simp add: Let_def del: of_nat_mult)
  qed
  show ?thesis
    using M tr by (intro exI [of _ r] exI [of _ s'] exI [of _ F'] exI [of _ G']) auto
qed

text \<open>A concrete table: the empty one at \<open>0x87ffd000\<close>, with two free pages to grow.\<close>

lemma two_pages_table:
  "has_table two_pages {0x87ffe000, 0x87fff000} [[] \<mapsto> 0x87ffd000] 0x87ffd000"
proof -
  have zero: "mem two_pages x = 0" if "in_page x 0x87ffd000" for x
  proof -
    have "\<not> in_page x 0x87ffe000" "\<not> in_page x 0x87fff000"
      using in_page_disjoint [OF _ _ _ that, of "0x87ffe000"] in_page_disjoint [OF _ _ _ that, of "0x87fff000"]
      by (simp_all add: pg_aligned_def)
    then have "\<not> within x 0x87ffe000 8" "\<not> within x 0x87fff000 8" using within_in_page by blast+
    then show ?thesis by (simp add: two_pages_def write64_out zero_mach_def)
  qed
  have "ptable (mem two_pages) [[] \<mapsto> 0x87ffd000]"
    using entry_zero [OF _ zero] by (auto simp: ptable_def pg_aligned_def split: if_splits)
  then show ?thesis
    using two_pages_inv by (auto simp: has_table_def kmem_free_def)
qed

theorem mappages_translates_witness:
  "\<exists>r s'. mappages 0x87ffd000 0x1000 4096 0x80030000 31 two_pages = Ok r s' \<and>
    (r = 0 \<longrightarrow> walkaddr 0x87ffd000 (of_nat (4096 * 1)) s' = Ok 0x80030000 s')"
proof -
  have "pte_at (mem two_pages) [[] \<mapsto> 0x87ffd000] i = 0" for i by (simp add: pte_at_def)
  then have "\<exists>r s' F' G'. mappages 0x87ffd000 0x1000 4096 0x80030000 31 two_pages = Ok r s' \<and>
    table_step two_pages {0x87ffe000, 0x87fff000} [[] \<mapsto> 0x87ffd000] s' F' G' \<and>
    (r = 0 \<or> r = - 1 \<and> F' = {}) \<and>
    (\<forall>i. vpn 0x1000 \<le> i \<and> i \<le> vpn (0x1000 + 4096 - 1) \<and> r = 0 \<longrightarrow>
      walkaddr 0x87ffd000 (of_nat (4096 * i)) s' = Ok (0x80030000 + of_nat (4096 * (i - vpn 0x1000))) s') \<and>
    (\<forall>i < 67108864. i < vpn 0x1000 \<or> vpn (0x1000 + 4096 - 1) < i \<longrightarrow>
      pte_at (mem s') G' i = pte_at (mem two_pages) [[] \<mapsto> 0x87ffd000] i)"
    by (intro mappages_translates two_pages_table) (simp_all add: pg_aligned_def)
  then show ?thesis by fastforce
qed

end
