(* ===== verification/AddrSpace.thy ===== *)
theory AddrSpace
  imports PageTable
begin

text \<open>
  User address spaces: \<^verbatim>\<open>uvmunmap\<close>, \<^verbatim>\<open>uvmalloc\<close>, \<^verbatim>\<open>uvmdealloc\<close>, \<^verbatim>\<open>uvmcopy\<close>,
  \<^verbatim>\<open>freewalk\<close> and \<^verbatim>\<open>uvmfree\<close> of \<^verbatim>\<open>kernel/vm.c\<close>.  \<open>uspace s F G root U\<close> describes a
  page table with tree \<open>G\<close> whose virtual page \<open>n\<close> is mapped to the physical page
  \<open>U n\<close> it owns: user pages are distinct, and disjoint from the free pages \<open>F\<close> and
  from the pages of the table.
\<close>

unbundle bit_operations_syntax

section \<open>The address-space invariant\<close>

definition leaf :: "u64 \<Rightarrow> u64 \<Rightarrow> bool" where
  "leaf e pa = (e AND PTE_V \<noteq> 0 \<and> PTE_FLAGS e \<noteq> PTE_V \<and> PTE2PA e = pa)"

definition uspace :: "'z kmem_st_scheme \<Rightarrow> u64 set \<Rightarrow> (nat list \<rightharpoonup> u64) \<Rightarrow> u64 \<Rightarrow> (nat \<rightharpoonup> u64) \<Rightarrow> bool" where
  "uspace s F G root U = (has_table s F G root \<and> inj_on U (dom U) \<and>
     (\<forall>n pa. U n = Some pa \<longrightarrow> n < 67108864 \<and> leaf (pte_at (mem s) G n) pa \<and>
        page_ok (kend s) pa \<and> pa \<notin> F \<and> pa \<notin> ran G))"

lemma uspace_page:
  "uspace s F G root U \<Longrightarrow> U n = Some pa \<Longrightarrow> n < 67108864 \<and> leaf (pte_at (mem s) G n) pa \<and>
     page_ok (kend s) pa \<and> pg_aligned pa \<and> pa \<notin> F \<and> pa \<notin> ran G"
  unfolding uspace_def page_ok_def by blast

lemma uspace_inj: "uspace s F G root U \<Longrightarrow> U n = Some pa \<Longrightarrow> U n' = Some pa \<Longrightarrow> n = n'"
  unfolding uspace_def inj_on_def dom_def by (metis (mono_tags) mem_Collect_eq option.distinct(1))

lemma uspace_table: "uspace s F G root U \<Longrightarrow> has_table s F G root"
  by (simp add: uspace_def)

lemma uspaceI:
  assumes "has_table s F G root"
    and "\<And>n n' pa. U n = Some pa \<Longrightarrow> U n' = Some pa \<Longrightarrow> n = n'"
    and "\<And>n pa. U n = Some pa \<Longrightarrow> n < 67108864 \<and> leaf (pte_at (mem s) G n) pa \<and>
        page_ok (kend s) pa \<and> pa \<notin> F \<and> pa \<notin> ran G"
  shows "uspace s F G root U"
proof -
  have "inj_on U (dom U)"
    by (rule inj_onI) (metis assms(2) domD)
  then show ?thesis using assms(1, 3) unfolding uspace_def by blast
qed

text \<open>The leaf entry of a mapped page sits in a leaf table.\<close>

lemma uspace_leaf_table:
  assumes "uspace s F G root U" and "U n = Some pa"
  obtains t where "G [pidx 2 n, pidx 1 n] = Some t" "pte_at (mem s) G n = entry (mem s) t (pidx 0 n)"
    "walk root (of_nat (4096 * n)) False s = Ok (nslot t (pidx 0 n)) s" "nslot t (pidx 0 n) \<noteq> 0"
proof -
  have n: "n < 67108864" and l: "leaf (pte_at (mem s) G n) pa" using uspace_page [OF assms] by auto
  have T: "ptable (mem s) G" "G [] = Some root" using assms(1) by (auto simp: uspace_def has_table_def)
  have v: "vpn (of_nat (4096 * n) :: u64) = n" using n by (simp add: unat_page_addr del: of_nat_mult)
  obtain t where t: "G [pidx 2 n, pidx 1 n] = Some t"
    using l by (cases "G [pidx 2 n, pidx 1 n]") (auto simp: leaf_def pte_at_def)
  have "walk root (of_nat (4096 * n)) False s = Ok (nslot t (pidx 0 n)) s"
    using walk_lookup [OF T page_addr_less [OF n], unfolded v] t by simp
  moreover have "nslot t (pidx 0 n) \<noteq> 0"
    using slot_nonzero ptable_page [OF T(1) t] by simp
  ultimately show thesis using that t by (simp add: pte_at_def)
qed

section \<open>uvmunmap\<close>

lemma uvmunmap_round:
  fixes s :: "'z kmem_st_scheme"
  assumes S: "uspace s F G root U" and U: "U n = Some pa" and lim: "of_nat (4096 * n) < lim"
  shows "\<exists>s'. uvmunmap_loop root (of_nat (4096 * n)) lim True s =
      uvmunmap_loop root (of_nat (4096 * n) + PGSIZE) lim True s' \<and> mem_only s s' \<and>
    uspace s' (insert pa F) G root (U(n := None)) \<and>
    (\<forall>i < 67108864. pte_at (mem s') G i = (if i = n then 0 else pte_at (mem s) G i)) \<and>
    (\<forall>x. \<not> in_page x pa \<and> (\<forall>t \<in> ran G. \<not> in_page x t) \<longrightarrow> mem s' x = mem s x)"
proof -
  obtain t where t: "G [pidx 2 n, pidx 1 n] = Some t" "pte_at (mem s) G n = entry (mem s) t (pidx 0 n)"
    "walk root (of_nat (4096 * n)) False s = Ok (nslot t (pidx 0 n)) s" "nslot t (pidx 0 n) \<noteq> 0"
    using uspace_leaf_table [OF S U] by blast
  note pg = uspace_page [OF S U]
  have n: "n < 67108864" and l: "leaf (entry (mem s) t (pidx 0 n)) pa" using pg t(2) by auto
  have T: "has_table s F G root" by (rule uspace_table [OF S])
  then have F: "kmem_free s F" and G: "ptable (mem s) G" by (auto simp: has_table_def)
  obtain s1 where s1: "kfree pa s = Ok () s1" "kmem_free s1 (insert pa F)" "mem_only s s1" "kend s1 = kend s"
    "\<forall>x. \<not> in_page x pa \<longrightarrow> mem s1 x = mem s x"
    using kmem_free_kfree [OF F] pg by blast
  have same: "mem s1 x = mem s x" if "u \<in> ran G" "in_page x u" for x u
  proof -
    have "u \<noteq> pa" "pg_aligned u" using that pg ran_page [OF G] by auto
    then have "\<not> in_page x pa" using in_page_disjoint that pg by blast
    then show ?thesis using s1(5) by simp
  qed
  have G1: "ptable (mem s1) G" and ptes: "\<And>i. pte_at (mem s1) G i = pte_at (mem s) G i"
    using ptable_frame [OF G same] by auto
  have T1: "has_table s1 (insert pa F) G root"
    using T s1 G1 pg by (auto simp: has_table_def)
  let ?s = "s1\<lparr>mem := write64 (mem s1) (nslot t (pidx 0 n)) 0\<rparr>"
  have step: "table_step s1 (insert pa F) G ?s (insert pa F) G" by (rule set_leaf_step [OF T1 t(1) n])
  have ptes': "pte_at (mem ?s) G i = (if i = n then 0 else pte_at (mem s) G i)" if "i < 67108864" for i
    using ptable_set_leaf(2) [where G = G and m = "mem s1" and t = t and n = n and v = 0] that n t(1) G1 ptes
    by simp
  have "uspace ?s (insert pa F) G root (U(n := None))"
  proof (rule uspaceI)
    show "has_table ?s (insert pa F) G root" by (rule table_step_has_table [OF T1 step])
  next
    fix i j pa' assume "(U(n := None)) i = Some pa'" "(U(n := None)) j = Some pa'"
    then show "i = j" using uspace_inj [OF S] by (auto split: if_splits)
  next
    fix i pa' assume "(U(n := None)) i = Some pa'"
    then have i: "i \<noteq> n" "U i = Some pa'" by (auto split: if_splits)
    then have "pa' \<noteq> pa" using uspace_inj [OF S U] by auto
    then show "i < 67108864 \<and> leaf (pte_at (mem ?s) G i) pa' \<and> page_ok (kend ?s) pa' \<and>
        pa' \<notin> insert pa F \<and> pa' \<notin> ran G"
      using uspace_page [OF S i(2)] ptes' [of i] i(1) s1(4) by simp
  qed
  moreover have "uvmunmap_loop root (of_nat (4096 * n)) lim True s =
      uvmunmap_loop root (of_nat (4096 * n) + PGSIZE) lim True ?s"
    using lim t l s1 by (subst uvmunmap_loop.simps)
      (simp add: mon_simps get_pte_def set_pte_def leaf_def del: of_nat_mult)
  moreover have "mem_only s ?s" using s1(3) mem_only_upd(1) by (rule mem_only_trans)
  moreover have "mem ?s x = mem s x" if "\<not> in_page x pa" "\<forall>t \<in> ran G. \<not> in_page x t" for x
    using step that s1(5) by (simp add: table_step_def)
  ultimately show ?thesis using ptes' by blast
qed

text \<open>The pages that \<open>U\<close> maps between virtual pages \<open>n\<close> and \<open>n + k\<close>.\<close>

definition upages :: "(nat \<rightharpoonup> u64) \<Rightarrow> nat \<Rightarrow> nat \<Rightarrow> u64 set" where
  "upages U n m = {pa. \<exists>i. n \<le> i \<and> i < m \<and> U i = Some pa}"

lemma upages_step: "U n = Some pa \<Longrightarrow> n < m \<Longrightarrow> upages U n m = insert pa (upages (U(n := None)) (Suc n) m)"
proof (intro set_eqI iffI)
  fix q assume "U n = Some pa" "n < m" "q \<in> upages U n m"
  then obtain i where i: "n \<le> i" "i < m" "U i = Some q" by (auto simp: upages_def)
  show "q \<in> insert pa (upages (U(n := None)) (Suc n) m)"
  proof (cases "i = n")
    case True
    then show ?thesis using i \<open>U n = Some pa\<close> by simp
  next
    case False
    then show ?thesis using i by (auto simp: upages_def intro!: exI [of _ i])
  qed
next
  fix q assume "U n = Some pa" "n < m" "q \<in> insert pa (upages (U(n := None)) (Suc n) m)"
  then show "q \<in> upages U n m" by (auto simp: upages_def split: if_splits intro: Suc_leD)
qed

lemma upages_empty [simp]: "upages U n n = {}"
  by (simp add: upages_def)

lemma uvmunmap_loop_correct:
  fixes s :: "'z kmem_st_scheme"
  assumes "uspace s F G root U" and "{n..<n + k} \<subseteq> dom U" and "n + k \<le> 67108864"
  shows "\<exists>s'. uvmunmap_loop root (of_nat (4096 * n)) (of_nat (4096 * (n + k))) True s = Ok () s' \<and>
    mem_only s s' \<and> uspace s' (F \<union> upages U n (n + k)) G root (U |` (- {n..<n + k})) \<and>
    (\<forall>i < 67108864. pte_at (mem s') G i = (if n \<le> i \<and> i < n + k then 0 else pte_at (mem s) G i)) \<and>
    (\<forall>x. (\<forall>t \<in> ran G \<union> upages U n (n + k). \<not> in_page x t) \<longrightarrow> mem s' x = mem s x)"
  using assms
proof (induction k arbitrary: s F U n)
  case 0
  have "U |` (- {n..<n + 0}) = U" by (auto simp: restrict_map_def)
  with 0 show ?case by (subst uvmunmap_loop.simps) auto
next
  case (Suc k)
  let ?lim = "of_nat (4096 * (n + Suc k)) :: u64"
  obtain pa where pa: "U n = Some pa" using Suc.prems(2) by force
  have "(of_nat (4096 * n) :: u64) < ?lim"
    using unat_page_addr [of n] unat_page_addr [of "n + Suc k"] Suc.prems(3)
    by (simp only: word_less_nat_alt) simp
  from uvmunmap_round [OF Suc.prems(1) pa this] obtain s1 where
    s1: "uvmunmap_loop root (of_nat (4096 * n)) ?lim True s =
          uvmunmap_loop root (of_nat (4096 * n) + PGSIZE) ?lim True s1" "mem_only s s1"
        "uspace s1 (insert pa F) G root (U(n := None))"
        "\<forall>i < 67108864. pte_at (mem s1) G i = (if i = n then 0 else pte_at (mem s) G i)"
        "\<forall>x. \<not> in_page x pa \<and> (\<forall>t \<in> ran G. \<not> in_page x t) \<longrightarrow> mem s1 x = mem s x" by blast
  have "{Suc n..<Suc n + k} \<subseteq> {n..<n + Suc k} - {n}" by auto
  also have "\<dots> \<subseteq> dom (U(n := None))" using Suc.prems(2) by (simp only: dom_fun_upd) auto
  finally have "{Suc n..<Suc n + k} \<subseteq> dom (U(n := None))" .
  moreover have "Suc n + k \<le> 67108864" using Suc.prems(3) by simp
  ultimately obtain s' where
    s': "uvmunmap_loop root (of_nat (4096 * Suc n)) (of_nat (4096 * (Suc n + k))) True s1 = Ok () s'"
      "mem_only s1 s'" "uspace s' (insert pa F \<union> upages (U(n := None)) (Suc n) (Suc n + k)) G root
        ((U(n := None)) |` (- {Suc n..<Suc n + k}))"
      "\<forall>i < 67108864. pte_at (mem s') G i = (if Suc n \<le> i \<and> i < Suc n + k then 0 else pte_at (mem s1) G i)"
      "\<forall>x. (\<forall>t \<in> ran G \<union> upages (U(n := None)) (Suc n) (Suc n + k). \<not> in_page x t) \<longrightarrow> mem s' x = mem s1 x"
    using Suc.IH [OF s1(3)] by blast
  have up: "upages U n (n + Suc k) = insert pa (upages (U(n := None)) (Suc n) (Suc n + k))"
    using upages_step [of U n pa "n + Suc k"] pa by simp
  have res: "(U(n := None)) |` (- {Suc n..<Suc n + k}) = U |` (- {n..<n + Suc k})"
    by (auto simp: restrict_map_def fun_eq_iff)
  have "uvmunmap_loop root (of_nat (4096 * n)) ?lim True s = Ok () s'"
    using s1(1) s'(1) by (simp add: ac_simps)
  moreover have "mem_only s s'" using s1(2) s'(2) by (rule mem_only_trans)
  moreover have "uspace s' (F \<union> upages U n (n + Suc k)) G root (U |` (- {n..<n + Suc k}))"
    using s'(3) unfolding res up by (simp only: Un_insert_left Un_insert_right)
  moreover have "\<forall>i < 67108864. pte_at (mem s') G i = (if n \<le> i \<and> i < n + Suc k then 0 else pte_at (mem s) G i)"
    using s'(4) s1(4) by auto
  moreover have "mem s' x = mem s x" if "\<forall>t \<in> ran G \<union> upages U n (n + Suc k). \<not> in_page x t" for x
    using that s'(5) s1(5) unfolding up by auto
  ultimately show ?case by blast
qed

lemma uvmunmap_correct:
  fixes s :: "'z kmem_st_scheme"
  assumes "uspace s F G root U" and "{n..<n + k} \<subseteq> dom U" and "n + k \<le> 67108864"
  shows "\<exists>s'. uvmunmap root (of_nat (4096 * n)) (of_nat k) True s = Ok () s' \<and>
    mem_only s s' \<and> uspace s' (F \<union> upages U n (n + k)) G root (U |` (- {n..<n + k})) \<and>
    (\<forall>i < 67108864. pte_at (mem s') G i = (if n \<le> i \<and> i < n + k then 0 else pte_at (mem s) G i)) \<and>
    (\<forall>x. (\<forall>t \<in> ran G \<union> upages U n (n + k). \<not> in_page x t) \<longrightarrow> mem s' x = mem s x)"
proof -
  have "(of_nat (4096 * n) :: u64) mod 4096 = 0"
    unfolding pg_aligned_mod by (rule pg_aligned_of_nat)
  moreover have "of_nat (4096 * n) + of_nat k * PGSIZE = (of_nat (4096 * (n + k)) :: u64)"
    by (simp add: algebra_simps)
  ultimately show ?thesis
    using uvmunmap_loop_correct [OF assms] by (simp only: uvmunmap_def if_False not_False_eq_True simp_thms)
qed

section \<open>uvmdealloc\<close>

text \<open>The number of pages a process of \<open>sz\<close> bytes has.\<close>

definition npages :: "u64 \<Rightarrow> nat" where
  "npages sz = (unat sz + 4095) div 4096"

lemma PGROUNDUP_npages: "unat sz \<le> 274877906944 \<Longrightarrow> PGROUNDUP sz = of_nat (4096 * npages sz)"
proof -
  assume "unat sz \<le> 274877906944"
  then have "unat (PGROUNDUP sz) = 4096 * npages sz"
    using PGROUNDUP_unat [of sz] by (simp add: npages_def)
  then have "(of_nat (unat (PGROUNDUP sz)) :: u64) = of_nat (4096 * npages sz)" by (rule arg_cong)
  then show ?thesis by (simp del: of_nat_mult)
qed

lemma npages_bound: "unat sz \<le> 274877906944 \<Longrightarrow> npages sz \<le> 67108864"
  by (simp add: npages_def div_le_mono [of "unat sz + 4095" "274877911039" 4096, simplified])

lemma npages_gt: "i < npages sz \<Longrightarrow> 4096 * i < unat sz"
  by (simp add: npages_def less_eq_div_iff_mult_less_eq flip: Suc_le_eq)

lemma npages_mono: "a \<le> b \<Longrightarrow> npages a \<le> npages b"
  by (simp add: npages_def word_le_nat_alt div_le_mono)

lemma scast_ucast_small:
  assumes "k < 2147483648"
  shows "scast (ucast (of_nat k :: u64) :: u32) = (of_nat k :: u64)"
proof -
  have "(ucast (of_nat k :: u64) :: u32) = of_nat k"
    using assms by (simp add: word_eq_unat unsigned_ucast_eq unat_of_nat take_bit_nat_eq_self)
  moreover have "sint (of_nat k :: u32) = int k"
    using assms by (simp add: signed_of_nat signed_take_bit_int_eq_self)
  ultimately show ?thesis by (simp add: scast_eq)
qed

lemma page_addr_diff:
  assumes "m \<le> n" and "n \<le> 67108864"
  shows "(of_nat (4096 * n) - of_nat (4096 * m)) div 4096 = (of_nat (n - m) :: u64)"
proof -
  have d: "(of_nat (4096 * n) :: u64) - of_nat (4096 * m) = of_nat (4096 * (n - m))"
    using assms by (simp add: of_nat_diff algebra_simps)
  have "unat ((of_nat (4096 * (n - m)) :: u64) div 4096) = n - m"
    using unat_page_addr [of "n - m"] assms by (simp add: unat_div_distrib del: of_nat_mult)
  moreover have "unat (of_nat (n - m) :: u64) = n - m" using assms by (intro unat_of_nat_lt) simp
  ultimately show ?thesis unfolding d by (simp only: word_eq_unat)
qed

lemma uvmdealloc_correct:
  fixes s :: "'z kmem_st_scheme"
  assumes S: "uspace s F G root U" and lt: "newsz \<le> oldsz" and old: "unat oldsz \<le> 274877906944"
    and U: "{npages newsz..<npages oldsz} \<subseteq> dom U"
  shows "\<exists>s'. uvmdealloc root oldsz newsz s = Ok newsz s' \<and>
    mem_only s s' \<and> uspace s' (F \<union> upages U (npages newsz) (npages oldsz)) G root
      (U |` (- {npages newsz..<npages oldsz})) \<and>
    (\<forall>i < 67108864. pte_at (mem s') G i =
      (if npages newsz \<le> i \<and> i < npages oldsz then 0 else pte_at (mem s) G i)) \<and>
    (\<forall>x. (\<forall>t \<in> ran G \<union> upages U (npages newsz) (npages oldsz). \<not> in_page x t) \<longrightarrow> mem s' x = mem s x)"
    (is "\<exists>s'. _ \<and> ?Q s'")
proof (cases "npages newsz < npages oldsz")
  case True
  define k where "k = npages oldsz - npages newsz"
  have k: "npages oldsz = npages newsz + k" "npages newsz + k \<le> 67108864" "k < 2147483648"
    using True npages_bound [OF old] by (auto simp: k_def)
  have new: "unat newsz \<le> 274877906944" using lt old by (simp add: word_le_nat_alt)
  have round: "PGROUNDUP oldsz = of_nat (4096 * (npages newsz + k))" "PGROUNDUP newsz = of_nat (4096 * npages newsz)"
    using PGROUNDUP_npages [OF old] PGROUNDUP_npages [OF new] k by simp_all
  have less: "PGROUNDUP newsz < PGROUNDUP oldsz"
    using True k unat_page_addr [of "npages newsz"] unat_page_addr [of "npages newsz + k"]
    by (simp add: round word_less_nat_alt del: of_nat_mult)
  have ne: "newsz < oldsz" using True lt by (cases "newsz = oldsz") auto
  have "(PGROUNDUP oldsz - PGROUNDUP newsz) div PGSIZE = of_nat k"
    using page_addr_diff [of "npages newsz" "npages newsz + k"] k by (simp add: round del: of_nat_mult)
  then have n: "scast (ucast ((PGROUNDUP oldsz - PGROUNDUP newsz) div PGSIZE) :: u32) = (of_nat k :: u64)"
    by (simp only: scast_ucast_small [OF k(3)])
  from uvmunmap_correct [OF S _ k(2)] U obtain s' where
    "uvmunmap root (of_nat (4096 * npages newsz)) (of_nat k) True s = Ok () s'" "?Q s'"
    unfolding k(1) by blast
  then have "uvmdealloc root oldsz newsz s = Ok newsz s'"
    using ne less n by (auto simp: uvmdealloc_def round(2) mon_simps simp del: of_nat_mult)
  then show ?thesis using \<open>?Q s'\<close> by blast
next
  case False
  then have eq: "npages newsz = npages oldsz" using npages_mono [OF lt] by simp
  have new: "unat newsz \<le> 274877906944" using lt old by (simp add: word_le_nat_alt)
  have "\<not> PGROUNDUP newsz < PGROUNDUP oldsz"
    by (simp add: PGROUNDUP_npages old new eq)
  then have "uvmdealloc root oldsz newsz s = Ok newsz s"
    using lt by (auto simp: uvmdealloc_def mon_simps)
  moreover have "U |` (- {npages oldsz..<npages oldsz}) = U" by (auto simp: restrict_map_def)
  ultimately show ?thesis using S by (auto simp: eq)
qed

section \<open>Mapping a fresh page\<close>

text \<open>An address space is untouched by changes outside its own pages and the free list.\<close>

lemma uspace_change:
  assumes S: "uspace s F G root U" and F': "kmem_free s' F'" and ke: "kend s' = kend s"
    and tab: "\<And>x t. t \<in> ran G \<Longrightarrow> in_page x t \<Longrightarrow> mem s' x = mem s x"
    and dG: "ran G \<inter> F' = {}" and dU: "ran U \<inter> F' = {}"
  shows "uspace s' F' G root U" "pte_at (mem s') G n = pte_at (mem s) G n"
proof -
  have G: "ptable (mem s) G" "G [] = Some root" using uspace_table [OF S] by (simp_all add: has_table_def)
  have G': "ptable (mem s') G" and ptes: "\<And>n. pte_at (mem s') G n = pte_at (mem s) G n"
    using ptable_frame [OF G(1) tab] by auto
  show "uspace s' F' G root U"
  proof (rule uspaceI)
    show "has_table s' F' G root" using F' G' G(2) dG by (simp add: has_table_def)
    show "\<And>n n' pa. U n = Some pa \<Longrightarrow> U n' = Some pa \<Longrightarrow> n = n'" using uspace_inj [OF S] by blast
    show "\<And>n pa. U n = Some pa \<Longrightarrow> n < 67108864 \<and> leaf (pte_at (mem s') G n) pa \<and>
        page_ok (kend s') pa \<and> pa \<notin> F' \<and> pa \<notin> ran G"
      using uspace_page [OF S] ptes ke dU by (auto simp: ran_def)
  qed
  show "pte_at (mem s') G n = pte_at (mem s) G n" by (rule ptes)
qed

lemma table_same:
  assumes "has_table s F G root" and "pg_aligned p" and "p \<notin> ran G"
    and "\<And>x. \<not> in_page x p \<Longrightarrow> m x = mem s x" and "t \<in> ran G" and "in_page x t"
  shows "m x = mem s x"
proof -
  have "pg_aligned t" "t \<noteq> p" using assms(1, 3, 5) ran_page by (auto simp: has_table_def)
  then show ?thesis using assms(2, 4, 6) in_page_disjoint by blast
qed

lemma uspace_kfree:
  assumes S: "uspace s F G root U" and p: "page_ok (kend s) p" "p \<notin> F" "p \<notin> ran G" "p \<notin> ran U"
  obtains s' where "kfree p s = Ok () s'" "mem_only s s'" "uspace s' (insert p F) G root U"
    "\<forall>n. pte_at (mem s') G n = pte_at (mem s) G n" "\<forall>x. \<not> in_page x p \<longrightarrow> mem s' x = mem s x"
proof -
  have T: "has_table s F G root" by (rule uspace_table [OF S])
  then obtain s' where s': "kfree p s = Ok () s'" "kmem_free s' (insert p F)" "mem_only s s'" "kend s' = kend s"
      "\<forall>x. \<not> in_page x p \<longrightarrow> mem s' x = mem s x"
    using kmem_free_kfree [of s F p] p by (auto simp: has_table_def)
  have al: "pg_aligned p" using p by (simp add: page_ok_def)
  have "ran G \<inter> insert p F = {}" using T p by (auto simp: has_table_def)
  moreover have "ran U \<inter> insert p F = {}" using uspace_page [OF S] p by (auto simp: ran_def)
  moreover have "mem s' x = mem s x" if "t \<in> ran G" "in_page x t" for t x
    by (rule table_same [OF T al p(3) _ that]) (use s'(5) in blast)
  ultimately show thesis using that s' uspace_change [OF S s'(2, 4)] by blast
qed

lemma map_page:
  assumes S: "uspace s F G root U" and p: "p \<in> F" and n: "n < 67108864" "pte_at (mem s) G n AND PTE_V = 0"
    and s2: "kmem_free s2 (F - {p})" "mem_only s s2" "\<forall>x. \<not> in_page x p \<longrightarrow> mem s2 x = mem s x"
    and perm: "perm OR PTE_V \<noteq> PTE_V" "perm < 1024"
  obtains r s' F' G' where "mappages root (of_nat (4096 * n)) PGSIZE p perm s2 = Ok r s'" "mem_only s s'"
    "G \<subseteq>\<^sub>m G'" "F' \<subseteq> F - {p}" "ran G' = ran G \<union> (F - {p} - F')"
    "\<forall>x. (\<forall>t \<in> ran G \<union> F. \<not> in_page x t) \<longrightarrow> mem s' x = mem s x"
    "\<forall>x. in_page x p \<longrightarrow> mem s' x = mem s2 x"
    "r = 0 \<and> uspace s' F' G' root (U(n \<mapsto> p)) \<and>
      (\<forall>i < 67108864. pte_at (mem s') G' i = (if i = n then PA2PTE p OR perm OR PTE_V else pte_at (mem s) G i)) \<or>
     r = - 1 \<and> F' = {} \<and> uspace s' F' G' root U \<and> (\<forall>i < 67108864. pte_at (mem s') G' i = pte_at (mem s) G i)"
proof -
  let ?a = "of_nat (4096 * n) :: u64"
  have T: "has_table s F G root" by (rule uspace_table [OF S])
  then have F: "kmem_free s F" and dis: "ran G \<inter> F = {}" by (auto simp: has_table_def)
  have ok: "page_ok (kend s) p" "pg_aligned p" "p \<notin> ran G" "p \<notin> ran U"
    using km.free_set_valid [OF F p] km.valid_aligned [OF F] dis p uspace_page [OF S] by (auto simp: ran_def)
  have ke: "kend s2 = kend s" by (rule mem_only_kend [OF s2(2)])
  have disU: "ran U \<inter> (F - {p}) = {}" using uspace_page [OF S] by (auto simp: ran_def)
  have disG: "ran G \<inter> (F - {p}) = {}" using dis by auto
  have same: "\<And>x t. t \<in> ran G \<Longrightarrow> in_page x t \<Longrightarrow> mem s2 x = mem s x"
    using table_same [OF T ok(2, 3), of "mem s2"] s2(3) by blast
  have S2: "uspace s2 (F - {p}) G root U" and ptes2: "\<And>n. pte_at (mem s2) G n = pte_at (mem s) G n"
    using uspace_change [OF S s2(1) ke same disG disU] by auto
  have T2: "has_table s2 (F - {p}) G root" by (rule uspace_table [OF S2])
  have a: "unat ?a = 4096 * n" using n by (simp add: unat_page_addr del: of_nat_mult)
  then have va: "vpn ?a = n" by simp
  have last: "vpn (?a + 4096 - 1) = n"
  proof -
    have u: "unat (?a + 4095) = 4096 * n + 4095" using unat_add_nowrap [of ?a 4095] a n by simp
    have e: "?a + 4096 - 1 = ?a + 4095" by simp
    show ?thesis unfolding e u by simp
  qed
  have size: "unat ?a + unat (4096 :: u64) \<le> 274877906944" using a n by simp
  have un: "\<forall>i. n \<le> i \<and> i \<le> n \<longrightarrow> pte_at (mem s2) G i AND PTE_V = 0"
    using n(2) ptes2 by auto
  obtain r s' F' G' j where M: "mappages root ?a PGSIZE p perm s2 = Ok r s'" "table_step s2 (F - {p}) G s' F' G'"
    "r = 0 \<and> j = Suc n \<or> r = - 1 \<and> j \<le> n \<and> F' = {}" "n \<le> j"
    "\<forall>i < 67108864. pte_at (mem s') G' i =
      (if n \<le> i \<and> i < j then PA2PTE (p + of_nat (4096 * (i - n))) OR perm OR PTE_V else pte_at (mem s2) G i)"
    by (rule mappages_correct [OF T2 _ size, unfolded va last, OF _ un, of p perm]) simp_all
  have T': "has_table s' F' G' root" by (rule table_step_has_table [OF T2 M(2)])
  have st: "mem_only s2 s'" "G \<subseteq>\<^sub>m G'" "F' \<subseteq> F - {p}" "ran G' = ran G \<union> (F - {p} - F')"
    "\<forall>x. (\<forall>t \<in> ran G'. \<not> in_page x t) \<longrightarrow> mem s' x = mem s2 x"
    using M(2) by (simp_all add: table_step_def)
  have p': "p \<notin> ran G'" "p \<notin> F'" using st ok dis p by auto
  have mo: "mem_only s s'" using s2(2) st(1) by (rule mem_only_trans)
  have pg: "i < 67108864 \<and> leaf (pte_at (mem s) G i) pa \<and> page_ok (kend s') pa \<and> pa \<notin> F' \<and> pa \<notin> ran G' \<and> i \<noteq> n \<and> pa \<noteq> p"
    if "U i = Some pa" for i pa
    using uspace_page [OF S that] st mem_only_kend [OF mo] n(2) ok(4) p that by (auto simp: leaf_def ran_def)
  have frame: "mem s' x = mem s x" if "\<forall>t \<in> ran G \<union> F. \<not> in_page x t" for x
    using that st(3-5) s2(3) p by auto
  have content: "mem s' x = mem s2 x" if "in_page x p" for x
  proof -
    have "\<not> in_page x t" if "t \<in> ran G'" for t
      using that p' ran_page [of "mem s'" G' t] T' in_page_disjoint [OF ok(2) _ _ \<open>in_page x p\<close>]
      by (auto simp: has_table_def)
    then show ?thesis using st(5) by blast
  qed
  from M(3) have "r = 0 \<and> uspace s' F' G' root (U(n \<mapsto> p)) \<and>
      (\<forall>i < 67108864. pte_at (mem s') G' i = (if i = n then PA2PTE p OR perm OR PTE_V else pte_at (mem s) G i)) \<or>
     r = - 1 \<and> F' = {} \<and> uspace s' F' G' root U \<and> (\<forall>i < 67108864. pte_at (mem s') G' i = pte_at (mem s) G i)"
  proof (elim disjE conjE)
    assume r: "r = 0" "j = Suc n"
    have ptes: "pte_at (mem s') G' i = (if i = n then PA2PTE p OR perm OR PTE_V else pte_at (mem s) G i)"
      if "i < 67108864" for i
      using M(5) r that ptes2 by (auto simp: less_Suc_eq_le)
    have "perm OR 1 < 1024" by (rule or_less_1024) (use perm in simp_all)
    then have "leaf (PA2PTE p OR (perm OR 1)) p"
      using ok perm by (simp add: leaf_def PTE2PA_PA2PTE PTE_FLAGS_PA2PTE)
    moreover have "U i \<noteq> Some p" for i using pg by blast
    ultimately have "uspace s' F' G' root (U(n \<mapsto> p))"
      using T' n pg ptes p' ok(1) mem_only_kend [OF mo] uspace_inj [OF S]
      by (intro uspaceI) (auto split: if_splits simp: or.assoc)
    then show ?thesis using r ptes by blast
  next
    assume r: "r = - 1" "j \<le> n" "F' = {}"
    then have ptes: "\<forall>i < 67108864. pte_at (mem s') G' i = pte_at (mem s) G i" using M(5) ptes2 by auto
    then have "uspace s' F' G' root U"
      using T' pg uspace_inj [OF S] by (intro uspaceI) auto
    then show ?thesis using r ptes by blast
  qed
  then show thesis using that M(1) mo st(2-4) frame content by blast
qed

section \<open>uvmalloc\<close>

text \<open>
  \<open>grown s F G U n0 i s' F' G' U'\<close>: from \<open>s\<close>, the virtual pages from \<open>n0\<close> to \<open>i\<close> have
  been mapped to fresh zeroed pages; nothing else of the address space has changed
  and no page has been lost.
\<close>

definition grown :: "'z kmem_st_scheme \<Rightarrow> u64 set \<Rightarrow> (nat list \<rightharpoonup> u64) \<Rightarrow> u64 \<Rightarrow> (nat \<rightharpoonup> u64) \<Rightarrow> nat \<Rightarrow> nat \<Rightarrow>
    'z kmem_st_scheme \<Rightarrow> u64 set \<Rightarrow> (nat list \<rightharpoonup> u64) \<Rightarrow> (nat \<rightharpoonup> u64) \<Rightarrow> bool" where
  "grown s F G root U n0 i s' F' G' U' = (mem_only s s' \<and> uspace s' F' G' root U' \<and> G \<subseteq>\<^sub>m G' \<and>
     F' \<subseteq> F \<and> ran G' \<subseteq> ran G \<union> F \<and> F' \<union> ran G' \<union> ran U' = F \<union> ran G \<union> ran U \<and>
     (\<forall>j. (n0 \<le> j \<and> j < i \<longrightarrow> (\<exists>p \<in> F. U' j = Some p \<and> (\<forall>x. in_page x p \<longrightarrow> mem s' x = 0))) \<and>
          (\<not> (n0 \<le> j \<and> j < i) \<longrightarrow> U' j = U j)) \<and>
     (\<forall>j < 67108864. if n0 \<le> j \<and> j < i
        then pte_at (mem s') G' j = PA2PTE (the (U' j)) OR (PTE_W OR PTE_X OR PTE_R OR PTE_U) OR PTE_V
        else pte_at (mem s') G' j = pte_at (mem s) G j) \<and>
     (\<forall>x. (\<forall>t \<in> ran G \<union> F. \<not> in_page x t) \<longrightarrow> mem s' x = mem s x))"

lemma grown_refl: "uspace s F G root U \<Longrightarrow> grown s F G root U n n s F G U"
  by (auto simp: grown_def)

text \<open>What is left when growing failed: the old address space, perhaps with more table pages.\<close>

definition restored :: "'z kmem_st_scheme \<Rightarrow> u64 set \<Rightarrow> (nat list \<rightharpoonup> u64) \<Rightarrow> u64 \<Rightarrow> (nat \<rightharpoonup> u64) \<Rightarrow> nat \<Rightarrow>
    'z kmem_st_scheme \<Rightarrow> u64 set \<Rightarrow> (nat list \<rightharpoonup> u64) \<Rightarrow> bool" where
  "restored s F G root U n0 s' F' G' = (mem_only s s' \<and> uspace s' F' G' root U \<and> G \<subseteq>\<^sub>m G' \<and>
     F' \<union> ran G' \<union> ran U = F \<union> ran G \<union> ran U \<and>
     (\<forall>j < 67108864. pte_at (mem s') G' j = pte_at (mem s) G j \<or> n0 \<le> j \<and> U j = None \<and> pte_at (mem s') G' j = 0) \<and>
     (\<forall>x. (\<forall>t \<in> ran G \<union> F. \<not> in_page x t) \<longrightarrow> mem s' x = mem s x))"

lemma unat_of_nat_page: "i \<le> 67108864 \<Longrightarrow> npages (of_nat (4096 * i)) = i"
  by (simp add: npages_def unat_page_addr div_nat_eqI del: of_nat_mult)

text \<open>Undoing the growth.\<close>

lemma grown_dealloc:
  assumes g: "grown s F G root U n0 i s1 F1 G1 U1" and i: "n0 \<le> i" "i \<le> 67108864"
    and U: "\<forall>j. n0 \<le> j \<and> j < i \<longrightarrow> U j = None"
  shows "\<exists>s' F'. uvmdealloc root (of_nat (4096 * i)) (of_nat (4096 * n0)) s1 = Ok (of_nat (4096 * n0)) s' \<and>
    restored s F G root U n0 s' F' G1"
proof -
  have S1: "uspace s1 F1 G1 root U1" using g by (simp add: grown_def)
  have le: "(of_nat (4096 * n0) :: u64) \<le> of_nat (4096 * i)"
    using i by (simp add: word_le_nat_alt unat_page_addr del: of_nat_mult)
  have np: "npages (of_nat (4096 * i)) = i" "npages (of_nat (4096 * n0)) = n0"
    using i unat_of_nat_page by (simp_all del: of_nat_mult)
  have dom: "{n0..<i} \<subseteq> dom U1" using g by (fastforce simp: grown_def)
  have b: "unat (of_nat (4096 * i) :: u64) \<le> 274877906944" using i by (simp add: unat_page_addr del: of_nat_mult)
  have up: "upages U1 n0 i \<subseteq> F"
  proof
    fix q assume "q \<in> upages U1 n0 i"
    then obtain j where "n0 \<le> j" "j < i" "U1 j = Some q" by (auto simp: upages_def)
    then show "q \<in> F" using g unfolding grown_def by force
  qed
  obtain s' where s': "uvmdealloc root (of_nat (4096 * i)) (of_nat (4096 * n0)) s1 = Ok (of_nat (4096 * n0)) s'"
    "mem_only s1 s'" "uspace s' (F1 \<union> upages U1 n0 i) G1 root (U1 |` (- {n0..<i}))"
    "\<forall>j < 67108864. pte_at (mem s') G1 j = (if n0 \<le> j \<and> j < i then 0 else pte_at (mem s1) G1 j)"
    "\<forall>x. (\<forall>t \<in> ran G1 \<union> upages U1 n0 i. \<not> in_page x t) \<longrightarrow> mem s' x = mem s1 x"
    using uvmdealloc_correct [OF S1 le b, unfolded np, OF dom] by blast
  have res: "U1 |` (- {n0..<i}) = U"
    using g U by (auto simp: grown_def restrict_map_def fun_eq_iff)
  have ran: "ran U1 = ran U \<union> upages U1 n0 i"
  proof -
    have "U1 j = Some q \<longleftrightarrow> (n0 \<le> j \<and> j < i \<and> U1 j = Some q) \<or> U j = Some q" for j q
      using g U unfolding grown_def by (metis option.distinct(1))
    then show ?thesis by (auto simp: ran_def upages_def)
  qed
  have "restored s F G root U n0 s' (F1 \<union> upages U1 n0 i) G1"
    unfolding restored_def
  proof (intro conjI allI impI)
    show "mem_only s s'" using g s'(2) mem_only_trans by (auto simp: grown_def)
    show "uspace s' (F1 \<union> upages U1 n0 i) G1 root U" using s'(3) by (simp only: res)
    show "F1 \<union> upages U1 n0 i \<union> ran G1 \<union> ran U = F \<union> ran G \<union> ran U"
      using g ran by (auto simp: grown_def)
    show "pte_at (mem s') G1 j = pte_at (mem s) G j \<or> n0 \<le> j \<and> U j = None \<and> pte_at (mem s') G1 j = 0"
      if "j < 67108864" for j
      using s'(4) g U that unfolding grown_def by auto
    show "mem s' x = mem s x" if "\<forall>t \<in> ran G \<union> F. \<not> in_page x t" for x
    proof -
      have "ran G1 \<subseteq> ran G \<union> F" using g by (simp add: grown_def)
      then have "\<forall>t \<in> ran G1 \<union> upages U1 n0 i. \<not> in_page x t" using that up by blast
      then have "mem s' x = mem s1 x" using s'(5) by blast
      also have "\<dots> = mem s x" using that g by (simp add: grown_def)
      finally show ?thesis .
    qed
  qed (use g in \<open>simp add: grown_def\<close>)
  then show ?thesis using s'(1) by blast
qed

lemma grown_keep:
  assumes g: "grown s F G root U n0 i s1 F1 G1 U1"
    and frame: "\<forall>x. (\<forall>t \<in> ran G1 \<union> F1. \<not> in_page x t) \<longrightarrow> mem s' x = mem s1 x"
    and j: "n0 \<le> j" "j < i" "U1 j = Some q" "in_page x q"
  shows "mem s' x = 0"
proof -
  have S1: "uspace s1 F1 G1 root U1" using g by (simp add: grown_def)
  have q: "pg_aligned q" "q \<notin> F1" "q \<notin> ran G1" using uspace_page [OF S1 j(3)] by auto
  have F1: "kmem_free s1 F1" and G1: "ptable (mem s1) G1"
    using uspace_table [OF S1] by (auto simp: has_table_def)
  have "\<not> in_page x t" if t: "t \<in> ran G1 \<union> F1" for t
  proof -
    have "pg_aligned t" "t \<noteq> q"
      using t q ran_page [OF G1] km.valid_aligned [OF F1] km.free_set_valid [OF F1] by auto
    then show ?thesis using in_page_disjoint [OF q(1) _ _ j(4)] by blast
  qed
  then have "mem s' x = mem s1 x" using frame by blast
  also have "\<dots> = 0" using g j unfolding grown_def by force
  finally show ?thesis .
qed

lemma grown_same:
  assumes g: "grown s F G root U n0 i s1 F1 G1 U1"
    and S': "uspace s' F' G' root U1" and mo: "mem_only s1 s'" and le: "G1 \<subseteq>\<^sub>m G'"
    and F': "F' \<subseteq> F1" "F' \<union> ran G' = F1 \<union> ran G1"
    and frame: "\<forall>x. (\<forall>t \<in> ran G1 \<union> F1. \<not> in_page x t) \<longrightarrow> mem s' x = mem s1 x"
    and ptes: "\<forall>j < 67108864. pte_at (mem s') G' j = pte_at (mem s1) G1 j"
  shows "grown s F G root U n0 i s' F' G' U1"
proof -
  have sub: "F1 \<subseteq> F" "ran G1 \<subseteq> ran G \<union> F" using g by (auto simp: grown_def)
  show ?thesis
    unfolding grown_def
  proof (intro conjI allI impI)
    show "mem_only s s'" using g mo mem_only_trans by (auto simp: grown_def)
    show "G \<subseteq>\<^sub>m G'" using g le map_le_trans by (auto simp: grown_def)
    show "F' \<subseteq> F" "ran G' \<subseteq> ran G \<union> F" using F' sub by auto
    show "F' \<union> ran G' \<union> ran U1 = F \<union> ran G \<union> ran U" using F' g by (simp add: grown_def)
  next
    fix j assume j: "n0 \<le> j \<and> j < i"
    then obtain q where "q \<in> F" "U1 j = Some q" using g unfolding grown_def by blast
    then show "\<exists>q \<in> F. U1 j = Some q \<and> (\<forall>x. in_page x q \<longrightarrow> mem s' x = 0)"
      using grown_keep [OF g frame] j by auto
  next
    fix j assume "\<not> (n0 \<le> j \<and> j < i)"
    then show "U1 j = U j" using g by (simp add: grown_def)
  next
    fix j :: nat assume j: "j < 67108864"
    show "if n0 \<le> j \<and> j < i
      then pte_at (mem s') G' j = PA2PTE (the (U1 j)) OR (PTE_W OR PTE_X OR PTE_R OR PTE_U) OR PTE_V
      else pte_at (mem s') G' j = pte_at (mem s) G j"
      using ptes g j unfolding grown_def by metis
  next
    fix x assume x: "\<forall>t \<in> ran G \<union> F. \<not> in_page x t"
    then have "\<forall>t \<in> ran G1 \<union> F1. \<not> in_page x t" using sub by blast
    then show "mem s' x = mem s x" using frame g x by (simp add: grown_def)
  qed (rule S')
qed

lemma grown_step:
  assumes g: "grown s F G root U n0 i s1 F1 G1 U1" and i: "n0 \<le> i" "i < 67108864"
    and p: "p \<in> F1" and S': "uspace s' F' G' root (U1(i \<mapsto> p))" and mo: "mem_only s1 s'" and le: "G1 \<subseteq>\<^sub>m G'"
    and F': "F' \<subseteq> F1 - {p}" "ran G' = ran G1 \<union> (F1 - {p} - F')" and U: "U i = None"
    and frame: "\<forall>x. (\<forall>t \<in> ran G1 \<union> F1. \<not> in_page x t) \<longrightarrow> mem s' x = mem s1 x"
    and zero: "\<forall>x. in_page x p \<longrightarrow> mem s' x = 0"
    and ptes: "\<forall>j < 67108864. pte_at (mem s') G' j =
      (if j = i then PA2PTE p OR (PTE_W OR PTE_X OR PTE_R OR PTE_U) OR PTE_V else pte_at (mem s1) G1 j)"
  shows "grown s F G root U n0 (Suc i) s' F' G' (U1(i \<mapsto> p))"
proof -
  have S1: "uspace s1 F1 G1 root U1" and sub: "F1 \<subseteq> F" "ran G1 \<subseteq> ran G \<union> F"
    and own: "F1 \<union> ran G1 \<union> ran U1 = F \<union> ran G \<union> ran U" and U1i: "U1 i = None"
    using g U by (auto simp: grown_def)
  have pF: "p \<in> F" using p sub by blast
  have keep: "mem s' x = 0" if j: "n0 \<le> j" "j < i" "U1 j = Some q" "in_page x q" for j q x
    using grown_keep [OF g frame j] .
  show ?thesis
    unfolding grown_def
  proof (intro conjI allI impI)
    show "mem_only s s'" using g mo mem_only_trans by (auto simp: grown_def)
    show "G \<subseteq>\<^sub>m G'" using g le map_le_trans by (auto simp: grown_def)
    show "F' \<subseteq> F" "ran G' \<subseteq> ran G \<union> F" using F' sub by auto
    show "F' \<union> ran G' \<union> ran (U1(i \<mapsto> p)) = F \<union> ran G \<union> ran U"
      unfolding ran_map_upd [of U1 i p, OF U1i] own [symmetric] using F' p by auto
  next
    fix j assume j: "n0 \<le> j \<and> j < Suc i"
    show "\<exists>q \<in> F. (U1(i \<mapsto> p)) j = Some q \<and> (\<forall>x. in_page x q \<longrightarrow> mem s' x = 0)"
    proof (cases "j = i")
      case True
      then show ?thesis using pF zero by auto
    next
      case False
      then have ji: "n0 \<le> j" "j < i" using j by auto
      then obtain q where "q \<in> F" "U1 j = Some q" using g unfolding grown_def by blast
      then show ?thesis using False keep [OF ji] by auto
    qed
  next
    fix j assume "\<not> (n0 \<le> j \<and> j < Suc i)"
    then have "j \<noteq> i" "\<not> (n0 \<le> j \<and> j < i)" using i by auto
    then show "(U1(i \<mapsto> p)) j = U j" using g by (simp add: grown_def)
  next
    fix j :: nat assume j: "j < 67108864"
    show "if n0 \<le> j \<and> j < Suc i
      then pte_at (mem s') G' j = PA2PTE (the ((U1(i \<mapsto> p)) j)) OR (PTE_W OR PTE_X OR PTE_R OR PTE_U) OR PTE_V
      else pte_at (mem s') G' j = pte_at (mem s) G j"
    proof (cases "j = i")
      case True
      then show ?thesis using ptes j i by simp
    next
      case False
      then have "n0 \<le> j \<and> j < Suc i \<longleftrightarrow> n0 \<le> j \<and> j < i" by auto
      moreover have "if n0 \<le> j \<and> j < i
        then pte_at (mem s1) G1 j = PA2PTE (the (U1 j)) OR (PTE_W OR PTE_X OR PTE_R OR PTE_U) OR PTE_V
        else pte_at (mem s1) G1 j = pte_at (mem s) G j"
        using g j unfolding grown_def by blast
      ultimately show ?thesis using ptes j False by simp
    qed
  next
    fix x assume x: "\<forall>t \<in> ran G \<union> F. \<not> in_page x t"
    then have "\<forall>t \<in> ran G1 \<union> F1. \<not> in_page x t" using sub by blast
    then show "mem s' x = mem s x" using frame g x by (simp add: grown_def)
  qed (rule S')
qed

text \<open>A page fresh from \<^verbatim>\<open>kalloc\<close>, cleared.\<close>

lemma kalloc_zeroed:
  assumes "kmem_free s F" and "F \<noteq> {}"
  obtains p s1 where "p \<in> F" "p \<noteq> 0" "kalloc s = Ok p s1"
    "kmem_free (s1\<lparr>mem := memset (mem s1) p 0 4096\<rparr>) (F - {p})"
    "mem_only s (s1\<lparr>mem := memset (mem s1) p 0 4096\<rparr>)"
    "\<forall>x. \<not> in_page x p \<longrightarrow> memset (mem s1) p 0 4096 x = mem s x"
    "\<forall>x. in_page x p \<longrightarrow> memset (mem s1) p 0 4096 x = 0"
proof -
  obtain p s1 where p: "kalloc s = Ok p s1" "p \<in> F" "kmem_free s1 (F - {p})" "mem_only s s1"
      "\<forall>x. \<not> in_page x p \<longrightarrow> mem s1 x = mem s x"
    using kmem_free_alloc [OF assms] by blast
  have ok: "pg_aligned p" "p \<noteq> 0" using km.valid_aligned [OF assms(1)] km.free_set_valid [OF assms(1) p(2)] by auto
  have "kmem_free (s1\<lparr>mem := memset (mem s1) p 0 4096\<rparr>) (F - {p})"
  proof (rule kmem_free_frame [OF p(3)])
    fix x r assume r: "r \<in> F - {p}" "in_page x r"
    then have "pg_aligned r" using km.valid_aligned [OF assms(1)] km.free_set_valid [OF assms(1)] by blast
    then have "\<not> in_page x p" using r ok in_page_disjoint [of r p x] by auto
    then show "memset (mem s1) p 0 4096 x = mem s1 x" by (simp add: memset_page)
  qed
  moreover have "mem_only s (s1\<lparr>mem := memset (mem s1) p 0 4096\<rparr>)"
    using p(4) mem_only_upd(1) by (rule mem_only_trans)
  ultimately show thesis using that p ok by (simp add: memset_page)
qed

lemma uvmalloc_loop_correct:
  fixes s :: "'z kmem_st_scheme"
  assumes "grown s F G root U n0 i s1 F1 G1 U1" and "i + k = npages newsz" and "n0 \<le> i"
    and "unat newsz \<le> 274877906944"
    and "\<forall>j. n0 \<le> j \<and> j < npages newsz \<longrightarrow> U j = None \<and> pte_at (mem s) G j AND PTE_V = 0"
  shows "\<exists>r s' F' G' U'. uvmalloc_loop root (of_nat (4096 * i)) (of_nat (4096 * n0)) newsz s1 = Ok r s' \<and>
    (r = newsz \<and> grown s F G root U n0 (npages newsz) s' F' G' U' \<or> r = 0 \<and> restored s F G root U n0 s' F' G')"
  using assms
proof (induction k arbitrary: i s1 F1 G1 U1)
  case 0
  have "\<not> of_nat (4096 * i) < newsz"
    using "0.prems"(2) npages_bound [OF "0.prems"(4)]
    by (simp add: word_less_nat_alt unat_page_addr npages_def del: of_nat_mult)
  then show ?case
    using "0.prems" by (subst uvmalloc_loop.simps) (auto simp del: of_nat_mult)
next
  case (Suc k)
  note g = Suc.prems(1)
  have i: "i < npages newsz" "i < 67108864" "i \<le> 67108864"
    using Suc.prems(2) npages_bound [OF Suc.prems(4)] by auto
  have lt: "of_nat (4096 * i) < newsz"
    using i npages_gt [of i newsz] by (simp add: word_less_nat_alt unat_page_addr del: of_nat_mult)
  have S1: "uspace s1 F1 G1 root U1" and F1: "kmem_free s1 F1"
    using g by (auto simp: grown_def uspace_def has_table_def)
  have Ui: "U i = None" and e: "pte_at (mem s1) G1 i AND PTE_V = 0"
    using Suc.prems(5) g i Suc.prems(3) by (auto simp: grown_def)
  have un: "\<forall>j. n0 \<le> j \<and> j < i \<longrightarrow> U j = None" using Suc.prems(5) i by auto
  show ?case
  proof (cases "F1 = {}")
    case True
    obtain s' F' where "uvmdealloc root (of_nat (4096 * i)) (of_nat (4096 * n0)) s1 = Ok (of_nat (4096 * n0)) s'"
      "restored s F G root U n0 s' F' G1"
      using grown_dealloc [OF g Suc.prems(3) i(3) un] by blast
    then show ?thesis
      using lt km.alloc_none [of s1] F1 True
      by (subst uvmalloc_loop.simps) (auto simp: mon_simps simp del: of_nat_mult)
  next
    case False
    obtain p sa where p: "p \<in> F1" "p \<noteq> 0" "kalloc s1 = Ok p sa"
      "kmem_free (sa\<lparr>mem := memset (mem sa) p 0 4096\<rparr>) (F1 - {p})"
      "mem_only s1 (sa\<lparr>mem := memset (mem sa) p 0 4096\<rparr>)"
      "\<forall>x. \<not> in_page x p \<longrightarrow> memset (mem sa) p 0 4096 x = mem s1 x"
      "\<forall>x. in_page x p \<longrightarrow> memset (mem sa) p 0 4096 x = 0"
      using kalloc_zeroed [OF F1 False] by blast
    let ?s2 = "sa\<lparr>mem := memset (mem sa) p 0 4096\<rparr>"
    let ?perm = "PTE_W OR PTE_X OR PTE_R OR PTE_U"
    have p6: "\<forall>x. \<not> in_page x p \<longrightarrow> mem ?s2 x = mem s1 x" using p(6) by simp
    obtain r s' F' G' where M: "mappages root (of_nat (4096 * i)) PGSIZE p ?perm ?s2 = Ok r s'" "mem_only s1 s'"
      "G1 \<subseteq>\<^sub>m G'" "F' \<subseteq> F1 - {p}" "ran G' = ran G1 \<union> (F1 - {p} - F')"
      "\<forall>x. (\<forall>t \<in> ran G1 \<union> F1. \<not> in_page x t) \<longrightarrow> mem s' x = mem s1 x"
      "\<forall>x. in_page x p \<longrightarrow> mem s' x = mem ?s2 x"
      "r = 0 \<and> uspace s' F' G' root (U1(i \<mapsto> p)) \<and>
        (\<forall>j < 67108864. pte_at (mem s') G' j = (if j = i then PA2PTE p OR ?perm OR PTE_V else pte_at (mem s1) G1 j)) \<or>
       r = - 1 \<and> F' = {} \<and> uspace s' F' G' root U1 \<and> (\<forall>j < 67108864. pte_at (mem s') G' j = pte_at (mem s1) G1 j)"
      by (rule map_page [OF S1 p(1) i(2) e p(4, 5) p6, of ?perm]) simp_all
    have unfold: "uvmalloc_loop root (of_nat (4096 * i)) (of_nat (4096 * n0)) newsz s1 =
      (if r \<noteq> 0 then bind (kfree p) (\<lambda>_. bind (uvmdealloc root (of_nat (4096 * i)) (of_nat (4096 * n0))) (\<lambda>_. ret 0)) s'
       else uvmalloc_loop root (of_nat (4096 * i) + PGSIZE) (of_nat (4096 * n0)) newsz s')"
      using lt p(2, 3) M(1)
      by (subst uvmalloc_loop.simps) (simp add: mon_simps zero_page_def del: of_nat_mult)
    from M(8) show ?thesis
    proof (elim disjE conjE)
      assume r: "r = 0" and S': "uspace s' F' G' root (U1(i \<mapsto> p))"
        and ptes: "\<forall>j < 67108864. pte_at (mem s') G' j = (if j = i then PA2PTE p OR ?perm OR PTE_V else pte_at (mem s1) G1 j)"
      have z: "\<forall>x. in_page x p \<longrightarrow> mem s' x = 0" using M(7) p(7) by simp
      have g': "grown s F G root U n0 (Suc i) s' F' G' (U1(i \<mapsto> p))"
        by (rule grown_step [OF g Suc.prems(3) i(2) p(1) S' M(2-5) Ui M(6) z ptes])
      have nxt: "(of_nat (4096 * i) :: u64) + 4096 = of_nat (4096 * Suc i)" by simp
      have "Suc i + k = npages newsz" "n0 \<le> Suc i" using Suc.prems by auto
      from Suc.IH [OF g' this Suc.prems(4, 5)] show ?thesis
        unfolding unfold using r by (simp only: nxt simp_thms if_False)
    next
      assume r: "r = - 1" "F' = {}" and S': "uspace s' F' G' root U1"
        and ptes: "\<forall>j < 67108864. pte_at (mem s') G' j = pte_at (mem s1) G1 j"
      have "kend s' = kend s1" by (rule mem_only_kend [OF M(2)])
      then have pk: "page_ok (kend s') p" "p \<notin> F'" "p \<notin> ran G'" "p \<notin> ran U1"
        using km.free_set_valid [OF F1 p(1)] r(2) M(5) p(1) uspace_table [OF S1] uspace_page [OF S1]
        by (auto simp: has_table_def ran_def)
      obtain s3 where s3: "kfree p s' = Ok () s3" "mem_only s' s3" "uspace s3 (insert p F') G' root U1"
        "\<forall>n. pte_at (mem s3) G' n = pte_at (mem s') G' n" "\<forall>x. \<not> in_page x p \<longrightarrow> mem s3 x = mem s' x"
        using uspace_kfree [OF S' pk] by blast
      have "grown s F G root U n0 i s3 (insert p F') G' U1"
      proof (rule grown_same [OF g s3(3)])
        show "mem_only s1 s3" using M(2) s3(2) by (rule mem_only_trans)
        show "insert p F' \<union> ran G' = F1 \<union> ran G1" using M(5) r(2) p(1) by auto
        show "\<forall>x. (\<forall>t \<in> ran G1 \<union> F1. \<not> in_page x t) \<longrightarrow> mem s3 x = mem s1 x"
          using s3(5) M(6) p(1) by auto
      qed (use M(3) r(2) p(1) s3(4) ptes in auto)
      from grown_dealloc [OF this Suc.prems(3) i(3) un] obtain s4 F4 where
        "uvmdealloc root (of_nat (4096 * i)) (of_nat (4096 * n0)) s3 = Ok (of_nat (4096 * n0)) s4"
        "restored s F G root U n0 s4 F4 G'" by blast
      then show ?thesis
        unfolding unfold using r s3(1) by (auto simp: mon_simps simp del: of_nat_mult)
    qed
  qed
qed

lemma uvmalloc_correct:
  fixes s :: "'z kmem_st_scheme"
  assumes "uspace s F G root U" and "oldsz \<le> newsz" and "unat newsz \<le> 274877906944"
    and "\<forall>j. npages oldsz \<le> j \<and> j < npages newsz \<longrightarrow> U j = None \<and> pte_at (mem s) G j AND PTE_V = 0"
  shows "\<exists>r s' F' G' U'. uvmalloc root oldsz newsz s = Ok r s' \<and>
    (r = newsz \<and> grown s F G root U (npages oldsz) (npages newsz) s' F' G' U' \<or>
     r = 0 \<and> restored s F G root U (npages oldsz) s' F' G')"
proof -
  have old: "unat oldsz \<le> 274877906944" using assms(2, 3) by (simp add: word_le_nat_alt)
  have k: "npages oldsz + (npages newsz - npages oldsz) = npages newsz" using npages_mono [OF assms(2)] by simp
  have "\<not> newsz < oldsz" using assms(2) by simp
  then show ?thesis
    using uvmalloc_loop_correct [OF grown_refl [OF assms(1)] k order.refl assms(3, 4)]
    by (simp add: uvmalloc_def PGROUNDUP_npages [OF old] del: of_nat_mult)
qed


lemma two_pages_uspace:
  "uspace two_pages {0x87ffe000, 0x87fff000} [[] \<mapsto> 0x87ffd000] 0x87ffd000 Map.empty"
  by (rule uspaceI) (simp_all add: two_pages_table)


end
