(* ===== verification/Proc.thy ===== *)
theory Proc
  imports AddrSpace
begin

text \<open>
  Processes: \<^verbatim>\<open>kernel/proc.c\<close>, except the routines that also work on files
  (\<^verbatim>\<open>fork\<close>, \<^verbatim>\<open>exit\<close>, \<^verbatim>\<open>userinit\<close>, \<^verbatim>\<open>forkret\<close>), which are in a later theory.  The process
  table is a function on the indices \<^verbatim>\<open>0..NPROC-1\<close>; \<^verbatim>\<open>p - proc\<close> is the index itself.

  A \<^verbatim>\<open>swtch\<close> away from the running process ends the routine with \<open>Blocked\<close>: the
  state is the one in which the scheduler takes over, and the code after \<^verbatim>\<open>sched()\<close>
  is a definition of its own (\<open>sched_resume\<close>, \<open>sleep_resume\<close>, \<open>yield_resume\<close>).
  The trap frame of a process is a page of physical memory and is accessed there.
\<close>

unbundle bit_operations_syntax

section \<open>State\<close>

datatype procstate = UNUSED | USED | SLEEPING | RUNNABLE | RUNNING | ZOMBIE

record pcb =
  p_state :: procstate
  p_chan :: chan
  p_killed :: bool
  p_xstate :: u32
  p_pid :: u32
  p_parent :: "nat option"
  p_kstack :: u64
  p_sz :: u64
  p_pagetable :: u64
  p_trapframe :: u64
  p_context :: kcontext
  p_ofile :: "nat \<Rightarrow> nat option"
  p_cwd :: "nat option"
  p_name :: "u8 list"

text \<open>
  \<open>forkret_pc\<close> is the address of \<^verbatim>\<open>forkret\<close>.  \<^verbatim>\<open>p_name\<close> is the C string in \<^verbatim>\<open>name[16]\<close>,
  without its terminator.
\<close>

record proc_st = vm_st +
  procs :: "nat \<Rightarrow> pcb"
  nextpid :: u32
  initproc :: "nat option"
  forkret_pc :: u64

definition pget :: "nat \<Rightarrow> (pcb \<Rightarrow> 'a) \<Rightarrow> ('z proc_st_scheme, 'a) kmon" where
  "pget p f = gets (\<lambda>s. f (procs s p))"

definition pset :: "nat \<Rightarrow> (pcb \<Rightarrow> pcb) \<Rightarrow> ('z proc_st_scheme, unit) kmon" where
  "pset p f = modify (\<lambda>s. s\<lparr>procs := (procs s)(p := f (procs s p))\<rparr>)"

text \<open>Byte offsets in \<^verbatim>\<open>struct trapframe\<close>.\<close>

datatype tfreg = TF_satp | TF_sp_kernel | TF_trap | TF_epc | TF_hartid | TF_ra | TF_sp
  | TF_a0 | TF_a1 | TF_a2 | TF_a3 | TF_a4 | TF_a5 | TF_a7

fun tf_off :: "tfreg \<Rightarrow> u64" where
  "tf_off TF_satp = 0"
| "tf_off TF_sp_kernel = 8"
| "tf_off TF_trap = 16"
| "tf_off TF_epc = 24"
| "tf_off TF_hartid = 32"
| "tf_off TF_ra = 40"
| "tf_off TF_sp = 48"
| "tf_off TF_a0 = 112"
| "tf_off TF_a1 = 120"
| "tf_off TF_a2 = 128"
| "tf_off TF_a3 = 136"
| "tf_off TF_a4 = 144"
| "tf_off TF_a5 = 152"
| "tf_off TF_a7 = 168"

definition tf_get :: "nat \<Rightarrow> tfreg \<Rightarrow> ('z proc_st_scheme, u64) kmon" where
  "tf_get p r = gets (\<lambda>s. read64 (mem s) (p_trapframe (procs s p) + tf_off r))"

definition tf_set :: "nat \<Rightarrow> tfreg \<Rightarrow> u64 \<Rightarrow> ('z proc_st_scheme, unit) kmon" where
  "tf_set p r v = modify (\<lambda>s. s\<lparr>mem := write64 (mem s) (p_trapframe (procs s p) + tf_off r) v\<rparr>)"

section \<open>Table and identifiers\<close>

definition procinit :: "('z proc_st_scheme, unit) kmon" where
  "procinit = (bind (initlock LPid ''nextpid'') (\<lambda>_.
    bind (initlock LWait ''wait_lock'') (\<lambda>_.
    forM [0..<NPROC] (\<lambda>p. (bind (initlock (LProc p) ''proc'') (\<lambda>_.
      pset p (\<lambda>q. q\<lparr>p_kstack := KSTACK p\<rparr>)))))))"

definition myproc :: "('z proc_st_scheme, nat option) kmon" where
  "myproc = (bind push_off (\<lambda>_.
    bind (get_cpu cpu_proc) (\<lambda>p.
    bind pop_off (\<lambda>_.
    ret p))))"

text \<open>\<^verbatim>\<open>myproc()\<close> where the code dereferences the result at once.\<close>

definition curproc :: "('z proc_st_scheme, nat) kmon" where
  "curproc = (bind myproc (\<lambda>p.
    case p of None \<Rightarrow> panic ''null pointer'' | Some i \<Rightarrow> ret i))"

definition allocpid :: "('z proc_st_scheme, u32) kmon" where
  "allocpid = (bind (acquire LPid) (\<lambda>_.
    bind (gets nextpid) (\<lambda>pid.
    bind (modify (\<lambda>s. s\<lparr>nextpid := nextpid s + 1\<rparr>)) (\<lambda>_.
    bind (release LPid) (\<lambda>_.
    ret pid)))))"

section \<open>Page tables of processes\<close>

definition proc_pagetable :: "nat \<Rightarrow> ('z proc_st_scheme, u64) kmon" where
  "proc_pagetable p = (bind uvmcreate (\<lambda>pagetable.
    if pagetable = 0 then ret 0
     else (bind (gets trampoline) (\<lambda>tr.
       bind (mappages pagetable TRAMPOLINE PGSIZE tr (PTE_R OR PTE_X)) (\<lambda>r.
       if r < 0 then (bind (uvmfree pagetable 0) (\<lambda>_.
         ret 0))
       else (bind (pget p p_trapframe) (\<lambda>tf.
         bind (mappages pagetable TRAPFRAME PGSIZE tf (PTE_R OR PTE_W)) (\<lambda>r2.
         if r2 < 0 then (bind (uvmunmap pagetable TRAMPOLINE 1 False) (\<lambda>_.
           bind (uvmfree pagetable 0) (\<lambda>_.
           ret 0)))
         else ret pagetable))))))))"

definition proc_freepagetable :: "u64 \<Rightarrow> u64 \<Rightarrow> ('z proc_st_scheme, unit) kmon" where
  "proc_freepagetable pagetable sz = (bind (uvmunmap pagetable TRAMPOLINE 1 False) (\<lambda>_.
    bind (uvmunmap pagetable TRAPFRAME 1 False) (\<lambda>_.
    uvmfree pagetable sz)))"

definition freeproc :: "nat \<Rightarrow> ('z proc_st_scheme, unit) kmon" where
  "freeproc p = (bind (pget p p_trapframe) (\<lambda>tf.
    bind (whenM (tf \<noteq> 0) (kfree tf)) (\<lambda>_.
    bind (pset p (\<lambda>q. q\<lparr>p_trapframe := 0\<rparr>)) (\<lambda>_.
    bind (pget p p_pagetable) (\<lambda>pt.
    bind (pget p p_sz) (\<lambda>sz.
    bind (whenM (pt \<noteq> 0) (proc_freepagetable pt sz)) (\<lambda>_.
    pset p (\<lambda>q. q\<lparr>p_pagetable := 0, p_sz := 0, p_pid := 0, p_parent := None, p_name := [],
       p_chan := ChNull, p_killed := False, p_xstate := 0, p_state := UNUSED\<rparr>))))))))"

text \<open>The search loop of \<^verbatim>\<open>allocproc\<close>; it returns with the lock of the free slot held.\<close>

primrec allocproc_scan :: "nat list \<Rightarrow> ('z proc_st_scheme, nat option) kmon" where
  "allocproc_scan [] = ret None"
| "allocproc_scan (p # ps) = (bind (acquire (LProc p)) (\<lambda>_.
  bind (pget p p_state) (\<lambda>st.
  if st = UNUSED then ret (Some p)
     else (bind (release (LProc p)) (\<lambda>_.
       allocproc_scan ps)))))"

definition zeroed_context :: kcontext where
  "zeroed_context = \<lparr>cx_ra = 0, cx_sp = 0, cx_s0 = 0, cx_s1 = 0, cx_s2 = 0, cx_s3 = 0, cx_s4 = 0,
     cx_s5 = 0, cx_s6 = 0, cx_s7 = 0, cx_s8 = 0, cx_s9 = 0, cx_s10 = 0, cx_s11 = 0\<rparr>"

definition allocproc :: "('z proc_st_scheme, nat option) kmon" where
  "allocproc = (bind (allocproc_scan [0..<NPROC]) (\<lambda>found.
    case found of None \<Rightarrow> ret None
     | Some p \<Rightarrow> (bind allocpid (\<lambda>pid.
       bind (pset p (\<lambda>q. q\<lparr>p_pid := pid, p_state := USED\<rparr>)) (\<lambda>_.
       bind kalloc (\<lambda>tf.
       bind (pset p (\<lambda>q. q\<lparr>p_trapframe := tf\<rparr>)) (\<lambda>_.
       if tf = 0 then (bind (freeproc p) (\<lambda>_.
         bind (release (LProc p)) (\<lambda>_.
         ret None)))
         else (bind (proc_pagetable p) (\<lambda>pt.
           bind (pset p (\<lambda>q. q\<lparr>p_pagetable := pt\<rparr>)) (\<lambda>_.
           if pt = 0 then (bind (freeproc p) (\<lambda>_.
             bind (release (LProc p)) (\<lambda>_.
             ret None)))
           else (bind (gets forkret_pc) (\<lambda>fr.
             bind (pset p (\<lambda>q. q\<lparr>p_context := zeroed_context\<lparr>cx_ra := fr, cx_sp := p_kstack q + PGSIZE\<rparr>\<rparr>)) (\<lambda>_.
             ret (Some p))))))))))))))"

text \<open>
  \<^verbatim>\<open>growproc\<close> keeps the size in an \<^verbatim>\<open>uint\<close>: it is truncated to 32 bits on every
  assignment, and \<^verbatim>\<open>sz + n\<close> wraps at 32 bits.
\<close>

definition growproc :: "u32 \<Rightarrow> ('z proc_st_scheme, int) kmon" where
  "growproc n = (bind curproc (\<lambda>p.
    bind (pget p p_sz) (\<lambda>psz.
    bind (pget p p_pagetable) (\<lambda>pt.
    (let sz = (ucast psz :: u32) in
    if sint n > 0 then (bind (uvmalloc pt (ucast sz) (ucast (sz + n))) (\<lambda>r.
      if (ucast r :: u32) = 0 then ret (- 1)
       else (bind (pset p (\<lambda>q. q\<lparr>p_sz := ucast (ucast r :: u32)\<rparr>)) (\<lambda>_.
         ret 0))))
     else if sint n < 0 then (bind (uvmdealloc pt (ucast sz) (ucast (sz + n))) (\<lambda>r.
       bind (pset p (\<lambda>q. q\<lparr>p_sz := ucast (ucast r :: u32)\<rparr>)) (\<lambda>_.
       ret 0)))
     else (bind (pset p (\<lambda>q. q\<lparr>p_sz := ucast sz\<rparr>)) (\<lambda>_.
       ret 0)))))))"

section \<open>Scheduling, sleep and wakeup\<close>

text \<open>
  \<^verbatim>\<open>sched\<close> up to its \<^verbatim>\<open>swtch\<close>, which leaves the process, and what follows the \<^verbatim>\<open>swtch\<close> when
  the process is resumed with the \<^verbatim>\<open>intena\<close> it saved.
\<close>

definition sched :: "('z proc_st_scheme, 'a) kmon" where
  "sched = (bind curproc (\<lambda>p.
    bind (holding (LProc p)) (\<lambda>h.
    if \<not> h then panic ''sched p->lock''
     else (bind (get_cpu noff) (\<lambda>n.
       if n \<noteq> 1 then panic ''sched locks''
       else (bind (pget p p_state) (\<lambda>st.
         if st = RUNNING then panic ''sched running''
         else (bind intr_get (\<lambda>i.
           if i then panic ''sched interruptible''
           else (bind (pget p p_chan) (\<lambda>c.
             block c)))))))))))"

definition sched_resume :: "bool \<Rightarrow> ('z proc_st_scheme, unit) kmon" where
  "sched_resume saved = set_cpu (\<lambda>c. c\<lparr>intena := saved\<rparr>)"

definition yield :: "('z proc_st_scheme, unit) kmon" where
  "yield = (bind curproc (\<lambda>p.
    bind (acquire (LProc p)) (\<lambda>_.
    bind (pset p (\<lambda>q. q\<lparr>p_state := RUNNABLE\<rparr>)) (\<lambda>_.
    sched))))"

definition yield_resume :: "bool \<Rightarrow> ('z proc_st_scheme, unit) kmon" where
  "yield_resume saved = (bind (sched_resume saved) (\<lambda>_.
    bind curproc (\<lambda>p.
    release (LProc p))))"

definition sleep :: "chan \<Rightarrow> lockid \<Rightarrow> ('z proc_st_scheme, 'a) kmon" where
  "sleep ch lk = (bind curproc (\<lambda>p.
    bind (acquire (LProc p)) (\<lambda>_.
    bind (release lk) (\<lambda>_.
    bind (pset p (\<lambda>q. q\<lparr>p_chan := ch, p_state := SLEEPING\<rparr>)) (\<lambda>_.
    sched)))))"

definition sleep_resume :: "bool \<Rightarrow> lockid \<Rightarrow> ('z proc_st_scheme, unit) kmon" where
  "sleep_resume saved lk = (bind (sched_resume saved) (\<lambda>_.
    bind curproc (\<lambda>p.
    bind (pset p (\<lambda>q. q\<lparr>p_chan := ChNull\<rparr>)) (\<lambda>_.
    bind (release (LProc p)) (\<lambda>_.
    acquire lk)))))"

definition wakeup_one :: "chan \<Rightarrow> nat \<Rightarrow> ('z proc_st_scheme, unit) kmon" where
  "wakeup_one ch p = (bind myproc (\<lambda>me.
    whenM (me \<noteq> Some p) (bind (acquire (LProc p)) (\<lambda>_.
      bind (pget p (\<lambda>q. q)) (\<lambda>q.
      bind (whenM (p_state q = SLEEPING \<and> p_chan q = ch) (pset p (\<lambda>q. q\<lparr>p_state := RUNNABLE\<rparr>))) (\<lambda>_.
      release (LProc p)))))))"

definition wakeup :: "chan \<Rightarrow> ('z proc_st_scheme, unit) kmon" where
  "wakeup ch = forM [0..<NPROC] (wakeup_one ch)"

text \<open>The body of the loop of \<^verbatim>\<open>scheduler\<close>: up to the \<^verbatim>\<open>swtch\<close> to the process, and after it.\<close>

definition scheduler_pick :: "nat \<Rightarrow> ('z proc_st_scheme, bool) kmon" where
  "scheduler_pick p = (bind (acquire (LProc p)) (\<lambda>_.
    bind (pget p p_state) (\<lambda>st.
    if st = RUNNABLE then (bind (pset p (\<lambda>q. q\<lparr>p_state := RUNNING\<rparr>)) (\<lambda>_.
      bind (set_cpu (\<lambda>c. c\<lparr>cpu_proc := Some p\<rparr>)) (\<lambda>_.
      ret True)))
     else (bind (release (LProc p)) (\<lambda>_.
       ret False)))))"

definition scheduler_return :: "nat \<Rightarrow> ('z proc_st_scheme, unit) kmon" where
  "scheduler_return p = (bind (set_cpu (\<lambda>c. c\<lparr>cpu_proc := None\<rparr>)) (\<lambda>_.
    release (LProc p)))"

definition scheduler_start :: "('z proc_st_scheme, unit) kmon" where
  "scheduler_start = (bind (set_cpu (\<lambda>c. c\<lparr>cpu_proc := None\<rparr>)) (\<lambda>_.
    intr_on))"

section \<open>kill, wait, exit bookkeeping\<close>

primrec kill_scan :: "u32 \<Rightarrow> nat list \<Rightarrow> ('z proc_st_scheme, int) kmon" where
  "kill_scan pid [] = ret (- 1)"
| "kill_scan pid (p # ps) = (bind (acquire (LProc p)) (\<lambda>_.
  bind (pget p (\<lambda>q. q)) (\<lambda>q.
  if p_pid q = pid then (bind (pset p (\<lambda>q. q\<lparr>p_killed := True\<rparr>)) (\<lambda>_.
    bind (whenM (p_state q = SLEEPING) (pset p (\<lambda>q. q\<lparr>p_state := RUNNABLE\<rparr>))) (\<lambda>_.
    bind (release (LProc p)) (\<lambda>_.
    ret 0))))
     else (bind (release (LProc p)) (\<lambda>_.
       kill_scan pid ps)))))"

definition kill :: "u32 \<Rightarrow> ('z proc_st_scheme, int) kmon" where
  "kill pid = kill_scan pid [0..<NPROC]"

definition reparent :: "nat \<Rightarrow> ('z proc_st_scheme, unit) kmon" where
  "reparent p = forM [0..<NPROC] (\<lambda>pp. (bind (pget pp p_parent) (\<lambda>par.
    whenM (par = Some p) (bind (gets initproc) (\<lambda>ip.
      bind (pset pp (\<lambda>q. q\<lparr>p_parent := ip\<rparr>)) (\<lambda>_.
      wakeup (case ip of None \<Rightarrow> ChNull | Some i \<Rightarrow> ChProc i)))))))"

text \<open>
  One scan of the table in \<^verbatim>\<open>wait\<close>: \<open>Inl r\<close> when it returns \<open>r\<close>, \<open>Inr havekids\<close> when
  the scan ends.
\<close>

primrec wait_scan :: "nat \<Rightarrow> u64 \<Rightarrow> bool \<Rightarrow> nat list \<Rightarrow> ('z proc_st_scheme, int + bool) kmon" where
  "wait_scan p addr havekids [] = ret (Inr havekids)"
| "wait_scan p addr havekids (np # nps) = (bind (pget np p_parent) (\<lambda>par.
  if par = Some p then (bind (acquire (LProc np)) (\<lambda>_.
    bind (pget np p_state) (\<lambda>st.
    if st = ZOMBIE then (bind (pget np p_pid) (\<lambda>pid.
      bind (pget np p_xstate) (\<lambda>xs.
      bind (pget p p_pagetable) (\<lambda>pt.
      bind ((if addr \<noteq> 0 then copyout_obj pt addr (le_bytes 4 xs) else ret 0)) (\<lambda>r.
      if r < 0 then (bind (release (LProc np)) (\<lambda>_.
        bind (release LWait) (\<lambda>_.
        ret (Inl (- 1)))))
         else (bind (freeproc np) (\<lambda>_.
           bind (release (LProc np)) (\<lambda>_.
           bind (release LWait) (\<lambda>_.
           ret (Inl (sint pid)))))))))))
       else (bind (release (LProc np)) (\<lambda>_.
         wait_scan p addr True nps)))))
     else wait_scan p addr havekids nps))"

definition wait_loop :: "nat \<Rightarrow> u64 \<Rightarrow> ('z proc_st_scheme, int) kmon" where
  "wait_loop p addr = (bind (wait_scan p addr False [0..<NPROC]) (\<lambda>r.
    case r of Inl v \<Rightarrow> ret v
     | Inr havekids \<Rightarrow> (bind (pget p p_killed) (\<lambda>k.
       if \<not> havekids \<or> k then (bind (release LWait) (\<lambda>_.
         ret (- 1)))
         else sleep (ChProc p) LWait))))"

definition wait :: "u64 \<Rightarrow> ('z proc_st_scheme, int) kmon" where
  "wait addr = (bind curproc (\<lambda>p.
    bind (acquire LWait) (\<lambda>_.
    wait_loop p addr)))"

definition wait_resume :: "bool \<Rightarrow> u64 \<Rightarrow> ('z proc_st_scheme, int) kmon" where
  "wait_resume saved addr = (bind (sleep_resume saved LWait) (\<lambda>_.
    bind curproc (\<lambda>p.
    wait_loop p addr)))"

section \<open>Copying to and from a user or kernel address\<close>

definition either_copyout :: "bool \<Rightarrow> u64 \<Rightarrow> u8 list \<Rightarrow> ('z proc_st_scheme, int) kmon" where
  "either_copyout user_dst dst src = (bind curproc (\<lambda>p.
    if user_dst then (bind (pget p p_pagetable) (\<lambda>pt.
      copyout_obj pt dst src))
     else (bind (modify (\<lambda>s. s\<lparr>mem := write_bytes (mem s) dst src\<rparr>)) (\<lambda>_.
       ret 0))))"

definition either_copyin :: "bool \<Rightarrow> u64 \<Rightarrow> u64 \<Rightarrow> ('z proc_st_scheme, int \<times> u8 list) kmon" where
  "either_copyin user_src src len = (bind curproc (\<lambda>p.
    if user_src then (bind (pget p p_pagetable) (\<lambda>pt.
      copyin_obj pt src len))
     else (bind (gets (\<lambda>s. bytes (mem s) src (unat len))) (\<lambda>bs.
       ret (0, bs)))))"

end
