(* ===== verification/Sleeplock.thy ===== *)
theory Sleeplock
  imports Proc
begin

text \<open>
  Sleep locks, \<^verbatim>\<open>kernel/sleeplock.c\<close>.  The sleep locks of the kernel are those of the
  block buffers and of the in-memory inodes; \<open>slkid\<close> names them.  Taking a lock that is
  held ends in \<^verbatim>\<open>sleep\<close>; when the process is resumed it runs the loop of \<^verbatim>\<open>acquiresleep\<close>
  again.
\<close>

record sleeplock =
  sl_locked :: bool
  sl_name :: string
  sl_pid :: u32

record sleep_st = proc_st +
  sleeplocks :: "slkid \<Rightarrow> sleeplock"

definition sl_set :: "slkid \<Rightarrow> (sleeplock \<Rightarrow> sleeplock) \<Rightarrow> ('z sleep_st_scheme, unit) kmon" where
  "sl_set k f = modify (\<lambda>s. s\<lparr>sleeplocks := (sleeplocks s)(k := f (sleeplocks s k))\<rparr>)"

definition initsleeplock :: "slkid \<Rightarrow> string \<Rightarrow> ('z sleep_st_scheme, unit) kmon" where
  "initsleeplock k name = (bind (initlock (LSleep k) ''sleep lock'') (\<lambda>_.
    sl_set k (\<lambda>_. \<lparr>sl_locked = False, sl_name = name, sl_pid = 0\<rparr>)))"

definition acquiresleep_loop :: "slkid \<Rightarrow> ('z sleep_st_scheme, unit) kmon" where
  "acquiresleep_loop k = (bind (gets (\<lambda>s. sl_locked (sleeplocks s k))) (\<lambda>l.
    if l then sleep (ChSleepLock k) (LSleep k)
     else (bind (sl_set k (\<lambda>x. x\<lparr>sl_locked := True\<rparr>)) (\<lambda>_.
       bind curproc (\<lambda>p.
       bind (pget p p_pid) (\<lambda>pid.
       bind (sl_set k (\<lambda>x. x\<lparr>sl_pid := pid\<rparr>)) (\<lambda>_.
       release (LSleep k))))))))"

definition acquiresleep :: "slkid \<Rightarrow> ('z sleep_st_scheme, unit) kmon" where
  "acquiresleep k = (bind (acquire (LSleep k)) (\<lambda>_.
    acquiresleep_loop k))"

definition acquiresleep_resume :: "bool \<Rightarrow> slkid \<Rightarrow> ('z sleep_st_scheme, unit) kmon" where
  "acquiresleep_resume saved k = (bind (sleep_resume saved (LSleep k)) (\<lambda>_.
    acquiresleep_loop k))"

definition releasesleep :: "slkid \<Rightarrow> ('z sleep_st_scheme, unit) kmon" where
  "releasesleep k = (bind (acquire (LSleep k)) (\<lambda>_.
    bind (sl_set k (\<lambda>x. x\<lparr>sl_locked := False, sl_pid := 0\<rparr>)) (\<lambda>_.
    bind (wakeup (ChSleepLock k)) (\<lambda>_.
    release (LSleep k)))))"

definition holdingsleep :: "slkid \<Rightarrow> ('z sleep_st_scheme, bool) kmon" where
  "holdingsleep k = (bind (acquire (LSleep k)) (\<lambda>_.
    bind (gets (\<lambda>s. sleeplocks s k)) (\<lambda>x.
    bind ((if sl_locked x then (bind curproc (\<lambda>p.
      bind (pget p p_pid) (\<lambda>pid.
      ret (sl_pid x = pid)))) else ret False)) (\<lambda>r.
    bind (release (LSleep k)) (\<lambda>_.
    ret r)))))"

end
