(* ===== verification/Bio.thy ===== *)
theory Bio
  imports Sleeplock
begin

text \<open>
  The block cache, \<^verbatim>\<open>kernel/bio.c\<close>, and the disk below it.  \<open>bufs\<close> holds the array
  \<^verbatim>\<open>bcache.buf\<close> at the indices below \<^verbatim>\<open>NBUF\<close> and the list head \<^verbatim>\<open>bcache.head\<close> at index
  \<^verbatim>\<open>NBUF\<close>; \<^verbatim>\<open>prev\<close> and \<^verbatim>\<open>next\<close> are indices.

  The disk is a function from block numbers to blocks.  \<^verbatim>\<open>virtio_disk_rw\<close> returns after
  the device has transferred the whole block; the theory of the driver shows how that
  comes about.  \<open>dwrites\<close> records the blocks written, in order: after a crash the disk
  holds the result of some prefix of them.
\<close>

unbundle bit_operations_syntax

abbreviation (input) BSIZE :: nat where "BSIZE \<equiv> 1024"

record buf =
  b_valid :: bool
  b_disk :: bool
  b_dev :: u32
  b_blockno :: u32
  b_refcnt :: u32
  b_prev :: nat
  b_next :: nat
  b_data :: "u8 list"

record bio_st = sleep_st +
  bufs :: "nat \<Rightarrow> buf"
  disk :: "u32 \<Rightarrow> u8 list"
  dwrites :: "(u32 \<times> u8 list) list"

abbreviation (input) bhead :: nat where "bhead \<equiv> NBUF"

definition bufget :: "nat \<Rightarrow> (buf \<Rightarrow> 'a) \<Rightarrow> ('z bio_st_scheme, 'a) kmon" where
  "bufget b f = gets (\<lambda>s. f (bufs s b))"

definition bufset :: "nat \<Rightarrow> (buf \<Rightarrow> buf) \<Rightarrow> ('z bio_st_scheme, unit) kmon" where
  "bufset b f = modify (\<lambda>s. s\<lparr>bufs := (bufs s)(b := f (bufs s b))\<rparr>)"

text \<open>Transfer between a buffer and the disk.\<close>

definition virtio_disk_rw :: "nat \<Rightarrow> bool \<Rightarrow> ('z bio_st_scheme, unit) kmon" where
  "virtio_disk_rw b wr = modify (\<lambda>s.
     let bno = b_blockno (bufs s b) in
     if wr then s\<lparr>disk := (disk s)(bno := b_data (bufs s b)), dwrites := dwrites s @ [(bno, b_data (bufs s b))]\<rparr>
     else s\<lparr>bufs := (bufs s)(b := (bufs s b)\<lparr>b_data := disk s bno\<rparr>)\<rparr>)"

text \<open>Insert buffer \<^verbatim>\<open>b\<close> after the list head, as \<^verbatim>\<open>binit\<close> and \<^verbatim>\<open>brelse\<close> do.\<close>

definition lru_insert :: "nat \<Rightarrow> ('z bio_st_scheme, unit) kmon" where
  "lru_insert b = (bind (bufget bhead b_next) (\<lambda>n.
    bind (bufset b (\<lambda>x. x\<lparr>b_next := n, b_prev := bhead\<rparr>)) (\<lambda>_.
    bind (bufget bhead b_next) (\<lambda>n2.
    bind (bufset n2 (\<lambda>x. x\<lparr>b_prev := b\<rparr>)) (\<lambda>_.
    bufset bhead (\<lambda>x. x\<lparr>b_next := b\<rparr>))))))"

definition binit :: "('z bio_st_scheme, unit) kmon" where
  "binit = (bind (initlock LBcache ''bcache'') (\<lambda>_.
    bind (bufset bhead (\<lambda>x. x\<lparr>b_prev := bhead, b_next := bhead\<rparr>)) (\<lambda>_.
    forM [0..<NBUF] (\<lambda>b. (bind (initsleeplock (SlBuf b) ''buffer'') (\<lambda>_.
      lru_insert b))))))"

text \<open>
  The two searches of \<^verbatim>\<open>bget\<close> along the list.  The first argument bounds the number of
  nodes visited; the list has \<^verbatim>\<open>NBUF\<close> nodes and the head, so \<open>NBUF + 1\<close> is enough.
\<close>

primrec bget_cached :: "nat \<Rightarrow> u32 \<Rightarrow> u32 \<Rightarrow> nat \<Rightarrow> ('z bio_st_scheme, nat option) kmon" where
  "bget_cached 0 dev blockno b = block ChNull"
| "bget_cached (Suc k) dev blockno b = (bind (bufget b (\<lambda>x. x)) (\<lambda>x.
  if b = bhead then ret None
     else if b_dev x = dev \<and> b_blockno x = blockno then ret (Some b)
     else bget_cached k dev blockno (b_next x)))"

primrec bget_unused :: "nat \<Rightarrow> nat \<Rightarrow> ('z bio_st_scheme, nat option) kmon" where
  "bget_unused 0 b = block ChNull"
| "bget_unused (Suc k) b = (bind (bufget b (\<lambda>x. x)) (\<lambda>x.
  if b = bhead then ret None
     else if b_refcnt x = 0 then ret (Some b)
     else bget_unused k (b_prev x)))"

definition bget :: "u32 \<Rightarrow> u32 \<Rightarrow> ('z bio_st_scheme, nat) kmon" where
  "bget dev blockno = (bind (acquire LBcache) (\<lambda>_.
    bind (bufget bhead b_next) (\<lambda>first.
    bind (bget_cached (NBUF + 1) dev blockno first) (\<lambda>hit.
    case hit of
       Some b \<Rightarrow> (bind (bufset b (\<lambda>x. x\<lparr>b_refcnt := b_refcnt x + 1\<rparr>)) (\<lambda>_.
         bind (release LBcache) (\<lambda>_.
         bind (acquiresleep (SlBuf b)) (\<lambda>_.
         ret b))))
     | None \<Rightarrow> (bind (bufget bhead b_prev) (\<lambda>lst.
       bind (bget_unused (NBUF + 1) lst) (\<lambda>free.
       case free of
           Some b \<Rightarrow> (bind (bufset b (\<lambda>x. x\<lparr>b_dev := dev, b_blockno := blockno, b_valid := False, b_refcnt := 1\<rparr>)) (\<lambda>_.
             bind (release LBcache) (\<lambda>_.
             bind (acquiresleep (SlBuf b)) (\<lambda>_.
             ret b))))
         | None \<Rightarrow> panic ''bget: no buffers'')))))))"

definition bread :: "u32 \<Rightarrow> u32 \<Rightarrow> ('z bio_st_scheme, nat) kmon" where
  "bread dev blockno = (bind (bget dev blockno) (\<lambda>b.
    bind (bufget b b_valid) (\<lambda>v.
    bind (whenM (\<not> v) (bind (virtio_disk_rw b False) (\<lambda>_.
      bufset b (\<lambda>x. x\<lparr>b_valid := True\<rparr>)))) (\<lambda>_.
    ret b))))"

definition bwrite :: "nat \<Rightarrow> ('z bio_st_scheme, unit) kmon" where
  "bwrite b = (bind (holdingsleep (SlBuf b)) (\<lambda>h.
    if \<not> h then panic ''bwrite'' else virtio_disk_rw b True))"

text \<open>Unlink \<^verbatim>\<open>b\<close> from the list.\<close>

definition lru_remove :: "nat \<Rightarrow> ('z bio_st_scheme, unit) kmon" where
  "lru_remove b = (bind (bufget b (\<lambda>x. x)) (\<lambda>x.
    bind (bufset (b_next x) (\<lambda>y. y\<lparr>b_prev := b_prev x\<rparr>)) (\<lambda>_.
    bind (bufget b (\<lambda>x. x)) (\<lambda>x2.
    bufset (b_prev x2) (\<lambda>y. y\<lparr>b_next := b_next x2\<rparr>)))))"

definition brelse :: "nat \<Rightarrow> ('z bio_st_scheme, unit) kmon" where
  "brelse b = (bind (holdingsleep (SlBuf b)) (\<lambda>h.
    if \<not> h then panic ''brelse''
     else (bind (releasesleep (SlBuf b)) (\<lambda>_.
       bind (acquire LBcache) (\<lambda>_.
       bind (bufset b (\<lambda>x. x\<lparr>b_refcnt := b_refcnt x - 1\<rparr>)) (\<lambda>_.
       bind (bufget b b_refcnt) (\<lambda>r.
       bind (whenM (r = 0) (bind (lru_remove b) (\<lambda>_.
         lru_insert b))) (\<lambda>_.
       release LBcache))))))))"

definition bpin :: "nat \<Rightarrow> ('z bio_st_scheme, unit) kmon" where
  "bpin b = (bind (acquire LBcache) (\<lambda>_.
    bind (bufset b (\<lambda>x. x\<lparr>b_refcnt := b_refcnt x + 1\<rparr>)) (\<lambda>_.
    release LBcache)))"

definition bunpin :: "nat \<Rightarrow> ('z bio_st_scheme, unit) kmon" where
  "bunpin b = (bind (acquire LBcache) (\<lambda>_.
    bind (bufset b (\<lambda>x. x\<lparr>b_refcnt := b_refcnt x - 1\<rparr>)) (\<lambda>_.
    release LBcache)))"

end
