(* ===== verification/Virtio.thy ===== *)
theory Virtio
  imports Bio
begin

text \<open>
  The disk driver, \<^verbatim>\<open>kernel/virtio_disk.c\<close>.  The queue memory \<^verbatim>\<open>disk.pages\<close> is kept as the
  structures the driver casts it to: the descriptor table, the avail ring and the used
  ring.  The addresses stored in descriptors point to static objects of the driver or to
  buffer data and are named by \<open>daddr\<close>.

  \<^verbatim>\<open>virtio_disk_rw\<close> of the block cache is the effect of a completed request.  Here the
  request is followed through its phases: \<open>rw_submit\<close> up to the notification, the device,
  the interrupt handler, and \<open>rw_finish\<close> after the wait.
\<close>

unbundle bit_operations_syntax

section \<open>Queue structures\<close>

abbreviation (input) NUM :: nat where "NUM \<equiv> 8"

datatype daddr = DNull | DOps nat | DData nat | DStatus nat

record virtq_desc =
  d_addr :: daddr
  d_len :: u32
  d_flags :: u16
  d_next :: u16

record virtio_blk_req =
  rq_type :: u32
  rq_reserved :: u32
  rq_sector :: u64

abbreviation (input) VRING_DESC_F_NEXT :: u16 where "VRING_DESC_F_NEXT \<equiv> 1"
abbreviation (input) VRING_DESC_F_WRITE :: u16 where "VRING_DESC_F_WRITE \<equiv> 2"
abbreviation (input) VIRTIO_BLK_T_IN :: u32 where "VIRTIO_BLK_T_IN \<equiv> 0"
abbreviation (input) VIRTIO_BLK_T_OUT :: u32 where "VIRTIO_BLK_T_OUT \<equiv> 1"

text \<open>
  \<^verbatim>\<open>struct disk\<close>: the indices and entries of the avail and used rings live
  in the queue memory shared with the device; \<open>vd_used_idx\<close> is the driver's own
  \<^verbatim>\<open>used_idx\<close>.  \<open>mmio\<close> holds the registers of the device by offset.
\<close>

record vio_st = bio_st +
  vq_desc :: "nat \<Rightarrow> virtq_desc"
  avail_idx :: u16
  avail_ring :: "nat \<Rightarrow> u16"
  used_ring_idx :: u16
  used_ring :: "nat \<Rightarrow> u32"
  vd_free :: "nat \<Rightarrow> bool"
  vd_used_idx :: u16
  info_b :: "nat \<Rightarrow> nat option"
  info_status :: "nat \<Rightarrow> u8"
  vd_ops :: "nat \<Rightarrow> virtio_blk_req"
  queue_page :: u64
  mmio :: "nat \<Rightarrow> u32"

definition null_desc :: virtq_desc where
  "null_desc = \<lparr>d_addr = DNull, d_len = 0, d_flags = 0, d_next = 0\<rparr>"

definition R_read :: "nat \<Rightarrow> ('z vio_st_scheme, u32) kmon" where
  "R_read r = gets (\<lambda>s. mmio s r)"

definition R_write :: "nat \<Rightarrow> u32 \<Rightarrow> ('z vio_st_scheme, unit) kmon" where
  "R_write r v = modify (\<lambda>s. s\<lparr>mmio := (mmio s)(r := v)\<rparr>)"

definition desc_set :: "nat \<Rightarrow> (virtq_desc \<Rightarrow> virtq_desc) \<Rightarrow> ('z vio_st_scheme, unit) kmon" where
  "desc_set i f = modify (\<lambda>s. s\<lparr>vq_desc := (vq_desc s)(i := f (vq_desc s i))\<rparr>)"

definition free_set :: "nat \<Rightarrow> bool \<Rightarrow> ('z vio_st_scheme, unit) kmon" where
  "free_set i v = modify (\<lambda>s. s\<lparr>vd_free := (vd_free s)(i := v)\<rparr>)"

section \<open>Initialisation\<close>

text \<open>Feature bits the driver does not accept.\<close>

definition rejected_features :: "nat list" where
  "rejected_features = [5, 7, 11, 12, 27, 29, 28]"

definition negotiate :: "u64 \<Rightarrow> u64" where
  "negotiate features = fold (\<lambda>bt f. f AND NOT (push_bit bt 1)) rejected_features features"

definition virtio_disk_init :: "('z vio_st_scheme, unit) kmon" where
  "virtio_disk_init = (bind (initlock LVdisk ''virtio_disk'') (\<lambda>_.
    bind (R_read 0x000) (\<lambda>magic.
    bind (R_read 0x004) (\<lambda>version.
    bind (R_read 0x008) (\<lambda>device.
    bind (R_read 0x00c) (\<lambda>vendor.
    if magic \<noteq> 0x74726976 \<or> version \<noteq> 1 \<or> device \<noteq> 2 \<or> vendor \<noteq> 0x554d4551
    then panic ''could not find virtio disk''
    else (bind (R_write 0x070 1) (\<lambda>_.
      bind (R_write 0x070 (1 OR 2)) (\<lambda>_.
      bind (R_read 0x010) (\<lambda>features.
      bind (R_write 0x020 (ucast (negotiate (ucast features)))) (\<lambda>_.
      bind (R_write 0x070 (1 OR 2 OR 8)) (\<lambda>_.
      bind (R_write 0x070 (1 OR 2 OR 8 OR 4)) (\<lambda>_.
      bind (R_write 0x028 4096) (\<lambda>_.
      bind (R_write 0x030 0) (\<lambda>_.
      bind (R_read 0x034) (\<lambda>maxq.
      if maxq = 0 then panic ''virtio disk has no queue 0''
      else if maxq < of_nat NUM then panic ''virtio disk max queue too short''
      else (bind (R_write 0x038 (of_nat NUM)) (\<lambda>_.
        bind (modify (\<lambda>s. s\<lparr>vq_desc := (\<lambda>_. null_desc), avail_idx := 0, avail_ring := (\<lambda>_. 0),
          used_ring_idx := 0, used_ring := (\<lambda>_. 0)\<rparr>)) (\<lambda>_.
        bind (gets queue_page) (\<lambda>pg.
        bind (R_write 0x040 (ucast (drop_bit PGSHIFT pg))) (\<lambda>_.
        forM [0..<NUM] (\<lambda>i. free_set i True))))))))))))))))))))))"

section \<open>Descriptors\<close>

primrec alloc_desc_scan :: "nat list \<Rightarrow> ('z vio_st_scheme, nat option) kmon" where
  "alloc_desc_scan [] = ret None"
| "alloc_desc_scan (i # is) = (bind (gets (\<lambda>s. vd_free s i)) (\<lambda>f.
  if f then (bind (free_set i False) (\<lambda>_.
    ret (Some i))) else alloc_desc_scan is))"

definition alloc_desc :: "('z vio_st_scheme, nat option) kmon" where
  "alloc_desc = alloc_desc_scan [0..<NUM]"

definition free_desc :: "nat \<Rightarrow> ('z vio_st_scheme, unit) kmon" where
  "free_desc i = (if i \<ge> NUM then panic ''free_desc 1''
     else (bind (gets (\<lambda>s. vd_free s i)) (\<lambda>f.
       if f then panic ''free_desc 2''
       else (bind (desc_set i (\<lambda>_. null_desc)) (\<lambda>_.
         bind (free_set i True) (\<lambda>_.
         wakeup ChDiskFree))))))"

text \<open>
  \<^verbatim>\<open>free_chain\<close> follows \<^verbatim>\<open>next\<close>.  \<^verbatim>\<open>free_desc\<close> panics on a free descriptor, so at most \<^verbatim>\<open>NUM\<close>
  descriptors are freed before it stops; the first argument is that bound.
\<close>

primrec free_chain_loop :: "nat \<Rightarrow> nat \<Rightarrow> ('z vio_st_scheme, unit) kmon" where
  "free_chain_loop 0 i = panic ''free_desc 2''"
| "free_chain_loop (Suc k) i = (bind (gets (\<lambda>s. vq_desc s i)) (\<lambda>d.
  bind (free_desc i) (\<lambda>_.
  if d_flags d AND VRING_DESC_F_NEXT \<noteq> 0 then free_chain_loop k (unat (d_next d)) else ret ())))"

definition free_chain :: "nat \<Rightarrow> ('z vio_st_scheme, unit) kmon" where
  "free_chain i = free_chain_loop (NUM + 1) i"

text \<open>\<open>alloc3_from got k\<close> allocates \<open>k\<close> more descriptors after those in \<open>got\<close>.\<close>

primrec alloc3_from :: "nat list \<Rightarrow> nat \<Rightarrow> ('z vio_st_scheme, nat list option) kmon" where
  "alloc3_from got 0 = ret (Some got)"
| "alloc3_from got (Suc k) = (bind alloc_desc (\<lambda>d.
  case d of None \<Rightarrow> (bind (forM got free_desc) (\<lambda>_.
    ret None))
     | Some i \<Rightarrow> alloc3_from (got @ [i]) k))"

definition alloc3_desc :: "('z vio_st_scheme, nat list option) kmon" where
  "alloc3_desc = alloc3_from [] 3"

section \<open>A request\<close>

definition rw_submit :: "nat \<Rightarrow> bool \<Rightarrow> nat \<Rightarrow> nat \<Rightarrow> nat \<Rightarrow> ('z vio_st_scheme, unit) kmon" where
  "rw_submit b wr i0 i1 i2 = (bind (bufget b b_blockno) (\<lambda>bno.
    (let sector = (ucast (bno * 2) :: u64) in
    bind (modify (\<lambda>s. s\<lparr>vd_ops := (vd_ops s)(i0 :=
      \<lparr>rq_type = (if wr then VIRTIO_BLK_T_OUT else VIRTIO_BLK_T_IN), rq_reserved = 0, rq_sector = sector\<rparr>)\<rparr>)) (\<lambda>_.
    bind (desc_set i0 (\<lambda>_. \<lparr>d_addr = DOps i0, d_len = 16, d_flags = VRING_DESC_F_NEXT, d_next = of_nat i1\<rparr>)) (\<lambda>_.
    bind (desc_set i1 (\<lambda>_. \<lparr>d_addr = DData b, d_len = 1024,
      d_flags = (if wr then 0 else VRING_DESC_F_WRITE) OR VRING_DESC_F_NEXT, d_next = of_nat i2\<rparr>)) (\<lambda>_.
    bind (modify (\<lambda>s. s\<lparr>info_status := (info_status s)(i0 := 0xff)\<rparr>)) (\<lambda>_.
    bind (desc_set i2 (\<lambda>_. \<lparr>d_addr = DStatus i0, d_len = 1, d_flags = VRING_DESC_F_WRITE, d_next = 0\<rparr>)) (\<lambda>_.
    bind (bufset b (\<lambda>x. x\<lparr>b_disk := True\<rparr>)) (\<lambda>_.
    bind (modify (\<lambda>s. s\<lparr>info_b := (info_b s)(i0 := Some b)\<rparr>)) (\<lambda>_.
    bind (modify (\<lambda>s. s\<lparr>avail_ring := (avail_ring s)(unat (avail_idx s) mod NUM := of_nat i0)\<rparr>)) (\<lambda>_.
    bind (modify (\<lambda>s. s\<lparr>avail_idx := avail_idx s + 1\<rparr>)) (\<lambda>_.
    R_write 0x050 0))))))))))))"

definition rw_finish :: "nat \<Rightarrow> nat \<Rightarrow> ('z vio_st_scheme, unit) kmon" where
  "rw_finish b i0 = (bind (bufget b b_disk) (\<lambda>pending.
    if pending then sleep (ChBuf b) LVdisk
    else (bind (modify (\<lambda>s. s\<lparr>info_b := (info_b s)(i0 := None)\<rparr>)) (\<lambda>_.
      bind (free_chain i0) (\<lambda>_.
      release LVdisk)))))"

text \<open>
  The segments of \<^verbatim>\<open>virtio_disk_rw\<close>: the start (and what it does again after waiting for
  descriptors), and the continuation after the wait for the interrupt.  The result of the
  first segment, when it does not wait for descriptors, is the wait for the request.
\<close>

definition rw_alloc :: "nat \<Rightarrow> bool \<Rightarrow> ('z vio_st_scheme, unit) kmon" where
  "rw_alloc b wr = (bind alloc3_desc (\<lambda>idx.
    case idx of Some [i0, i1, i2] \<Rightarrow> (bind (rw_submit b wr i0 i1 i2) (\<lambda>_.
      rw_finish b i0))
    | _ \<Rightarrow> sleep ChDiskFree LVdisk))"

definition rw_start :: "nat \<Rightarrow> bool \<Rightarrow> ('z vio_st_scheme, unit) kmon" where
  "rw_start b wr = (bind (acquire LVdisk) (\<lambda>_.
    rw_alloc b wr))"

definition rw_realloc :: "bool \<Rightarrow> nat \<Rightarrow> bool \<Rightarrow> ('z vio_st_scheme, unit) kmon" where
  "rw_realloc saved b wr = (bind (sleep_resume saved LVdisk) (\<lambda>_.
    rw_alloc b wr))"

definition rw_resume :: "bool \<Rightarrow> nat \<Rightarrow> nat \<Rightarrow> ('z vio_st_scheme, unit) kmon" where
  "rw_resume saved b i0 = (bind (sleep_resume saved LVdisk) (\<lambda>_.
    rw_finish b i0))"

section \<open>The interrupt handler\<close>

text \<open>
  The loop of \<^verbatim>\<open>virtio_disk_intr\<close> ends when the driver's index reaches the device's; the
  device is at most \<^verbatim>\<open>NUM\<close> entries ahead, and in any case the 16-bit distance bounds it.
\<close>

function virtio_intr_loop :: "u16 \<Rightarrow> u16 \<Rightarrow> ('z vio_st_scheme, unit) kmon" where
  "virtio_intr_loop ui target = (if ui = target then ret () else
     (bind (gets (\<lambda>s. unat (used_ring s (unat ui mod NUM)))) (\<lambda>id.
       bind (gets (\<lambda>s. info_status s id)) (\<lambda>st.
       if st \<noteq> 0 then panic ''virtio_disk_intr status''
       else (bind (gets (\<lambda>s. info_b s id)) (\<lambda>b.
         case b of None \<Rightarrow> panic ''null pointer''
         | Some i \<Rightarrow> (bind (bufset i (\<lambda>x. x\<lparr>b_disk := False\<rparr>)) (\<lambda>_.
           bind (wakeup (ChBuf i)) (\<lambda>_.
           bind (modify (\<lambda>s. s\<lparr>vd_used_idx := ui + 1\<rparr>)) (\<lambda>_.
           virtio_intr_loop (ui + 1) target))))))))))"
  by pat_completeness auto
termination
proof (relation "measure (\<lambda>(ui, target). unat (target - ui))", goal_cases)
  case 1
  show ?case by simp
next
  case (2 ui target)
  have ne: "target - ui \<noteq> 0" using 2 by simp
  have "unat (target - (ui + 1)) = unat (target - ui) - 1"
    using unat_minus_one [OF ne] by (simp add: diff_diff_eq)
  moreover have "unat (target - ui) \<noteq> 0"
    using ne by (simp add: unat_eq_0)
  ultimately show ?case by simp
qed

declare virtio_intr_loop.simps [simp del]

definition virtio_disk_intr :: "('z vio_st_scheme, unit) kmon" where
  "virtio_disk_intr = (bind (acquire LVdisk) (\<lambda>_.
    bind (R_read 0x060) (\<lambda>st.
    bind (R_write 0x064 (st AND 3)) (\<lambda>_.
    bind (gets vd_used_idx) (\<lambda>ui.
    bind (gets used_ring_idx) (\<lambda>target.
    bind (virtio_intr_loop ui target) (\<lambda>_.
    release LVdisk)))))))"

end
