(* ===== verification/Log.thy ===== *)
theory Log
  imports Virtio
begin

text \<open>
  The redo log, \<^verbatim>\<open>kernel/log.c\<close>.  The in-memory header is \<open>lh_n\<close> and \<open>lh_block\<close>; on disk it
  is a block of little-endian 32-bit values, the count first.  Waiting in \<^verbatim>\<open>begin_op\<close> ends in
  \<^verbatim>\<open>sleep\<close>; the resumed process runs the loop of \<^verbatim>\<open>begin_op\<close> again.
\<close>

unbundle bit_operations_syntax

record log_st = vio_st +
  log_start :: u32
  log_size :: u32
  log_outstanding :: int
  log_committing :: bool
  log_dev :: u32
  lh_n :: int
  lh_block :: "nat \<Rightarrow> u32"

text \<open>32-bit fields of a block.\<close>

definition get32 :: "u8 list \<Rightarrow> nat \<Rightarrow> u32" where
  "get32 bs off = le_word (take 4 (drop off bs))"

definition put32 :: "u8 list \<Rightarrow> nat \<Rightarrow> u32 \<Rightarrow> u8 list" where
  "put32 bs off v = take off bs @ le_bytes 4 v @ drop (off + 4) bs"

text \<open>\<^verbatim>\<open>install_trans\<close> and \<^verbatim>\<open>write_log\<close> run over \<open>tail = 0, \<dots>, log.lh.n - 1\<close>.\<close>

definition install_one :: "bool \<Rightarrow> nat \<Rightarrow> ('z log_st_scheme, unit) kmon" where
  "install_one recovering tail = (bind (gets log_dev) (\<lambda>dev.
    bind (gets log_start) (\<lambda>start.
    bind (bread dev (start + of_nat tail + 1)) (\<lambda>lbuf.
    bind (gets (\<lambda>s. lh_block s tail)) (\<lambda>bno.
    bind (bread dev bno) (\<lambda>dbuf.
    bind (bufget lbuf b_data) (\<lambda>d.
    bind (bufset dbuf (\<lambda>x. x\<lparr>b_data := d\<rparr>)) (\<lambda>_.
    bind (bwrite dbuf) (\<lambda>_.
    bind (whenM (\<not> recovering) (bunpin dbuf)) (\<lambda>_.
    bind (brelse lbuf) (\<lambda>_.
    brelse dbuf)))))))))))"

definition install_trans :: "bool \<Rightarrow> ('z log_st_scheme, unit) kmon" where
  "install_trans recovering = (bind (gets lh_n) (\<lambda>n.
    forM [0..<nat n] (install_one recovering)))"

definition read_head :: "('z log_st_scheme, unit) kmon" where
  "read_head = (bind (gets log_dev) (\<lambda>dev.
    bind (gets log_start) (\<lambda>start.
    bind (bread dev start) (\<lambda>b.
    bind (bufget b b_data) (\<lambda>d.
    bind (modify (\<lambda>s. s\<lparr>lh_n := sint (get32 d 0)\<rparr>)) (\<lambda>_.
    bind (gets lh_n) (\<lambda>n.
    bind (forM [0..<nat n] (\<lambda>i. modify (\<lambda>s. s\<lparr>lh_block := (lh_block s)(i := get32 d (4 + 4 * i))\<rparr>))) (\<lambda>_.
    brelse b))))))))"

definition write_head :: "('z log_st_scheme, unit) kmon" where
  "write_head = (bind (gets log_dev) (\<lambda>dev.
    bind (gets log_start) (\<lambda>start.
    bind (bread dev start) (\<lambda>b.
    bind (gets lh_n) (\<lambda>n.
    bind (bufset b (\<lambda>x. x\<lparr>b_data := put32 (b_data x) 0 (word_of_int n)\<rparr>)) (\<lambda>_.
    bind (forM [0..<nat n] (\<lambda>i. (bind (gets (\<lambda>s. lh_block s i)) (\<lambda>v.
      bufset b (\<lambda>x. x\<lparr>b_data := put32 (b_data x) (4 + 4 * i) v\<rparr>))))) (\<lambda>_.
    bind (bwrite b) (\<lambda>_.
    brelse b))))))))"

definition recover_from_log :: "('z log_st_scheme, unit) kmon" where
  "recover_from_log = (bind read_head (\<lambda>_.
    bind (install_trans True) (\<lambda>_.
    bind (modify (\<lambda>s. s\<lparr>lh_n := 0\<rparr>)) (\<lambda>_.
    write_head))))"

text \<open>\<^verbatim>\<open>sizeof(struct logheader)\<close> is \<open>4 + 4 * LOGSIZE\<close> bytes, less than a block.\<close>

definition initlog :: "u32 \<Rightarrow> u32 \<Rightarrow> u32 \<Rightarrow> ('z log_st_scheme, unit) kmon" where
  "initlog dev logstart nlog =
     (if 4 + 4 * LOGSIZE \<ge> BSIZE then panic ''initlog: too big logheader''
      else (bind (initlock LLog ''log'') (\<lambda>_.
        bind (modify (\<lambda>s. s\<lparr>log_start := logstart, log_size := nlog, log_dev := dev\<rparr>)) (\<lambda>_.
        recover_from_log))))"

definition begin_op_loop :: "('z log_st_scheme, unit) kmon" where
  "begin_op_loop = (bind (gets log_committing) (\<lambda>c.
    if c then sleep ChLog LLog
     else (bind (gets lh_n) (\<lambda>n.
       bind (gets log_outstanding) (\<lambda>out.
       if n + (out + 1) * int MAXOPBLOCKS > int LOGSIZE then sleep ChLog LLog
       else (bind (modify (\<lambda>s. s\<lparr>log_outstanding := log_outstanding s + 1\<rparr>)) (\<lambda>_.
         release LLog)))))))"

definition begin_op :: "('z log_st_scheme, unit) kmon" where
  "begin_op = (bind (acquire LLog) (\<lambda>_.
    begin_op_loop))"

definition begin_op_resume :: "bool \<Rightarrow> ('z log_st_scheme, unit) kmon" where
  "begin_op_resume saved = (bind (sleep_resume saved LLog) (\<lambda>_.
    begin_op_loop))"

definition write_log_one :: "nat \<Rightarrow> ('z log_st_scheme, unit) kmon" where
  "write_log_one tail = (bind (gets log_dev) (\<lambda>dev.
    bind (gets log_start) (\<lambda>start.
    bind (bread dev (start + of_nat tail + 1)) (\<lambda>to.
    bind (gets (\<lambda>s. lh_block s tail)) (\<lambda>bno.
    bind (bread dev bno) (\<lambda>from.
    bind (bufget from b_data) (\<lambda>d.
    bind (bufset to (\<lambda>x. x\<lparr>b_data := d\<rparr>)) (\<lambda>_.
    bind (bwrite to) (\<lambda>_.
    bind (brelse from) (\<lambda>_.
    brelse to))))))))))"

definition write_log :: "('z log_st_scheme, unit) kmon" where
  "write_log = (bind (gets lh_n) (\<lambda>n.
    forM [0..<nat n] write_log_one))"

definition commit :: "('z log_st_scheme, unit) kmon" where
  "commit = (bind (gets lh_n) (\<lambda>n.
    whenM (n > 0) (bind write_log (\<lambda>_.
      bind write_head (\<lambda>_.
      bind (install_trans False) (\<lambda>_.
      bind (modify (\<lambda>s. s\<lparr>lh_n := 0\<rparr>)) (\<lambda>_.
      write_head)))))))"

definition end_op :: "('z log_st_scheme, unit) kmon" where
  "end_op = (bind (acquire LLog) (\<lambda>_.
    bind (modify (\<lambda>s. s\<lparr>log_outstanding := log_outstanding s - 1\<rparr>)) (\<lambda>_.
    bind (gets log_committing) (\<lambda>c.
    if c then panic ''log.committing''
     else (bind (gets log_outstanding) (\<lambda>out.
       bind ((if out = 0 then modify (\<lambda>s. s\<lparr>log_committing := True\<rparr>) else wakeup ChLog)) (\<lambda>_.
       bind (release LLog) (\<lambda>_.
       whenM (out = 0) (bind commit (\<lambda>_.
         bind (acquire LLog) (\<lambda>_.
         bind (modify (\<lambda>s. s\<lparr>log_committing := False\<rparr>)) (\<lambda>_.
         bind (wakeup ChLog) (\<lambda>_.
         release LLog)))))))))))))"

text \<open>The absorption loop of \<^verbatim>\<open>log_write\<close>: the index of the block in the log, or \<^verbatim>\<open>log.lh.n\<close>.\<close>

definition log_index :: "(nat \<Rightarrow> u32) \<Rightarrow> u32 \<Rightarrow> nat \<Rightarrow> nat" where
  "log_index blk bno n = (case filter (\<lambda>i. blk i = bno) [0..<n] of [] \<Rightarrow> n | i # _ \<Rightarrow> i)"

definition log_write :: "nat \<Rightarrow> ('z log_st_scheme, unit) kmon" where
  "log_write b = (bind (acquire LLog) (\<lambda>_.
    bind (gets lh_n) (\<lambda>n.
    bind (gets log_size) (\<lambda>sz.
    if n \<ge> int LOGSIZE \<or> n \<ge> sint sz - 1 then panic ''too big a transaction''
     else (bind (gets log_outstanding) (\<lambda>out.
       if out < 1 then panic ''log_write outside of trans''
       else (bind (bufget b b_blockno) (\<lambda>bno.
         bind (gets (\<lambda>s. log_index (lh_block s) bno (nat n))) (\<lambda>i.
         bind (modify (\<lambda>s. s\<lparr>lh_block := (lh_block s)(i := bno)\<rparr>)) (\<lambda>_.
         bind (whenM (int i = n) (bind (bpin b) (\<lambda>_.
           modify (\<lambda>s. s\<lparr>lh_n := lh_n s + 1\<rparr>)))) (\<lambda>_.
         release LLog)))))))))))"

end
