(* ===== verification/Fs.thy ===== *)
theory Fs
  imports Log
begin

text \<open>
  The file system proper, \<^verbatim>\<open>kernel/fs.c\<close>: the superblock, the free-block bitmap, inodes and
  their block maps, directories and path names.  Blocks are byte lists; the on-disk
  structures are read and written at their byte offsets.  Path names and directory names
  are C strings without the terminator.

  \<^verbatim>\<open>readi\<close> and \<^verbatim>\<open>writei\<close> take the copy routine as an argument: \<open>readi\<close> and \<open>writei\<close> with
  \<^verbatim>\<open>either_copyout\<close> and \<^verbatim>\<open>either_copyin\<close>; \<open>readi_obj\<close> and \<open>writei_obj\<close> for calls whose buffer is a
  kernel variable, given by its bytes.
\<close>

unbundle bit_operations_syntax

section \<open>State\<close>

abbreviation (input) ROOTINO :: u32 where "ROOTINO \<equiv> 1"
abbreviation (input) FSMAGIC :: u32 where "FSMAGIC \<equiv> 0x10203040"
abbreviation (input) NDIRECT :: nat where "NDIRECT \<equiv> 12"
abbreviation (input) NINDIRECT :: nat where "NINDIRECT \<equiv> 256"
abbreviation (input) MAXFILE :: nat where "MAXFILE \<equiv> NDIRECT + NINDIRECT"
abbreviation (input) IPB :: u32 where "IPB \<equiv> 16"
abbreviation (input) BPB :: u32 where "BPB \<equiv> 8192"
abbreviation (input) DIRSIZ :: nat where "DIRSIZ \<equiv> 14"
abbreviation (input) T_DIR :: u16 where "T_DIR \<equiv> 1"
abbreviation (input) T_FILE :: u16 where "T_FILE \<equiv> 2"
abbreviation (input) T_DEVICE :: u16 where "T_DEVICE \<equiv> 3"

record superblock =
  sb_magic :: u32
  sb_size :: u32
  sb_nblocks :: u32
  sb_ninodes :: u32
  sb_nlog :: u32
  sb_logstart :: u32
  sb_inodestart :: u32
  sb_bmapstart :: u32

record inode =
  i_dev :: u32
  i_inum :: u32
  i_ref :: int
  i_valid :: bool
  i_type :: u16
  i_major :: u16
  i_minor :: u16
  i_nlink :: u16
  i_size :: u32
  i_addrs :: "nat \<Rightarrow> u32"

record dinode =
  d_type :: u16
  d_major :: u16
  d_minor :: u16
  d_nlink :: u16
  d_size :: u32
  d_addrs :: "nat \<Rightarrow> u32"

record dirent =
  de_inum :: u16
  de_name :: "u8 list"

record fs_st = log_st +
  sb :: superblock
  itable :: "nat \<Rightarrow> inode"

definition iget_f :: "nat \<Rightarrow> (inode \<Rightarrow> 'a) \<Rightarrow> ('z fs_st_scheme, 'a) kmon" where
  "iget_f ip f = gets (\<lambda>s. f (itable s ip))"

definition iset :: "nat \<Rightarrow> (inode \<Rightarrow> inode) \<Rightarrow> ('z fs_st_scheme, unit) kmon" where
  "iset ip f = modify (\<lambda>s. s\<lparr>itable := (itable s)(ip := f (itable s ip))\<rparr>)"

section \<open>Structures on disk\<close>

definition get16 :: "u8 list \<Rightarrow> nat \<Rightarrow> u16" where
  "get16 bs off = le_word (take 2 (drop off bs))"

definition splice :: "u8 list \<Rightarrow> nat \<Rightarrow> u8 list \<Rightarrow> u8 list" where
  "splice bs off xs = take off bs @ xs @ drop (off + length xs) bs"

definition IBLOCK :: "u32 \<Rightarrow> superblock \<Rightarrow> u32" where
  "IBLOCK i b = i div IPB + sb_inodestart b"

definition BBLOCK :: "u32 \<Rightarrow> superblock \<Rightarrow> u32" where
  "BBLOCK i b = i div BPB + sb_bmapstart b"

definition dinode_off :: "u32 \<Rightarrow> nat" where
  "dinode_off inum = 64 * unat (inum mod IPB)"

definition dinode_read :: "u8 list \<Rightarrow> nat \<Rightarrow> dinode" where
  "dinode_read bs off = \<lparr>d_type = get16 bs off, d_major = get16 bs (off + 2), d_minor = get16 bs (off + 4),
     d_nlink = get16 bs (off + 6), d_size = get32 bs (off + 8),
     d_addrs = (\<lambda>i. if i < 13 then get32 bs (off + 12 + 4 * i) else 0)\<rparr>"

definition dinode_bytes :: "dinode \<Rightarrow> u8 list" where
  "dinode_bytes d = le_bytes 2 (d_type d) @ le_bytes 2 (d_major d) @ le_bytes 2 (d_minor d) @
     le_bytes 2 (d_nlink d) @ le_bytes 4 (d_size d) @ concat (map (\<lambda>i. le_bytes 4 (d_addrs d i)) [0..<13])"

definition dirent_read :: "u8 list \<Rightarrow> dirent" where
  "dirent_read bs = \<lparr>de_inum = get16 bs 0, de_name = take 14 (drop 2 bs)\<rparr>"

definition dirent_bytes :: "dirent \<Rightarrow> u8 list" where
  "dirent_bytes d = le_bytes 2 (de_inum d) @ de_name d"

definition superblock_read :: "u8 list \<Rightarrow> superblock" where
  "superblock_read bs = \<lparr>sb_magic = get32 bs 0, sb_size = get32 bs 4, sb_nblocks = get32 bs 8,
     sb_ninodes = get32 bs 12, sb_nlog = get32 bs 16, sb_logstart = get32 bs 20,
     sb_inodestart = get32 bs 24, sb_bmapstart = get32 bs 28\<rparr>"

section \<open>Blocks\<close>

definition readsb :: "u32 \<Rightarrow> ('z fs_st_scheme, unit) kmon" where
  "readsb dev = (bind (bread dev 1) (\<lambda>bp.
    bind (bufget bp b_data) (\<lambda>d.
    bind (modify (\<lambda>s. s\<lparr>sb := superblock_read d\<rparr>)) (\<lambda>_.
    brelse bp))))"

definition fsinit :: "u32 \<Rightarrow> ('z fs_st_scheme, unit) kmon" where
  "fsinit dev = (bind (readsb dev) (\<lambda>_.
    bind (gets sb) (\<lambda>b.
    if sb_magic b \<noteq> FSMAGIC then panic ''invalid file system''
     else initlog dev (sb_logstart b) (sb_nlog b))))"

definition bzero :: "u32 \<Rightarrow> u32 \<Rightarrow> ('z fs_st_scheme, unit) kmon" where
  "bzero dev bno = (bind (bread dev bno) (\<lambda>bp.
    bind (bufset bp (\<lambda>x. x\<lparr>b_data := replicate BSIZE 0\<rparr>)) (\<lambda>_.
    bind (log_write bp) (\<lambda>_.
    brelse bp))))"

text \<open>The first clear bit below \<open>lim\<close> of a bitmap block.\<close>

definition bit_of :: "u8 list \<Rightarrow> nat \<Rightarrow> bool" where
  "bit_of bs bi = (bs ! (bi div 8) AND push_bit (bi mod 8) 1 \<noteq> 0)"

definition free_bit :: "u8 list \<Rightarrow> nat \<Rightarrow> nat option" where
  "free_bit bs lim = find (\<lambda>bi. \<not> bit_of bs bi) [0..<lim]"

definition set_bitmap :: "u8 list \<Rightarrow> nat \<Rightarrow> u8 list" where
  "set_bitmap bs bi = bs[bi div 8 := bs ! (bi div 8) OR push_bit (bi mod 8) 1]"

definition clear_bitmap :: "u8 list \<Rightarrow> nat \<Rightarrow> u8 list" where
  "clear_bitmap bs bi = bs[bi div 8 := bs ! (bi div 8) AND NOT (push_bit (bi mod 8) 1)]"

text \<open>The outer loop of \<^verbatim>\<open>balloc\<close>, over the bitmap blocks for \<open>b = 0, BPB, 2 * BPB, \<dots>\<close>.\<close>

function balloc_loop :: "u32 \<Rightarrow> nat \<Rightarrow> nat \<Rightarrow> ('z fs_st_scheme, u32) kmon" where
  "balloc_loop dev sz b =
     (if b < sz then (bind (gets sb) (\<lambda>sbk.
       bind (bread dev (BBLOCK (of_nat b) sbk)) (\<lambda>bp.
       bind (bufget bp b_data) (\<lambda>d.
       case free_bit d (min 8192 (sz - b)) of
          Some bi \<Rightarrow> (bind (bufset bp (\<lambda>x. x\<lparr>b_data := set_bitmap (b_data x) bi\<rparr>)) (\<lambda>_.
            bind (log_write bp) (\<lambda>_.
            bind (brelse bp) (\<lambda>_.
            bind (bzero dev (of_nat (b + bi))) (\<lambda>_.
            ret (of_nat (b + bi)))))))
        | None \<Rightarrow> (bind (brelse bp) (\<lambda>_.
          balloc_loop dev sz (b + 8192)))))))
      else panic ''balloc: out of blocks'')"
  by pat_completeness auto
termination
  by (relation "measure (\<lambda>(dev, sz, b). sz - b)") auto

declare balloc_loop.simps [simp del]

definition balloc :: "u32 \<Rightarrow> ('z fs_st_scheme, u32) kmon" where
  "balloc dev = (bind (gets sb) (\<lambda>sbk.
    balloc_loop dev (unat (sb_size sbk)) 0))"

definition bfree :: "u32 \<Rightarrow> u32 \<Rightarrow> ('z fs_st_scheme, unit) kmon" where
  "bfree dev b = (bind (gets sb) (\<lambda>sbk.
    bind (bread dev (BBLOCK b sbk)) (\<lambda>bp.
    bind (bufget bp b_data) (\<lambda>d.
    (let bi = unat (b mod BPB) in
    if \<not> bit_of d bi then panic ''freeing free block''
     else (bind (bufset bp (\<lambda>x. x\<lparr>b_data := clear_bitmap (b_data x) bi\<rparr>)) (\<lambda>_.
       bind (log_write bp) (\<lambda>_.
       brelse bp))))))))"

section \<open>Inodes\<close>

definition iinit :: "('z fs_st_scheme, unit) kmon" where
  "iinit = (bind (initlock LItable ''itable'') (\<lambda>_.
    forM [0..<NINODE] (\<lambda>i. initsleeplock (SlInode i) ''inode'')))"

definition iget :: "u32 \<Rightarrow> u32 \<Rightarrow> ('z fs_st_scheme, nat) kmon" where
  "iget dev inum = (bind (acquire LItable) (\<lambda>_.
    bind (gets itable) (\<lambda>it.
    case find (\<lambda>i. i_ref (it i) > 0 \<and> i_dev (it i) = dev \<and> i_inum (it i) = inum) [0..<NINODE] of
       Some ip \<Rightarrow> (bind (iset ip (\<lambda>x. x\<lparr>i_ref := i_ref x + 1\<rparr>)) (\<lambda>_.
         bind (release LItable) (\<lambda>_.
         ret ip)))
     | None \<Rightarrow>
         (case find (\<lambda>i. i_ref (it i) = 0) [0..<NINODE] of
            None \<Rightarrow> panic ''iget: no inodes''
          | Some ip \<Rightarrow> (bind (iset ip (\<lambda>x. x\<lparr>i_dev := dev, i_inum := inum, i_ref := 1, i_valid := False\<rparr>)) (\<lambda>_.
            bind (release LItable) (\<lambda>_.
            ret ip)))))))"

definition empty_dinode :: "u16 \<Rightarrow> dinode" where
  "empty_dinode type = \<lparr>d_type = type, d_major = 0, d_minor = 0, d_nlink = 0, d_size = 0, d_addrs = (\<lambda>_. 0)\<rparr>"

primrec ialloc_scan :: "u32 \<Rightarrow> u16 \<Rightarrow> nat list \<Rightarrow> ('z fs_st_scheme, nat) kmon" where
  "ialloc_scan dev type [] = panic ''ialloc: no inodes''"
| "ialloc_scan dev type (i # is) = (bind (gets sb) (\<lambda>sbk.
  bind (bread dev (IBLOCK (of_nat i) sbk)) (\<lambda>bp.
  bind (bufget bp b_data) (\<lambda>d.
  (let off = dinode_off (of_nat i) in
  if d_type (dinode_read d off) = 0 then (bind (bufset bp (\<lambda>x. x\<lparr>b_data := splice (b_data x) off (dinode_bytes (empty_dinode type))\<rparr>)) (\<lambda>_.
    bind (log_write bp) (\<lambda>_.
    bind (brelse bp) (\<lambda>_.
    iget dev (of_nat i)))))
     else (bind (brelse bp) (\<lambda>_.
       ialloc_scan dev type is)))))))"

definition ialloc :: "u32 \<Rightarrow> u16 \<Rightarrow> ('z fs_st_scheme, nat) kmon" where
  "ialloc dev type = (bind (gets sb) (\<lambda>sbk.
    ialloc_scan dev type [1..<unat (sb_ninodes sbk)]))"

definition inode_to_disk :: "inode \<Rightarrow> dinode" where
  "inode_to_disk x = \<lparr>d_type = i_type x, d_major = i_major x, d_minor = i_minor x, d_nlink = i_nlink x,
     d_size = i_size x, d_addrs = i_addrs x\<rparr>"

definition iupdate :: "nat \<Rightarrow> ('z fs_st_scheme, unit) kmon" where
  "iupdate ip = (bind (iget_f ip (\<lambda>x. x)) (\<lambda>x.
    bind (gets sb) (\<lambda>sbk.
    bind (bread (i_dev x) (IBLOCK (i_inum x) sbk)) (\<lambda>bp.
    bind (bufset bp (\<lambda>b. b\<lparr>b_data := splice (b_data b) (dinode_off (i_inum x)) (dinode_bytes (inode_to_disk x))\<rparr>)) (\<lambda>_.
    bind (log_write bp) (\<lambda>_.
    brelse bp))))))"

definition idup :: "nat \<Rightarrow> ('z fs_st_scheme, nat) kmon" where
  "idup ip = (bind (acquire LItable) (\<lambda>_.
    bind (iset ip (\<lambda>x. x\<lparr>i_ref := i_ref x + 1\<rparr>)) (\<lambda>_.
    bind (release LItable) (\<lambda>_.
    ret ip))))"

definition ilock :: "nat \<Rightarrow> ('z fs_st_scheme, unit) kmon" where
  "ilock ip = (bind (iget_f ip i_ref) (\<lambda>r.
    if r < 1 then panic ''ilock''
     else (bind (acquiresleep (SlInode ip)) (\<lambda>_.
       bind (iget_f ip (\<lambda>x. x)) (\<lambda>x.
       whenM (\<not> i_valid x) (bind (gets sb) (\<lambda>sbk.
         bind (bread (i_dev x) (IBLOCK (i_inum x) sbk)) (\<lambda>bp.
         bind (bufget bp (\<lambda>b. dinode_read (b_data b) (dinode_off (i_inum x)))) (\<lambda>d.
         bind (iset ip (\<lambda>x. x\<lparr>i_type := d_type d, i_major := d_major d, i_minor := d_minor d, i_nlink := d_nlink d,
           i_size := d_size d, i_addrs := d_addrs d\<rparr>)) (\<lambda>_.
         bind (brelse bp) (\<lambda>_.
         bind (iset ip (\<lambda>x. x\<lparr>i_valid := True\<rparr>)) (\<lambda>_.
         whenM (d_type d = 0) (panic ''ilock: no type'')))))))))))))"

definition iunlock :: "nat \<Rightarrow> ('z fs_st_scheme, unit) kmon" where
  "iunlock ip = (bind (holdingsleep (SlInode ip)) (\<lambda>h.
    bind (iget_f ip i_ref) (\<lambda>r.
    if \<not> h \<or> r < 1 then panic ''iunlock'' else releasesleep (SlInode ip))))"

definition bmap :: "nat \<Rightarrow> u32 \<Rightarrow> ('z fs_st_scheme, u32) kmon" where
  "bmap ip bn = (bind (iget_f ip (\<lambda>x. x)) (\<lambda>x.
    if bn < 12 then
       (if i_addrs x (unat bn) = 0 then (bind (balloc (i_dev x)) (\<lambda>addr.
         bind (iset ip (\<lambda>x. x\<lparr>i_addrs := (i_addrs x)(unat bn := addr)\<rparr>)) (\<lambda>_.
         ret addr)))
        else ret (i_addrs x (unat bn)))
     else if bn - 12 < 256 then (bind ((if i_addrs x NDIRECT = 0 then (bind (balloc (i_dev x)) (\<lambda>addr.
       bind (iset ip (\<lambda>x. x\<lparr>i_addrs := (i_addrs x)(NDIRECT := addr)\<rparr>)) (\<lambda>_.
       ret addr)))
        else ret (i_addrs x NDIRECT))) (\<lambda>ind.
       bind (bread (i_dev x) ind) (\<lambda>bp.
       bind (bufget bp (\<lambda>b. get32 (b_data b) (4 * unat (bn - 12)))) (\<lambda>a.
       bind ((if a = 0 then (bind (balloc (i_dev x)) (\<lambda>addr.
         bind (bufset bp (\<lambda>b. b\<lparr>b_data := put32 (b_data b) (4 * unat (bn - 12)) addr\<rparr>)) (\<lambda>_.
         bind (log_write bp) (\<lambda>_.
         ret addr))))
        else ret a)) (\<lambda>r.
       bind (brelse bp) (\<lambda>_.
       ret r))))))
     else panic ''bmap: out of range''))"

definition itrunc :: "nat \<Rightarrow> ('z fs_st_scheme, unit) kmon" where
  "itrunc ip = (bind (iget_f ip i_dev) (\<lambda>dev.
    bind (forM [0..<NDIRECT] (\<lambda>i. (bind (iget_f ip (\<lambda>x. i_addrs x i)) (\<lambda>a.
      whenM (a \<noteq> 0) (bind (bfree dev a) (\<lambda>_.
        iset ip (\<lambda>x. x\<lparr>i_addrs := (i_addrs x)(i := 0)\<rparr>))))))) (\<lambda>_.
    bind (iget_f ip (\<lambda>x. i_addrs x NDIRECT)) (\<lambda>ind.
    bind (whenM (ind \<noteq> 0) (bind (bread dev ind) (\<lambda>bp.
      bind (forM [0..<NINDIRECT] (\<lambda>j. (bind (bufget bp (\<lambda>b. get32 (b_data b) (4 * j))) (\<lambda>a.
        whenM (a \<noteq> 0) (bfree dev a))))) (\<lambda>_.
      bind (brelse bp) (\<lambda>_.
      bind (bfree dev ind) (\<lambda>_.
      iset ip (\<lambda>x. x\<lparr>i_addrs := (i_addrs x)(NDIRECT := 0)\<rparr>))))))) (\<lambda>_.
    bind (iset ip (\<lambda>x. x\<lparr>i_size := 0\<rparr>)) (\<lambda>_.
    iupdate ip))))))"

definition iput :: "nat \<Rightarrow> ('z fs_st_scheme, unit) kmon" where
  "iput ip = (bind (acquire LItable) (\<lambda>_.
    bind (iget_f ip (\<lambda>x. x)) (\<lambda>x.
    bind (whenM (i_ref x = 1 \<and> i_valid x \<and> i_nlink x = 0) (bind (acquiresleep (SlInode ip)) (\<lambda>_.
      bind (release LItable) (\<lambda>_.
      bind (itrunc ip) (\<lambda>_.
      bind (iset ip (\<lambda>x. x\<lparr>i_type := 0\<rparr>)) (\<lambda>_.
      bind (iupdate ip) (\<lambda>_.
      bind (iset ip (\<lambda>x. x\<lparr>i_valid := False\<rparr>)) (\<lambda>_.
      bind (releasesleep (SlInode ip)) (\<lambda>_.
      acquire LItable))))))))) (\<lambda>_.
    bind (iset ip (\<lambda>x. x\<lparr>i_ref := i_ref x - 1\<rparr>)) (\<lambda>_.
    release LItable)))))"

definition iunlockput :: "nat \<Rightarrow> ('z fs_st_scheme, unit) kmon" where
  "iunlockput ip = (bind (iunlock ip) (\<lambda>_.
    iput ip))"

section \<open>Reading and writing file contents\<close>

record stat =
  st_dev :: u32
  st_ino :: u32
  st_type :: u16
  st_nlink :: u16
  st_size :: u64

definition stati :: "nat \<Rightarrow> ('z fs_st_scheme, stat) kmon" where
  "stati ip = iget_f ip (\<lambda>x. \<lparr>st_dev = i_dev x, st_ino = i_inum x, st_type = i_type x,
     st_nlink = i_nlink x, st_size = ucast (i_size x)\<rparr>)"

text \<open>The number of bytes of one round: the rest of the request or of the block.\<close>

definition rwchunk :: "u32 \<Rightarrow> u32 \<Rightarrow> u32" where
  "rwchunk lft off = (if lft < 1024 - off mod 1024 then lft else 1024 - off mod 1024)"

lemma unat_rwchunk: "unat (rwchunk lft off) = min (unat lft) (1024 - unat off mod 1024)"
proof -
  have m: "unat (off mod 1024) = unat off mod 1024" by (simp add: unat_mod_distrib)
  have "off mod 1024 \<le> 1024" by (simp add: word_le_nat_alt m less_imp_le)
  then have "unat (1024 - off mod 1024) = 1024 - unat off mod 1024" by (simp add: unat_sub m)
  then show ?thesis by (simp add: rwchunk_def word_less_nat_alt min_def)
qed

lemma rwchunk_decreases:
  assumes "tot < n"
  shows "unat (n - (tot + rwchunk (n - tot) off)) < unat (n - tot)"
proof -
  have pos: "0 < unat (n - tot)" using assms by (simp add: unat_sub word_less_nat_alt less_imp_le)
  then have "0 < unat (rwchunk (n - tot) off)" by (simp add: unat_rwchunk)
  moreover have "rwchunk (n - tot) off \<le> n - tot" by (simp add: word_le_nat_alt unat_rwchunk)
  moreover have e: "n - (tot + rwchunk (n - tot) off) = (n - tot) - rwchunk (n - tot) off" by simp
  ultimately show ?thesis using pos unfolding e by (simp add: unat_sub)
qed

function readi_loop :: "nat \<Rightarrow> (u32 \<Rightarrow> u8 list \<Rightarrow> ('z fs_st_scheme, int) kmon) \<Rightarrow> u32 \<Rightarrow> u32 \<Rightarrow> u32 \<Rightarrow>
    u8 list \<Rightarrow> ('z fs_st_scheme, int \<times> u8 list) kmon" where
  "readi_loop ip copy off n tot acc =
     (if tot < n then (bind (iget_f ip i_dev) (\<lambda>dev.
       bind (bmap ip (off div 1024)) (\<lambda>addr.
       bind (bread dev addr) (\<lambda>bp.
       (let m = rwchunk (n - tot) off in
       bind (bufget bp (\<lambda>b. take (unat m) (drop (unat (off mod 1024)) (b_data b)))) (\<lambda>bs.
       bind (copy tot bs) (\<lambda>r.
       bind (brelse bp) (\<lambda>_.
       if r = - 1 then ret (- 1, acc)
        else readi_loop ip copy (off + m) n (tot + m) (acc @ bs)))))))))
      else ret (sint tot, acc))"
  by pat_completeness auto
termination
  by (relation "measure (\<lambda>(ip, copy, off, n, tot, acc). unat (n - tot))")
    (auto intro: rwchunk_decreases)

declare readi_loop.simps [simp del]

definition readi_with :: "nat \<Rightarrow> (u32 \<Rightarrow> u8 list \<Rightarrow> ('z fs_st_scheme, int) kmon) \<Rightarrow> u32 \<Rightarrow> u32 \<Rightarrow>
    ('z fs_st_scheme, int \<times> u8 list) kmon" where
  "readi_with ip copy off n = (bind (iget_f ip i_size) (\<lambda>sz.
    if off > sz \<or> off + n < off then ret (0, [])
     else readi_loop ip copy off (if off + n > sz then sz - off else n) 0 []))"

definition readi :: "nat \<Rightarrow> bool \<Rightarrow> u64 \<Rightarrow> u32 \<Rightarrow> u32 \<Rightarrow> ('z fs_st_scheme, int) kmon" where
  "readi ip user_dst dst off n = (bind (readi_with ip (\<lambda>tot bs. either_copyout user_dst (dst + ucast tot) bs) off n) (\<lambda>(r, _).
    ret r))"

definition readi_obj :: "nat \<Rightarrow> u32 \<Rightarrow> u32 \<Rightarrow> ('z fs_st_scheme, int \<times> u8 list) kmon" where
  "readi_obj ip off n = readi_with ip (\<lambda>tot bs. ret 0) off n"

text \<open>The loop of \<^verbatim>\<open>writei\<close>; it returns \<^verbatim>\<open>tot\<close> and the final \<^verbatim>\<open>off\<close>.\<close>

function writei_loop :: "nat \<Rightarrow> (u32 \<Rightarrow> u32 \<Rightarrow> ('z fs_st_scheme, int \<times> u8 list) kmon) \<Rightarrow> u32 \<Rightarrow> u32 \<Rightarrow> u32 \<Rightarrow>
    ('z fs_st_scheme, u32 \<times> u32) kmon" where
  "writei_loop ip copy off n tot =
     (if tot < n then (bind (iget_f ip i_dev) (\<lambda>dev.
       bind (bmap ip (off div 1024)) (\<lambda>addr.
       bind (bread dev addr) (\<lambda>bp.
       (let m = rwchunk (n - tot) off in
       bind (copy tot m) (\<lambda>rb.
       bind (bufset bp (\<lambda>b. b\<lparr>b_data := splice (b_data b) (unat (off mod 1024)) (snd rb)\<rparr>)) (\<lambda>_.
       if fst rb = - 1 then (bind (brelse bp) (\<lambda>_.
         ret (tot, off)))
        else (bind (log_write bp) (\<lambda>_.
          bind (brelse bp) (\<lambda>_.
          writei_loop ip copy (off + m) n (tot + m)))))))))))
      else ret (tot, off))"
  by pat_completeness auto
termination
  by (relation "measure (\<lambda>(ip, copy, off, n, tot). unat (n - tot))")
    (auto intro: rwchunk_decreases)

declare writei_loop.simps [simp del]

definition writei_with :: "nat \<Rightarrow> (u32 \<Rightarrow> u32 \<Rightarrow> ('z fs_st_scheme, int \<times> u8 list) kmon) \<Rightarrow> u32 \<Rightarrow> u32 \<Rightarrow>
    ('z fs_st_scheme, int) kmon" where
  "writei_with ip copy off n = (bind (iget_f ip i_size) (\<lambda>sz.
    if off > sz \<or> off + n < off then ret (- 1)
     else if unat (off + n) > MAXFILE * BSIZE then ret (- 1)
     else (bind (writei_loop ip copy off n 0) (\<lambda>(tot, off').
       bind (iget_f ip i_size) (\<lambda>sz2.
       bind (whenM (off' > sz2) (iset ip (\<lambda>x. x\<lparr>i_size := off'\<rparr>))) (\<lambda>_.
       bind (iupdate ip) (\<lambda>_.
       ret (sint tot))))))))"

definition writei :: "nat \<Rightarrow> bool \<Rightarrow> u64 \<Rightarrow> u32 \<Rightarrow> u32 \<Rightarrow> ('z fs_st_scheme, int) kmon" where
  "writei ip user_src src off n =
     writei_with ip (\<lambda>tot m. either_copyin user_src (src + ucast tot) (ucast m)) off n"

definition writei_obj :: "nat \<Rightarrow> u8 list \<Rightarrow> u32 \<Rightarrow> ('z fs_st_scheme, int) kmon" where
  "writei_obj ip bs off =
     writei_with ip (\<lambda>tot m. ret (0, take (unat m) (drop (unat tot) bs))) off (of_nat (length bs))"

section \<open>Directories\<close>

text \<open>\<^verbatim>\<open>strncmp\<close> on strings given as lists, where the end of a list stands for the terminator.\<close>

fun strncmp_list :: "nat \<Rightarrow> u8 list \<Rightarrow> u8 list \<Rightarrow> int" where
  "strncmp_list 0 xs ys = 0"
| "strncmp_list (Suc n) xs ys =
     (let c = (case xs of [] \<Rightarrow> 0 | x # _ \<Rightarrow> x); d = (case ys of [] \<Rightarrow> 0 | y # _ \<Rightarrow> y) in
      if c \<noteq> 0 \<and> c = d then strncmp_list n (tl xs) (tl ys) else uint c - uint d)"

definition namecmp :: "u8 list \<Rightarrow> u8 list \<Rightarrow> int" where
  "namecmp s t = strncmp_list DIRSIZ s t"

text \<open>\<^verbatim>\<open>strncpy\<close> of a string into a field of \<open>n\<close> bytes.\<close>

definition strncpy_list :: "u8 list \<Rightarrow> nat \<Rightarrow> u8 list" where
  "strncpy_list s n = take n s @ replicate (n - length s) 0"

text \<open>The directory slots below the size of the directory.\<close>

definition dir_slots :: "u32 \<Rightarrow> nat list" where
  "dir_slots sz = [0..<(unat sz + 15) div 16]"

primrec dirlookup_scan :: "nat \<Rightarrow> u8 list \<Rightarrow> nat list \<Rightarrow> ('z fs_st_scheme, (nat \<times> u32) option) kmon" where
  "dirlookup_scan dp name [] = ret None"
| "dirlookup_scan dp name (k # ks) = (bind (readi_obj dp (of_nat (16 * k)) 16) (\<lambda>(r, bs).
  if r \<noteq> 16 then panic ''dirlookup read''
     else ((let de = dirent_read bs in
       if de_inum de \<noteq> 0 \<and> namecmp name (de_name de) = 0 then (bind (iget_f dp i_dev) (\<lambda>dev.
         bind (iget dev (ucast (de_inum de))) (\<lambda>ip.
         ret (Some (ip, of_nat (16 * k))))))
       else dirlookup_scan dp name ks))))"

definition dirlookup :: "nat \<Rightarrow> u8 list \<Rightarrow> ('z fs_st_scheme, (nat \<times> u32) option) kmon" where
  "dirlookup dp name = (bind (iget_f dp i_type) (\<lambda>t.
    if t \<noteq> T_DIR then panic ''dirlookup not DIR''
     else (bind (iget_f dp i_size) (\<lambda>sz.
       dirlookup_scan dp name (dir_slots sz)))))"

text \<open>The offset of the first empty entry, or the first one past the end.\<close>

primrec dirlink_scan :: "nat \<Rightarrow> nat list \<Rightarrow> u32 \<Rightarrow> ('z fs_st_scheme, u32) kmon" where
  "dirlink_scan dp [] off = ret off"
| "dirlink_scan dp (k # ks) off = (bind (readi_obj dp (of_nat (16 * k)) 16) (\<lambda>(r, bs).
  if r \<noteq> 16 then panic ''dirlink read''
     else if de_inum (dirent_read bs) = 0 then ret (of_nat (16 * k))
     else dirlink_scan dp ks (of_nat (16 * (k + 1)))))"

definition dirlink :: "nat \<Rightarrow> u8 list \<Rightarrow> u32 \<Rightarrow> ('z fs_st_scheme, int) kmon" where
  "dirlink dp name inum = (bind (dirlookup dp name) (\<lambda>found.
    case found of
       Some (ip, _) \<Rightarrow> (bind (iput ip) (\<lambda>_.
         ret (- 1)))
     | None \<Rightarrow> (bind (iget_f dp i_size) (\<lambda>sz.
       bind (dirlink_scan dp (dir_slots sz) 0) (\<lambda>off.
       bind (writei_obj dp (dirent_bytes \<lparr>de_inum = ucast inum, de_name = strncpy_list name DIRSIZ\<rparr>) off) (\<lambda>r.
       if r \<noteq> 16 then panic ''dirlink'' else ret 0))))))"

section \<open>Path names\<close>

abbreviation (input) slash :: u8 where "slash \<equiv> 47"

text \<open>\<^verbatim>\<open>skipelem\<close>: the rest of the path and the element, or \<open>None\<close> for the null pointer.\<close>

definition skipelem :: "u8 list \<Rightarrow> (u8 list \<times> u8 list) option" where
  "skipelem path =
     (let p = dropWhile (\<lambda>c. c = slash) path in
      if p = [] then None
      else let s = takeWhile (\<lambda>c. c \<noteq> slash) p; q = dropWhile (\<lambda>c. c \<noteq> slash) p in
        Some (dropWhile (\<lambda>c. c = slash) q, if length s \<ge> DIRSIZ then take DIRSIZ s else s))"

lemma skipelem_shorter:
  assumes "skipelem path = Some (rest, name)"
  shows "length rest < length path"
proof -
  let ?p = "dropWhile (\<lambda>c. c = slash) path"
  have p: "?p \<noteq> []" and r: "rest = dropWhile (\<lambda>c. c = slash) (dropWhile (\<lambda>c. c \<noteq> slash) ?p)"
    using assms by (auto simp: skipelem_def Let_def split: if_splits)
  obtain c q where cq: "?p = c # q" using p by (cases ?p) auto
  then have "c \<noteq> slash" by (metis (mono_tags, lifting) hd_dropWhile list.sel(1) p)
  then have "length (dropWhile (\<lambda>c. c \<noteq> slash) ?p) < length ?p"
    using cq length_dropWhile_le [of "\<lambda>c. c \<noteq> slash" q] by (simp add: less_Suc_eq_le)
  moreover have "length rest \<le> length (dropWhile (\<lambda>c. c \<noteq> slash) ?p)"
    unfolding r by (rule length_dropWhile_le)
  moreover have "length ?p \<le> length path" by (rule length_dropWhile_le)
  ultimately show ?thesis by linarith
qed

function namex_loop :: "u8 list \<Rightarrow> bool \<Rightarrow> nat \<Rightarrow> u8 list \<Rightarrow> ('z fs_st_scheme, (nat \<times> u8 list) option) kmon" where
  "namex_loop path parent ip name =
     (case skipelem path of
        None \<Rightarrow> if parent then (bind (iput ip) (\<lambda>_.
          ret None)) else ret (Some (ip, name))
      | Some (rest, elem) \<Rightarrow> (bind (ilock ip) (\<lambda>_.
        bind (iget_f ip i_type) (\<lambda>t.
        if t \<noteq> T_DIR then (bind (iunlockput ip) (\<lambda>_.
          ret None))
          else if parent \<and> rest = [] then (bind (iunlock ip) (\<lambda>_.
            ret (Some (ip, elem))))
          else (bind (dirlookup ip elem) (\<lambda>next.
            case next of
              None \<Rightarrow> (bind (iunlockput ip) (\<lambda>_.
                ret None))
            | Some (nx, _) \<Rightarrow> (bind (iunlockput ip) (\<lambda>_.
              namex_loop rest parent nx elem))))))))"
  by pat_completeness auto
termination
  by (relation "measure (\<lambda>(path, parent, ip, name). length path)") (auto dest: skipelem_shorter)

declare namex_loop.simps [simp del]

definition namex :: "u8 list \<Rightarrow> bool \<Rightarrow> ('z fs_st_scheme, (nat \<times> u8 list) option) kmon" where
  "namex path parent = (bind ((if path \<noteq> [] \<and> hd path = slash then iget ROOTDEV ROOTINO
       else (bind curproc (\<lambda>p.
         bind (pget p p_cwd) (\<lambda>c.
         case c of None \<Rightarrow> panic ''null pointer'' | Some i \<Rightarrow> idup i))))) (\<lambda>ip.
    namex_loop path parent ip []))"

definition namei :: "u8 list \<Rightarrow> ('z fs_st_scheme, nat option) kmon" where
  "namei path = (bind (namex path False) (\<lambda>r.
    ret (map_option fst r)))"

definition nameiparent :: "u8 list \<Rightarrow> ('z fs_st_scheme, (nat \<times> u8 list) option) kmon" where
  "nameiparent path = namex path True"

end
