(* ===== verification/Console.thy ===== *)
theory Console
  imports Fs
begin

text \<open>
  Console output and input: \<^verbatim>\<open>kernel/uart.c\<close>, \<^verbatim>\<open>kernel/printf.c\<close>, \<^verbatim>\<open>kernel/console.c\<close> and \<^verbatim>\<open>procdump\<close>
  of \<^verbatim>\<open>kernel/proc.c\<close>.

  The 16550 UART itself is hardware.  Its side of the registers is part of the state:
  \<open>uart_thr_empty\<close> is the bit \<^verbatim>\<open>LSR_TX_IDLE\<close>, cleared when a byte is written to \<^verbatim>\<open>THR\<close> and set again
  by the device; \<open>uart_out\<close> lists the bytes written to \<^verbatim>\<open>THR\<close>; \<open>uart_in\<close> the received bytes
  that \<^verbatim>\<open>RHR\<close> delivers, with \<^verbatim>\<open>LSR_RX_READY\<close> set while there are any.  \<open>uart_regs\<close> records the
  configuration writes.  Waiting for the device, and the endless loop after a panic,
  end in \<open>Blocked\<close>.
\<close>

unbundle bit_operations_syntax

section \<open>The UART driver (uart.c)\<close>

abbreviation (input) UART_TX_BUF_SIZE :: u64 where "UART_TX_BUF_SIZE \<equiv> 32"

record uart_st = fs_st +
  uart_thr_empty :: bool
  uart_out :: "u8 list"
  uart_in :: "u8 list"
  uart_regs :: "(nat \<times> u8) list"
  uart_tx_buf :: "nat \<Rightarrow> u8"
  uart_tx_w :: u64
  uart_tx_r :: u64
  panicked :: bool
  pr_locking :: bool

definition WriteReg :: "nat \<Rightarrow> u8 \<Rightarrow> ('z uart_st_scheme, unit) kmon" where
  "WriteReg reg v = modify (\<lambda>s. s\<lparr>uart_regs := uart_regs s @ [(reg, v)]\<rparr>)"

definition write_THR :: "u8 \<Rightarrow> ('z uart_st_scheme, unit) kmon" where
  "write_THR c = modify (\<lambda>s. s\<lparr>uart_out := uart_out s @ [c], uart_thr_empty := False\<rparr>)"

definition uartinit :: "('z uart_st_scheme, unit) kmon" where
  "uartinit = (bind (WriteReg 1 0) (\<lambda>_.
    bind (WriteReg 3 128) (\<lambda>_.
    bind (WriteReg 0 3) (\<lambda>_.
    bind (WriteReg 1 0) (\<lambda>_.
    bind (WriteReg 3 3) (\<lambda>_.
    bind (WriteReg 2 (1 OR 6)) (\<lambda>_.
    bind (WriteReg 1 (2 OR 1)) (\<lambda>_.
    initlock LUart ''uart''))))))))"

text \<open>
  The loop of \<^verbatim>\<open>uartstart\<close> sends at least one buffered byte per round; the argument bounds the
  rounds, and the buffer holds at most \<^verbatim>\<open>UART_TX_BUF_SIZE\<close> bytes.
\<close>

primrec uartstart_loop :: "nat \<Rightarrow> ('z uart_st_scheme, unit) kmon" where
  "uartstart_loop 0 = block ChNull"
| "uartstart_loop (Suc k) = (bind (gets uart_tx_w) (\<lambda>w.
  bind (gets uart_tx_r) (\<lambda>r.
  if w = r then ret ()
     else (bind (gets uart_thr_empty) (\<lambda>idle.
       if \<not> idle then ret ()
       else (bind (gets (\<lambda>s. uart_tx_buf s (unat (r mod UART_TX_BUF_SIZE)))) (\<lambda>c.
         bind (modify (\<lambda>s. s\<lparr>uart_tx_r := r + 1\<rparr>)) (\<lambda>_.
         bind (wakeup ChUart) (\<lambda>_.
         bind (write_THR c) (\<lambda>_.
         uartstart_loop k))))))))))"

definition uartstart :: "('z uart_st_scheme, unit) kmon" where
  "uartstart = uartstart_loop 33"

definition uartputc_loop :: "u8 \<Rightarrow> ('z uart_st_scheme, unit) kmon" where
  "uartputc_loop c = (bind (gets uart_tx_w) (\<lambda>w.
    bind (gets uart_tx_r) (\<lambda>r.
    if w = r + UART_TX_BUF_SIZE then sleep ChUart LUart
     else (bind (modify (\<lambda>s. s\<lparr>uart_tx_buf := (uart_tx_buf s)(unat (w mod UART_TX_BUF_SIZE) := c), uart_tx_w := w + 1\<rparr>)) (\<lambda>_.
       bind uartstart (\<lambda>_.
       release LUart))))))"

definition uartputc :: "u8 \<Rightarrow> ('z uart_st_scheme, unit) kmon" where
  "uartputc c = (bind (acquire LUart) (\<lambda>_.
    bind (gets panicked) (\<lambda>pk.
    if pk then block ChNull else uartputc_loop c)))"

definition uartputc_resume :: "bool \<Rightarrow> u8 \<Rightarrow> ('z uart_st_scheme, unit) kmon" where
  "uartputc_resume saved c = (bind (sleep_resume saved LUart) (\<lambda>_.
    uartputc_loop c))"

definition uartputc_sync :: "u8 \<Rightarrow> ('z uart_st_scheme, unit) kmon" where
  "uartputc_sync c = (bind push_off (\<lambda>_.
    bind (gets panicked) (\<lambda>pk.
    if pk then block ChNull
     else (bind (gets uart_thr_empty) (\<lambda>idle.
       if \<not> idle then block ChNull
       else (bind (write_THR c) (\<lambda>_.
         pop_off)))))))"

definition uartgetc :: "('z uart_st_scheme, int) kmon" where
  "uartgetc = (bind (gets uart_in) (\<lambda>q.
    case q of [] \<Rightarrow> ret (- 1)
     | c # cs \<Rightarrow> (bind (modify (\<lambda>s. s\<lparr>uart_in := cs\<rparr>)) (\<lambda>_.
       ret (uint c)))))"

section \<open>Formatted output (printf.c)\<close>

definition chars :: "string \<Rightarrow> u8 list" where
  "chars s = map of_char s"

abbreviation (input) BACKSPACE :: int where "BACKSPACE \<equiv> 0x100"

definition consputc :: "int \<Rightarrow> ('z uart_st_scheme, unit) kmon" where
  "consputc c =
     (if c = BACKSPACE then (bind (uartputc_sync 8) (\<lambda>_.
       bind (uartputc_sync 32) (\<lambda>_.
       uartputc_sync 8)))
      else uartputc_sync (word_of_int c))"

definition digits :: "nat \<Rightarrow> u8" where
  "digits d = (if d < 10 then of_nat (48 + d) else of_nat (87 + d))"

text \<open>The \<^verbatim>\<open>do\<close> loop of \<^verbatim>\<open>printint\<close>: the digits of \<^verbatim>\<open>x\<close>, least significant first.\<close>

function digit_loop :: "nat \<Rightarrow> nat \<Rightarrow> u8 list" where
  "digit_loop x base =
     (if base \<le> 1 then [digits 0]
      else digits (x mod base) # (if x div base \<noteq> 0 then digit_loop (x div base) base else []))"
  by pat_completeness auto
termination
proof (relation "measure (\<lambda>(x, base). x)", goal_cases)
  case (2 x base)
  then show ?case by (cases "x = 0") (auto intro: div_less_dividend)
qed simp

declare digit_loop.simps [simp del]

text \<open>The characters \<^verbatim>\<open>printint\<close> puts into \<^verbatim>\<open>buf\<close> and prints backwards.\<close>

definition printint_chars :: "u32 \<Rightarrow> nat \<Rightarrow> bool \<Rightarrow> u8 list" where
  "printint_chars xx base sign =
     (let neg = (sign \<and> sint xx < 0); x = (if neg then - xx else xx) in
      rev (digit_loop (unat x) base @ (if neg then [45] else [])))"

definition put_chars :: "u8 list \<Rightarrow> ('z uart_st_scheme, unit) kmon" where
  "put_chars cs = forM cs (\<lambda>c. consputc (uint c))"

definition printint :: "u32 \<Rightarrow> nat \<Rightarrow> bool \<Rightarrow> ('z uart_st_scheme, unit) kmon" where
  "printint xx base sign = put_chars (printint_chars xx base sign)"

definition printptr :: "u64 \<Rightarrow> ('z uart_st_scheme, unit) kmon" where
  "printptr x = (bind (consputc 48) (\<lambda>_.
    bind (consputc 120) (\<lambda>_.
    forM [0..<16] (\<lambda>i. consputc (uint (digits (unat (drop_bit 60 (push_bit (4 * i) x)))))))))"

text \<open>The arguments of \<^verbatim>\<open>printf\<close>, as \<^verbatim>\<open>va_arg\<close> reads them.\<close>

datatype parg = PInt u32 | PPtr u64 | PStr "u8 list option"

definition arg_int :: "parg \<Rightarrow> u32" where
  "arg_int a = (case a of PInt x \<Rightarrow> x | PPtr x \<Rightarrow> ucast x | PStr _ \<Rightarrow> 0)"

definition arg_ptr :: "parg \<Rightarrow> u64" where
  "arg_ptr a = (case a of PInt x \<Rightarrow> ucast x | PPtr x \<Rightarrow> x | PStr _ \<Rightarrow> 0)"

definition arg_str :: "parg \<Rightarrow> u8 list" where
  "arg_str a = (case a of PStr (Some s) \<Rightarrow> s | _ \<Rightarrow> chars ''(null)'')"

fun printf_loop :: "u8 list \<Rightarrow> parg list \<Rightarrow> ('z uart_st_scheme, unit) kmon" where
  "printf_loop [] args = ret ()"
| "printf_loop (c # cs) args =
     (if c = 0 then ret ()
      else if c \<noteq> 37 then (bind (consputc (uint c)) (\<lambda>_.
        printf_loop cs args))
      else (case cs of
          [] \<Rightarrow> ret ()
        | d # ds \<Rightarrow>
            if d = 0 then ret ()
            else if d = 100 \<and> args \<noteq> [] then (bind (printint (arg_int (hd args)) 10 True) (\<lambda>_.
              printf_loop ds (tl args)))
            else if d = 120 \<and> args \<noteq> [] then (bind (printint (arg_int (hd args)) 16 True) (\<lambda>_.
              printf_loop ds (tl args)))
            else if d = 112 \<and> args \<noteq> [] then (bind (printptr (arg_ptr (hd args))) (\<lambda>_.
              printf_loop ds (tl args)))
            else if d = 115 \<and> args \<noteq> [] then (bind (put_chars (arg_str (hd args))) (\<lambda>_.
              printf_loop ds (tl args)))
            else if d = 37 then (bind (consputc 37) (\<lambda>_.
              printf_loop ds args))
            else (bind (consputc 37) (\<lambda>_.
              bind (consputc (uint d)) (\<lambda>_.
              printf_loop ds args)))))"

definition printf :: "u8 list \<Rightarrow> parg list \<Rightarrow> ('z uart_st_scheme, unit) kmon" where
  "printf fmt args = (bind (gets pr_locking) (\<lambda>locking.
    bind (whenM locking (acquire LPr)) (\<lambda>_.
    bind (printf_loop fmt args) (\<lambda>_.
    whenM locking (release LPr)))))"

definition panic_print :: "u8 list \<Rightarrow> ('z uart_st_scheme, unit) kmon" where
  "panic_print msg = (bind (modify (\<lambda>s. s\<lparr>pr_locking := False\<rparr>)) (\<lambda>_.
    bind (printf (chars ''panic: '') []) (\<lambda>_.
    bind (printf msg []) (\<lambda>_.
    bind (printf [10] []) (\<lambda>_.
    bind (modify (\<lambda>s. s\<lparr>panicked := True\<rparr>)) (\<lambda>_.
    block ChNull))))))"

definition printfinit :: "('z uart_st_scheme, unit) kmon" where
  "printfinit = (bind (initlock LPr ''pr'') (\<lambda>_.
    modify (\<lambda>s. s\<lparr>pr_locking := True\<rparr>)))"

definition state_name :: "procstate \<Rightarrow> u8 list" where
  "state_name st = chars (case st of UNUSED \<Rightarrow> ''unused'' | USED \<Rightarrow> ''???'' | SLEEPING \<Rightarrow> ''sleep ''
     | RUNNABLE \<Rightarrow> ''runble'' | RUNNING \<Rightarrow> ''run   '' | ZOMBIE \<Rightarrow> ''zombie'')"

definition procdump :: "('z uart_st_scheme, unit) kmon" where
  "procdump = (bind (printf [10] []) (\<lambda>_.
    forM [0..<NPROC] (\<lambda>p. (bind (pget p (\<lambda>q. q)) (\<lambda>q.
      whenM (p_state q \<noteq> UNUSED) (bind (printf (chars ''%d %s %s'') [PInt (p_pid q), PStr (Some (state_name (p_state q))), PStr (Some (p_name q))]) (\<lambda>_.
        printf [10] [])))))))"

section \<open>The console (console.c)\<close>

abbreviation (input) INPUT_BUF :: u32 where "INPUT_BUF \<equiv> 128"

record cons_st = uart_st +
  cons_buf :: "nat \<Rightarrow> u8"
  cons_r :: u32
  cons_w :: u32
  cons_e :: u32
  devsw_console :: bool

primrec consolewrite_loop :: "bool \<Rightarrow> u64 \<Rightarrow> nat \<Rightarrow> nat \<Rightarrow> ('z cons_st_scheme, int) kmon" where
  "consolewrite_loop user_src src i 0 = ret (int i)"
| "consolewrite_loop user_src src i (Suc k) = (bind (either_copyin user_src (src + of_nat i) 1) (\<lambda>(r, bs).
  if r = - 1 then ret (int i)
     else (bind (uartputc (hd bs)) (\<lambda>_.
       consolewrite_loop user_src src (i + 1) k))))"

definition consolewrite :: "bool \<Rightarrow> u64 \<Rightarrow> int \<Rightarrow> ('z cons_st_scheme, int) kmon" where
  "consolewrite user_src src n = consolewrite_loop user_src src 0 (nat n)"

text \<open>
  The loop of \<^verbatim>\<open>consoleread\<close> with \<open>k\<close> bytes still wanted of \<open>target\<close>; when no line is there it
  sleeps, and the resumed process runs the loop again.
\<close>

primrec consoleread_loop :: "bool \<Rightarrow> u64 \<Rightarrow> int \<Rightarrow> nat \<Rightarrow> ('z cons_st_scheme, int) kmon" where
  "consoleread_loop user_dst dst target 0 = (bind (release LCons) (\<lambda>_.
    ret target))"
| "consoleread_loop user_dst dst target (Suc k) = (bind (gets cons_r) (\<lambda>r.
  bind (gets cons_w) (\<lambda>w.
  if r = w then (bind curproc (\<lambda>p.
    bind (pget p p_killed) (\<lambda>killed.
    if killed then (bind (release LCons) (\<lambda>_.
      ret (- 1))) else sleep ChCons LCons)))
     else (bind (gets (\<lambda>s. cons_buf s (unat (r mod INPUT_BUF)))) (\<lambda>c.
       bind (modify (\<lambda>s. s\<lparr>cons_r := r + 1\<rparr>)) (\<lambda>_.
       if c = 4 then (bind (whenM (int (Suc k) < target) (modify (\<lambda>s. s\<lparr>cons_r := cons_r s - 1\<rparr>))) (\<lambda>_.
         bind (release LCons) (\<lambda>_.
         ret (target - int (Suc k)))))
       else (bind (either_copyout user_dst dst [c]) (\<lambda>x.
         if x = - 1 then (bind (release LCons) (\<lambda>_.
           ret (target - int (Suc k))))
         else if c = 10 then (bind (release LCons) (\<lambda>_.
           ret (target - int k)))
         else consoleread_loop user_dst (dst + 1) target k))))))))"

definition consoleread :: "bool \<Rightarrow> u64 \<Rightarrow> int \<Rightarrow> ('z cons_st_scheme, int) kmon" where
  "consoleread user_dst dst n = (bind (acquire LCons) (\<lambda>_.
    if n \<le> 0 then (bind (release LCons) (\<lambda>_.
      ret 0)) else consoleread_loop user_dst dst n (nat n)))"

definition consoleread_resume :: "bool \<Rightarrow> bool \<Rightarrow> u64 \<Rightarrow> int \<Rightarrow> nat \<Rightarrow> ('z cons_st_scheme, int) kmon" where
  "consoleread_resume saved user_dst dst target k = (bind (sleep_resume saved LCons) (\<lambda>_.
    consoleread_loop user_dst dst target k))"

text \<open>The \<^verbatim>\<open>while\<close> loop of the kill character: at most the \<^verbatim>\<open>INPUT_BUF\<close> characters being edited.\<close>

primrec kill_line :: "nat \<Rightarrow> ('z cons_st_scheme, unit) kmon" where
  "kill_line 0 = block ChNull"
| "kill_line (Suc k) = (bind (gets cons_e) (\<lambda>e.
  bind (gets cons_w) (\<lambda>w.
  bind (gets (\<lambda>s. cons_buf s (unat ((e - 1) mod INPUT_BUF)))) (\<lambda>c.
  if e \<noteq> w \<and> c \<noteq> 10 then (bind (modify (\<lambda>s. s\<lparr>cons_e := e - 1\<rparr>)) (\<lambda>_.
    bind (consputc BACKSPACE) (\<lambda>_.
    kill_line k)))
     else ret ()))))"

definition consoleintr :: "int \<Rightarrow> ('z cons_st_scheme, unit) kmon" where
  "consoleintr c = (bind (acquire LCons) (\<lambda>_.
    bind ((if c = 16 then procdump
      else if c = 21 then kill_line 129
      else if c = 8 \<or> c = 127 then (bind (gets cons_e) (\<lambda>e.
        bind (gets cons_w) (\<lambda>w.
        whenM (e \<noteq> w) (bind (modify (\<lambda>s. s\<lparr>cons_e := e - 1\<rparr>)) (\<lambda>_.
          consputc BACKSPACE)))))
      else (bind (gets cons_e) (\<lambda>e.
        bind (gets cons_r) (\<lambda>r.
        whenM (c \<noteq> 0 \<and> e - r < INPUT_BUF) ((let d = (if c = 13 then 10 else c) in
          bind (consputc d) (\<lambda>_.
          bind (modify (\<lambda>s. s\<lparr>cons_buf := (cons_buf s)(unat (e mod INPUT_BUF) := word_of_int d), cons_e := e + 1\<rparr>)) (\<lambda>_.
          whenM (d = 10 \<or> d = 4 \<or> e + 1 = r + INPUT_BUF) (bind (modify (\<lambda>s. s\<lparr>cons_w := e + 1\<rparr>)) (\<lambda>_.
            wakeup ChCons))))))))))) (\<lambda>_.
    release LCons)))"

definition consoleinit :: "('z cons_st_scheme, unit) kmon" where
  "consoleinit = (bind (initlock LCons ''cons'') (\<lambda>_.
    bind uartinit (\<lambda>_.
    modify (\<lambda>s. s\<lparr>devsw_console := True\<rparr>))))"

text \<open>\<^verbatim>\<open>uartintr\<close>: all the bytes received so far, then buffered output.\<close>

primrec uartintr_loop :: "nat \<Rightarrow> ('z cons_st_scheme, unit) kmon" where
  "uartintr_loop 0 = ret ()"
| "uartintr_loop (Suc k) = (bind uartgetc (\<lambda>c.
  if c = - 1 then ret () else (bind (consoleintr c) (\<lambda>_.
    uartintr_loop k))))"

definition uartintr :: "('z cons_st_scheme, unit) kmon" where
  "uartintr = (bind (gets (\<lambda>s. length (uart_in s))) (\<lambda>n.
    bind (uartintr_loop (Suc n)) (\<lambda>_.
    bind (acquire LUart) (\<lambda>_.
    bind uartstart (\<lambda>_.
    release LUart)))))"

end
