(* ===== verification/Ring.thy ===== *)
theory Ring
  imports Prelude
begin

text \<open>
  Ring buffers with free-running counters, as the pipes, the UART and the console use them:
  the read and write counters are machine words that are never reduced modulo the size of the
  buffer, whose size divides the range of the counters.  \<open>ring_list\<close> is the queue such a
  buffer holds, oldest byte first.
\<close>

definition ring_list :: "nat \<Rightarrow> (nat \<Rightarrow> 'b) \<Rightarrow> 'a::len word \<Rightarrow> 'a word \<Rightarrow> 'b list" where
  "ring_list N f r w = map (\<lambda>i. f (unat (r + of_nat i) mod N)) [0..<unat (w - r)]"

lemma length_ring_list [simp]: "length (ring_list N f r w) = unat (w - r)"
  by (simp add: ring_list_def)

lemma unat_ring_index:
  fixes r :: "'a::len word"
  assumes "N dvd 2 ^ LENGTH('a)"
  shows "unat (r + of_nat i) mod N = (unat r + i) mod N"
proof -
  have "unat (r + of_nat i) = (unat r + i) mod 2 ^ LENGTH('a)"
    by (simp add: unat_word_ariths unat_of_nat mod_simps)
  then show ?thesis using assms by (simp add: mod_mod_cancel)
qed

lemma ring_slots_distinct:
  fixes a :: nat
  assumes "i < n" "n < N"
  shows "(a + i) mod N \<noteq> (a + n) mod N"
proof
  assume "(a + i) mod N = (a + n) mod N"
  then have "N dvd (a + n) - (a + i)"
    by (metis assms(1) add_le_cancel_left less_imp_le_nat mod_eq_dvd_iff_nat)
  then have "N dvd n - i" by simp
  then show False using assms by (auto dest: dvd_imp_le)
qed

lemma ring_put:
  fixes r w :: "'a::len word"
  assumes dvd: "N dvd 2 ^ LENGTH('a)" and room: "unat (w - r) < N" and fits: "N < 2 ^ LENGTH('a)"
  shows "ring_list N (f(unat w mod N := c)) r (w + 1) = ring_list N f r w @ [c]"
proof -
  let ?n = "unat (w - r)"
  have w: "w = r + of_nat ?n" by simp
  have n1: "unat (w + 1 - r) = Suc ?n"
  proof -
    have eq: "w + 1 - r = 1 + (w - r)" by simp
    have ne: "1 + (w - r) \<noteq> 0"
    proof
      assume "1 + (w - r) = 0"
      then have "w - r = - 1" by (simp add: eq_neg_iff_add_eq_0 add.commute)
      then have "unat (w - r) = 2 ^ LENGTH('a) - 1" by (simp add: unsigned_minus_1_eq_mask mask_eq_exp_minus_1)
      then show False using room fits by simp
    qed
    show ?thesis unfolding eq by (rule unatSuc [OF ne])
  qed
  have wi: "unat w mod N = (unat r + ?n) mod N"
    using unat_ring_index [OF dvd, of r ?n] by simp
  have old: "(f(unat w mod N := c)) (unat (r + of_nat i) mod N) = f (unat (r + of_nat i) mod N)" if "i < ?n" for i
    using ring_slots_distinct [OF that room, of "unat r"] by (simp add: unat_ring_index [OF dvd] wi)
  have "map (\<lambda>i. (f(unat w mod N := c)) (unat (r + of_nat i) mod N)) [0..<?n] =
      map (\<lambda>i. f (unat (r + of_nat i) mod N)) [0..<?n]"
    by (rule map_cong [OF refl]) (simp only: old set_upt atLeastLessThan_iff)
  moreover have "(f(unat w mod N := c)) (unat (r + of_nat ?n) mod N) = c" by simp
  ultimately show ?thesis
    unfolding ring_list_def n1 by (simp del: fun_upd_apply)
qed

lemma ring_take:
  fixes r w :: "'a::len word"
  assumes "r \<noteq> w"
  shows "ring_list N f r w = f (unat r mod N) # ring_list N f (r + 1) w"
proof -
  have "w - r \<noteq> 0" using assms by simp
  then have n: "unat (w - r) = Suc (unat (w - (r + 1)))"
    using unat_minus_one [of "w - r"] by (simp add: diff_diff_eq unat_eq_0 [symmetric])
  have m: "map (\<lambda>i. f (unat (r + of_nat i) mod N)) [0..<Suc m] =
      f (unat r mod N) # map (\<lambda>i. f (unat (r + 1 + of_nat i) mod N)) [0..<m]" for m
    by (subst upt_conv_Cons) (simp_all add: map_Suc_upt [symmetric] add.assoc del: upt_Suc)
  show ?thesis unfolding ring_list_def n by (rule m)
qed

lemma ring_nil_iff:
  fixes r w :: "'a::len word"
  shows "ring_list N f r w = [] \<longleftrightarrow> r = w"
  by (metis length_0_conv length_ring_list right_minus_eq unat_eq_0)

lemma word_of_nat_unat_eq: "of_nat (unat x) = x"
  by simp

lemma ring_full_iff:
  fixes r w :: "'a::len word"
  assumes "N < 2 ^ LENGTH('a)"
  shows "length (ring_list N f r w) = N \<longleftrightarrow> w = r + of_nat N"
proof
  assume "length (ring_list N f r w) = N"
  then have "w - r = of_nat N" using word_of_nat_unat_eq [of "w - r"] by simp
  then show "w = r + of_nat N" by (simp add: algebra_simps)
next
  assume "w = r + of_nat N"
  then show "length (ring_list N f r w) = N" using assms by (simp add: unat_of_nat)
qed

section \<open>Bounded queues\<close>

text \<open>
  The contract of a bounded first-in first-out queue: what the producer and the consumer of a
  ring rely on.
\<close>

locale bounded_fifo =
  fixes cap :: nat
    and put :: "'b \<Rightarrow> 'q \<Rightarrow> 'q"
    and head :: "'q \<Rightarrow> 'b"
    and take1 :: "'q \<Rightarrow> 'q"
    and full :: "'q \<Rightarrow> bool"
    and empty :: "'q \<Rightarrow> bool"
    and contents :: "'q \<Rightarrow> 'b list"
  assumes put: "\<lbrakk>length (contents q) \<le> cap; \<not> full q\<rbrakk> \<Longrightarrow> contents (put x q) = contents q @ [x]"
    and take1: "\<not> empty q \<Longrightarrow> contents q = head q # contents (take1 q)"
    and full: "full q \<longleftrightarrow> length (contents q) = cap"
    and empty: "empty q \<longleftrightarrow> contents q = []"
begin

text \<open>
  A history of the queue: \<open>Inl x\<close> is a put of \<open>x\<close>, which the producer does only if the queue is
  not full, and \<open>Inr ()\<close> a take, which the consumer does only if it is not empty.
\<close>

fun run :: "('b + unit) list \<Rightarrow> 'q \<Rightarrow> 'b list \<times> 'b list \<times> 'q" where
  "run [] q = ([], [], q)"
| "run (Inl x # es) q = (if full q then run es q
     else let (ins, outs, q') = run es (put x q) in (x # ins, outs, q'))"
| "run (Inr u # es) q = (if empty q then run es q
     else let (ins, outs, q') = run es (take1 q) in (ins, head q # outs, q'))"

lemma run_fifo:
  assumes "length (contents q) \<le> cap" and "run es q = (ins, outs, q')"
  shows "contents q @ ins = outs @ contents q' \<and> length (contents q') \<le> cap"
  using assms
proof (induction es q arbitrary: ins outs rule: run.induct)
  case (1 q)
  then show ?case by simp
next
  case (2 x es q)
  show ?case
  proof (cases "full q")
    case True
    then show ?thesis using 2 by simp
  next
    case False
    then have "length (contents (put x q)) \<le> cap" and c: "contents (put x q) = contents q @ [x]"
      using 2(3) full put by (auto simp: le_less)
    then show ?thesis using 2(2) [OF False _ ] 2(4) False by (auto split: prod.splits)
  qed
next
  case (3 u es q)
  show ?case
  proof (cases "empty q")
    case True
    then show ?thesis using 3 by simp
  next
    case False
    then have c: "contents q = head q # contents (take1 q)" by (rule take1)
    then have "length (contents (take1 q)) \<le> cap" using 3(3) by simp
    then show ?thesis using 3(2) [OF False] 3(4) False c by (auto split: prod.splits)
  qed
qed

end

end
