(* ===== verification/Frames.thy ===== *)
theory Frames
  imports Sleeplock
begin

text \<open>
  Which part of the state a routine can change.  \<open>st_of\<close> is the state a routine leaves
  behind, whether it returns or blocks; \<open>keeps R m\<close> says that this state is always related
  to the initial one by \<open>R\<close>.  The locale \<open>frame\<close> has the rules for any reflexive and
  transitive \<open>R\<close>.  Locking, sleeping and waking only change the control state of the kernel:
  registers, the per-CPU structures, the locks and the process table.
\<close>

fun st_of :: "('a, 's) res \<Rightarrow> 's option" where
  "st_of (Ok x t) = Some t"
| "st_of (Panic e) = None"
| "st_of (Blocked c t) = Some t"

definition keeps :: "('s \<Rightarrow> 's \<Rightarrow> bool) \<Rightarrow> ('s, 'a) kmon \<Rightarrow> bool" where
  "keeps R m = (\<forall>s t. st_of (m s) = Some t \<longrightarrow> R s t)"

lemma keepsD: "\<lbrakk>keeps R m; st_of (m s) = Some t\<rbrakk> \<Longrightarrow> R s t"
  by (simp add: keeps_def)

lemma keeps_Ok: "\<lbrakk>keeps R m; m s = Ok x t\<rbrakk> \<Longrightarrow> R s t"
  by (simp add: keeps_def)

lemma keeps_Blocked: "\<lbrakk>keeps R m; m s = Blocked c t\<rbrakk> \<Longrightarrow> R s t"
  by (simp add: keeps_def)

lemma bind_gets: "bind (gets f) g s = g (f s) s"
  by (simp add: bind_apply)

lemma bind_modify: "bind (modify f) g s = g () (f s)"
  by (simp add: bind_apply)

lemma st_of_bind:
  "st_of (bind m f s) = Some u \<longleftrightarrow>
     (\<exists>x t. m s = Ok x t \<and> st_of (f x t) = Some u) \<or> (\<exists>c. m s = Blocked c u)"
  by (auto simp: bind_apply split: res.splits)

locale frame =
  fixes R :: "'s \<Rightarrow> 's \<Rightarrow> bool"
  assumes refl: "R s s"
    and trans: "\<lbrakk>R s t; R t u\<rbrakk> \<Longrightarrow> R s u"
begin

lemma keeps_ret: "keeps R (ret x)"
  by (simp add: keeps_def refl)

lemma keeps_gets: "keeps R (gets f)"
  by (simp add: keeps_def refl)

lemma keeps_panic: "keeps R (panic e)"
  by (simp add: keeps_def)

lemma keeps_block: "keeps R (block c)"
  by (simp add: keeps_def refl)

lemma keeps_modify: "(\<And>s. R s (f s)) \<Longrightarrow> keeps R (modify f)"
  by (simp add: keeps_def)

lemma keeps_bind:
  assumes "keeps R m" and "\<And>x. keeps R (f x)"
  shows "keeps R (bind m f)"
  unfolding keeps_def
proof (intro allI impI)
  fix s u
  assume "st_of (bind m f s) = Some u"
  then consider x t where "m s = Ok x t" "st_of (f x t) = Some u" | c where "m s = Blocked c u"
    by (auto simp: st_of_bind)
  then show "R s u"
  proof cases
    case 1
    then show ?thesis using assms trans by (metis keepsD st_of.simps(1))
  next
    case 2
    then show ?thesis using assms(1) by (metis keepsD st_of.simps(3))
  qed
qed

lemma keeps_whenM: "keeps R m \<Longrightarrow> keeps R (whenM b m)"
  by (simp add: keeps_def refl)

lemma keeps_forM: "(\<And>x. keeps R (f x)) \<Longrightarrow> keeps R (forM xs f)"
  by (induction xs) (simp_all add: keeps_ret keeps_bind)

lemma keeps_if: "\<lbrakk>b \<Longrightarrow> keeps R m; \<not> b \<Longrightarrow> keeps R n\<rbrakk> \<Longrightarrow> keeps R (if b then m else n)"
  by simp

lemma keeps_option: "\<lbrakk>keeps R m; \<And>x. keeps R (f x)\<rbrakk> \<Longrightarrow> keeps R (case v of None \<Rightarrow> m | Some x \<Rightarrow> f x)"
  by (simp split: option.split)

lemmas keeps_rules = keeps_ret keeps_gets keeps_panic keeps_block keeps_bind keeps_whenM keeps_forM
  keeps_if keeps_option

end

section \<open>Control state\<close>

definition quiet :: "'z sleep_st_scheme \<Rightarrow> 'z sleep_st_scheme \<Rightarrow> bool" where
  "quiet s t = (\<exists>h c l p k. t = s\<lparr>harts := h, cpus := c, locks := l, procs := p, sleeplocks := k\<rparr>)"

lemma quietI:
  "t = s\<lparr>harts := h, cpus := c, locks := l, procs := p, sleeplocks := k\<rparr> \<Longrightarrow> quiet s t"
  unfolding quiet_def by blast

lemma quiet_trans:
  assumes "quiet s t" and "quiet t u"
  shows "quiet s u"
proof -
  obtain h c l p k where t: "t = s\<lparr>harts := h, cpus := c, locks := l, procs := p, sleeplocks := k\<rparr>"
    using assms(1) unfolding quiet_def by blast
  obtain h' c' l' p' k' where u: "u = t\<lparr>harts := h', cpus := c', locks := l', procs := p', sleeplocks := k'\<rparr>"
    using assms(2) unfolding quiet_def by blast
  show ?thesis
    by (rule quietI [where h = h' and c = c' and l = l' and p = p' and k = k']) (simp add: u t)
qed

interpretation qf: frame quiet
proof
  show "quiet s s" for s :: "'z sleep_st_scheme"
    unfolding quiet_def
    by (rule exI [of _ "harts s"], rule exI [of _ "cpus s"], rule exI [of _ "locks s"],
        rule exI [of _ "procs s"], rule exI [of _ "sleeplocks s"]) simp
  show "\<lbrakk>quiet s t; quiet t u\<rbrakk> \<Longrightarrow> quiet s u" for s t u :: "'z sleep_st_scheme"
    by (rule quiet_trans)
qed

lemma quiet_harts: "quiet s (s\<lparr>harts := h\<rparr>)"
  by (rule quietI [where c = "cpus s" and l = "locks s" and p = "procs s" and k = "sleeplocks s"]) simp

lemma quiet_cpus: "quiet s (s\<lparr>cpus := c\<rparr>)"
  by (rule quietI [where h = "harts s" and l = "locks s" and p = "procs s" and k = "sleeplocks s"]) simp

lemma quiet_locks: "quiet s (s\<lparr>locks := l\<rparr>)"
  by (rule quietI [where h = "harts s" and c = "cpus s" and p = "procs s" and k = "sleeplocks s"]) simp

lemma quiet_procs: "quiet s (s\<lparr>procs := p\<rparr>)"
  by (rule quietI [where h = "harts s" and c = "cpus s" and l = "locks s" and k = "sleeplocks s"]) simp

lemma quiet_sleeplocks: "quiet s (s\<lparr>sleeplocks := k\<rparr>)"
  by (rule quietI [where h = "harts s" and c = "cpus s" and l = "locks s" and p = "procs s"]) simp

named_theorems quiet_ops "routines that only change the control state"

lemma quiet_intr_get [quiet_ops]: "keeps quiet intr_get"
  by (simp add: keeps_def qf.refl)

lemma quiet_intr_off [quiet_ops]: "keeps quiet intr_off"
  by (simp add: keeps_def set_sie_def quiet_harts)

lemma quiet_intr_on [quiet_ops]: "keeps quiet intr_on"
  by (simp add: keeps_def set_sie_def quiet_harts)

lemma quiet_get_cpu [quiet_ops]: "keeps quiet (get_cpu f)"
  by (simp add: keeps_def qf.refl)

lemma quiet_set_cpu [quiet_ops]: "keeps quiet (set_cpu f)"
  by (simp add: keeps_def quiet_cpus)

lemma quiet_mycpu [quiet_ops]: "keeps quiet mycpu"
  by (simp add: keeps_def qf.refl)

lemma quiet_push_off [quiet_ops]: "keeps quiet push_off"
  unfolding push_off_def by (intro qf.keeps_rules quiet_ops)

lemma quiet_pop_off [quiet_ops]: "keeps quiet pop_off"
  unfolding pop_off_def by (intro qf.keeps_rules quiet_ops)

lemma quiet_holding [quiet_ops]: "keeps quiet (holding l)"
  unfolding holding_def by (intro qf.keeps_rules quiet_ops)

lemma quiet_acquire [quiet_ops]: "keeps quiet (acquire l)"
  unfolding acquire_def acquire_enter_def test_and_set_def set_owner_def
  by (intro qf.keeps_rules quiet_ops qf.keeps_modify quiet_locks)

lemma quiet_release [quiet_ops]: "keeps quiet (release l)"
  unfolding release_def release_enter_def sync_lock_release_def
  by (intro qf.keeps_rules quiet_ops qf.keeps_modify quiet_locks)

lemma quiet_myproc [quiet_ops]: "keeps quiet myproc"
  unfolding myproc_def by (intro qf.keeps_rules quiet_ops)

lemma quiet_curproc [quiet_ops]: "keeps quiet curproc"
  unfolding curproc_def by (intro qf.keeps_rules quiet_ops)

lemma quiet_pget [quiet_ops]: "keeps quiet (pget p f)"
  unfolding pget_def by (intro qf.keeps_rules)

lemma quiet_pset [quiet_ops]: "keeps quiet (pset p f)"
  unfolding pset_def by (intro qf.keeps_modify quiet_procs)

lemma quiet_sched [quiet_ops]: "keeps quiet sched"
  unfolding sched_def by (intro qf.keeps_rules quiet_ops)

lemma quiet_sleep [quiet_ops]: "keeps quiet (sleep ch lk)"
  unfolding sleep_def by (intro qf.keeps_rules quiet_ops)

lemma quiet_wakeup [quiet_ops]: "keeps quiet (wakeup ch)"
  unfolding wakeup_def wakeup_one_def by (intro qf.keeps_rules quiet_ops)

lemma quiet_sl_set [quiet_ops]: "keeps quiet (sl_set k f)"
  unfolding sl_set_def by (intro qf.keeps_modify quiet_sleeplocks)

lemma quiet_acquiresleep [quiet_ops]: "keeps quiet (acquiresleep k)"
  unfolding acquiresleep_def acquiresleep_loop_def by (intro qf.keeps_rules quiet_ops)

lemma quiet_releasesleep [quiet_ops]: "keeps quiet (releasesleep k)"
  unfolding releasesleep_def by (intro qf.keeps_rules quiet_ops)

lemma quiet_holdingsleep [quiet_ops]: "keeps quiet (holdingsleep k)"
  unfolding holdingsleep_def by (intro qf.keeps_rules quiet_ops)

lemma sched_no_return: "sched s \<noteq> Ok x t"
  by (auto simp: sched_def bind_Ok_iff split: if_splits)

lemma sleep_no_return: "sleep ch lk s \<noteq> Ok x t"
  by (auto simp: sleep_def bind_Ok_iff sched_no_return)

end
