(* ===== verification/UserCopy.thy ===== *)
theory UserCopy
  imports AddrSpace
begin

text \<open>
  Copies from user space.  \<open>uaddr\<close> is the translation that \<^verbatim>\<open>walkaddr\<close> computes, as a function of
  memory; \<open>ubyte\<close> the byte a user address denotes, if the page is mapped for user access.
\<close>

unbundle bit_operations_syntax

primrec lookup_loop :: "memory \<Rightarrow> nat \<Rightarrow> u64 \<Rightarrow> u64 \<Rightarrow> u64" where
  "lookup_loop m 0 pt va = slot pt (PX 0 va)"
| "lookup_loop m (Suc l) pt va =
     (let e = read64 m (slot pt (PX (Suc l) va)) in
      if e AND PTE_V \<noteq> 0 then lookup_loop m l (PTE2PA e) va else 0)"

definition uaddr :: "memory \<Rightarrow> u64 \<Rightarrow> u64 \<Rightarrow> u64" where
  "uaddr m pt va =
     (if va \<ge> MAXVA then 0
      else let p = lookup_loop m 2 pt va; e = read64 m p in
        if p = 0 then 0 else if e AND PTE_V = 0 then 0 else if e AND PTE_U = 0 then 0 else PTE2PA e)"

definition ubyte :: "memory \<Rightarrow> u64 \<Rightarrow> u64 \<Rightarrow> u8 option" where
  "ubyte m pt va =
     (let pa = uaddr m pt (PGROUNDDOWN va) in
      if pa = 0 then None else Some (m (pa + (va - PGROUNDDOWN va))))"

lemma walk_loop_lookup: "walk_loop l pt va False s = Ok (lookup_loop (mem s) l pt va) s"
  by (induction l arbitrary: pt) (simp_all add: mon_simps get_pte_def Let_def)

lemma walkaddr_uaddr: "walkaddr pt va s = Ok (uaddr (mem s) pt va) s"
  by (auto simp: walkaddr_def uaddr_def walk_def walk_loop_lookup mon_simps get_pte_def Let_def)

lemma chunk_same_page:
  assumes "i < unat (chunk va len)"
  shows "PGROUNDDOWN (va + of_nat i) = PGROUNDDOWN va"
proof -
  have i: "i < 4096 - unat va mod 4096" using assms by (simp add: unat_chunk)
  have lt: "unat va mod 4096 + i < 4096" using i by simp
  have q: "unat va = 4096 * (unat va div 4096) + unat va mod 4096" by simp
  have div: "(unat va + i) div 4096 = unat va div 4096"
    using lt by (subst div_add1_eq) simp
  have "unat va div 4096 < 2 ^ 52" using unat_lt_u64 [of va] by simp
  then have "unat va div 4096 \<le> 4503599627370495" by simp
  then have "unat va + i < 18446744073709551616" using lt q by linarith
  then have "unat (va + of_nat i) = unat va + i"
    using i by (simp add: unat_word_ariths unat_of_nat)
  then show ?thesis
    by (simp add: word_eq_unat PGROUNDDOWN_unat div)
qed

lemma ubyte_chunk:
  assumes "i < unat (chunk va len)"
  shows "ubyte m pt (va + of_nat i) =
    (if uaddr m pt (PGROUNDDOWN va) = 0 then None
     else Some (m (uaddr m pt (PGROUNDDOWN va) + (va - PGROUNDDOWN va) + of_nat i)))"
  by (simp add: ubyte_def chunk_same_page [OF assms] Let_def algebra_simps)

lemma chunk_next:
  assumes "chunk va len \<noteq> len"
  shows "PGROUNDDOWN va + PGSIZE = va + chunk va len"
  using assms by (simp add: chunk_def Let_def split: if_splits)

text \<open>The outcome of \<^verbatim>\<open>copyin\<close>: all the bytes, or an error as soon as one is not mapped.\<close>

lemma copyin_obj_bytes:
  "\<exists>r bs. copyin_obj pt va len s = Ok (r, bs) s \<and>
     (r = 0 \<and> map Some bs = map (\<lambda>i. ubyte (mem s) pt (va + of_nat i)) [0..<unat len] \<or>
      r = - 1 \<and> (\<exists>i < unat len. ubyte (mem s) pt (va + of_nat i) = None))"
proof (induction "unat len" arbitrary: va len rule: less_induct)
  case less
  let ?pa = "uaddr (mem s) pt (PGROUNDDOWN va)" and ?c = "chunk va len"
  show ?case
  proof (cases "len = 0")
    case True
    then show ?thesis by (subst copyin_obj.simps) simp
  next
    case False
    then have len: "0 < len" by (simp add: word_neq_0_conv)
    have pos: "0 < unat ?c" using chunk_pos [OF len] .
    show ?thesis
    proof (cases "?pa = 0")
      case True
      then have "ubyte (mem s) pt (va + of_nat 0) = None" using ubyte_chunk [OF pos] by simp
      moreover have "0 < unat len" using False by (simp add: unat_gt_0)
      ultimately show ?thesis using False True
        by (subst copyin_obj.simps) (auto simp: mon_simps walkaddr_uaddr word_neq_0_conv)
    next
      case ok: False
      define va' where "va' = PGROUNDDOWN va + PGSIZE"
      have cl: "unat ?c \<le> unat len" using chunk_le [of va len] by (simp add: word_le_nat_alt)
      have rest: "unat (len - ?c) = unat len - unat ?c" using chunk_le by (simp add: unat_sub)
      obtain r bs where rec: "copyin_obj pt va' (len - ?c) s = Ok (r, bs) s"
        and out: "r = 0 \<and> map Some bs = map (\<lambda>i. ubyte (mem s) pt (va' + of_nat i)) [0..<unat (len - ?c)] \<or>
          r = - 1 \<and> (\<exists>i < unat (len - ?c). ubyte (mem s) pt (va' + of_nat i) = None)"
        using less [of "len - ?c" va'] chunk_decreases [of len va] False by (auto simp: word_neq_0_conv)
      have shift: "va' + of_nat i = va + of_nat (unat ?c + i)" if "i < unat (len - ?c)" for i
      proof -
        have "?c \<noteq> len" using that by auto
        then show ?thesis using chunk_next [of va len] by (simp add: va'_def add.assoc)
      qed
      let ?b = "bytes (mem s) (?pa + (va - PGROUNDDOWN va)) (unat ?c)"
      have first: "map Some ?b = map (\<lambda>i. ubyte (mem s) pt (va + of_nat i)) [0..<unat ?c]"
        by (rule nth_equalityI) (simp_all add: nth_bytes ubyte_chunk ok)
      have run: "copyin_obj pt va len s = Ok (r, ?b @ bs) s"
        using len ok rec by (subst copyin_obj.simps) (simp add: mon_simps walkaddr_uaddr va'_def)
      show ?thesis
      proof (cases "r = 0")
        case True
        then have "map Some bs = map (\<lambda>i. ubyte (mem s) pt (va' + of_nat i)) [0..<unat (len - ?c)]"
          using out by auto
        also have "\<dots> = map (\<lambda>i. ubyte (mem s) pt (va + of_nat (unat ?c + i))) [0..<unat (len - ?c)]"
          by (rule map_cong) (simp_all only: shift set_upt atLeastLessThan_iff)
        also have "\<dots> = map (\<lambda>i. ubyte (mem s) pt (va + of_nat i)) [unat ?c..<unat len]"
          by (rule nth_equalityI) (simp_all add: rest)
        finally have "map Some (?b @ bs) = map (\<lambda>i. ubyte (mem s) pt (va + of_nat i)) ([0..<unat ?c] @ [unat ?c..<unat len])"
          using first by simp
        then have "map Some (?b @ bs) = map (\<lambda>i. ubyte (mem s) pt (va + of_nat i)) [0..<unat len]"
          using upt_add_eq_append [of 0 "unat ?c" "unat len - unat ?c"] cl by simp
        then show ?thesis using run True by blast
      next
        case False
        then obtain i where i: "r = - 1" "i < unat (len - ?c)" "ubyte (mem s) pt (va' + of_nat i) = None"
          using out by auto
        then have "unat ?c + i < unat len" "ubyte (mem s) pt (va + of_nat (unat ?c + i)) = None"
          using shift [OF i(2)] rest by (simp_all only:)
        then show ?thesis using run i(1) by blast
      qed
    qed
  qed
qed

lemma copyin_byte:
  "copyin_obj pt va 1 s = (case ubyte (mem s) pt va of None \<Rightarrow> Ok (- 1, []) s | Some b \<Rightarrow> Ok (0, [b]) s)"
proof -
  have c: "chunk va 1 = 1"
    using unat_chunk [of va 1] by (simp add: word_eq_unat)
  have "copyin_obj pt x 0 s = Ok (0, []) s" for x
    by (subst copyin_obj.simps) simp
  then show ?thesis
    by (subst copyin_obj.simps) (simp add: mon_simps walkaddr_uaddr c ubyte_def Let_def)
qed

text \<open>
  C15: \<^verbatim>\<open>copyin\<close> into a kernel object always returns and changes nothing else.  It returns 0 with
  exactly the bytes the user addresses denote, page by page, or -1 when one of the bytes lies in
  a page that is not mapped for user access.
\<close>

theorem copyin_correct:
  "\<exists>r bs. copyin_obj pt va len s = Ok (r, bs) s \<and>
     (r = 0 \<and> map Some bs = map (\<lambda>i. ubyte (mem s) pt (va + of_nat i)) [0..<unat len] \<or>
      r = - 1 \<and> (\<exists>i < unat len. ubyte (mem s) pt (va + of_nat i) = None))"
  by (rule copyin_obj_bytes)

end
