(* ===== verification/Pipe.thy ===== *)
theory Pipe
  imports Console Ring Frames UserCopy
begin

text \<open>
  Pipes, \<^verbatim>\<open>kernel/pipe.c\<close>.  A \<^verbatim>\<open>struct pipe\<close> occupies a page from \<^verbatim>\<open>kalloc\<close> and is kept beside
  the byte memory, under the address of that page.  \<^verbatim>\<open>nread\<close> and \<^verbatim>\<open>nwrite\<close> are free-running
  32-bit counters; their difference is the number of bytes in the ring.

  \<^verbatim>\<open>pipewrite\<close> and \<^verbatim>\<open>piperead\<close> sleep inside their loops.  \<open>pipewrite_loop\<close> takes the number of
  bytes written so far, which the resumed process continues with.
\<close>

unbundle bit_operations_syntax

abbreviation (input) PIPESIZE :: nat where "PIPESIZE \<equiv> 512"

record pipe =
  pi_data :: "nat \<Rightarrow> u8"
  nread :: u32
  nwrite :: u32
  readopen :: bool
  writeopen :: bool

record pipe_st = cons_st +
  pipes :: "u64 \<Rightarrow> pipe"

definition piget :: "u64 \<Rightarrow> (pipe \<Rightarrow> 'a) \<Rightarrow> ('z pipe_st_scheme, 'a) kmon" where
  "piget pi f = gets (\<lambda>s. f (pipes s pi))"

definition piset :: "u64 \<Rightarrow> (pipe \<Rightarrow> pipe) \<Rightarrow> ('z pipe_st_scheme, unit) kmon" where
  "piset pi f = modify (\<lambda>s. s\<lparr>pipes := (pipes s)(pi := f (pipes s pi))\<rparr>)"

section \<open>The ring\<close>

definition pipe_full :: "pipe \<Rightarrow> bool" where
  "pipe_full x = (nwrite x = nread x + of_nat PIPESIZE)"

definition pipe_empty :: "pipe \<Rightarrow> bool" where
  "pipe_empty x = (nread x = nwrite x)"

definition pipe_put :: "u8 \<Rightarrow> pipe \<Rightarrow> pipe" where
  "pipe_put ch x = x\<lparr>pi_data := (pi_data x)(unat (nwrite x) mod PIPESIZE := ch), nwrite := nwrite x + 1\<rparr>"

definition pipe_head :: "pipe \<Rightarrow> u8" where
  "pipe_head x = pi_data x (unat (nread x) mod PIPESIZE)"

definition pipe_take :: "pipe \<Rightarrow> pipe" where
  "pipe_take x = x\<lparr>nread := nread x + 1\<rparr>"

section \<open>Operations\<close>

definition pipeclose :: "u64 \<Rightarrow> bool \<Rightarrow> ('z pipe_st_scheme, unit) kmon" where
  "pipeclose pi writable = (bind (acquire (LPipe pi)) (\<lambda>_.
    bind ((if writable then (bind (piset pi (\<lambda>x. x\<lparr>writeopen := False\<rparr>)) (\<lambda>_.
      wakeup (ChPipeRead pi)))
     else (bind (piset pi (\<lambda>x. x\<lparr>readopen := False\<rparr>)) (\<lambda>_.
       wakeup (ChPipeWrite pi))))) (\<lambda>_.
    bind (piget pi (\<lambda>x. x)) (\<lambda>x.
    if \<not> readopen x \<and> \<not> writeopen x then (bind (release (LPipe pi)) (\<lambda>_.
      kfree pi))
    else release (LPipe pi)))))"

function pipewrite_loop :: "u64 \<Rightarrow> nat \<Rightarrow> u64 \<Rightarrow> int \<Rightarrow> int \<Rightarrow> ('z pipe_st_scheme, int) kmon" where
  "pipewrite_loop pi pr addr n i =
     (if i < n then (bind (piget pi (\<lambda>x. x)) (\<lambda>x.
       bind (pget pr p_killed) (\<lambda>killed.
       if \<not> readopen x \<or> killed then (bind (release (LPipe pi)) (\<lambda>_.
         ret (- 1)))
        else if pipe_full x then (bind (wakeup (ChPipeRead pi)) (\<lambda>_.
          sleep (ChPipeWrite pi) (LPipe pi)))
        else (bind (pget pr p_pagetable) (\<lambda>pt.
          bind (copyin_obj pt (addr + of_int i) 1) (\<lambda>(r, bs).
          if r = - 1 then (bind (wakeup (ChPipeRead pi)) (\<lambda>_.
            bind (release (LPipe pi)) (\<lambda>_.
            ret i)))
          else (bind (piset pi (pipe_put (hd bs))) (\<lambda>_.
            pipewrite_loop pi pr addr n (i + 1)))))))))
      else (bind (wakeup (ChPipeRead pi)) (\<lambda>_.
        bind (release (LPipe pi)) (\<lambda>_.
        ret i))))"
  by pat_completeness auto
termination
  by (relation "measure (\<lambda>(pi, pr, addr, n, i). nat (n - i))") auto

declare pipewrite_loop.simps [simp del]

definition pipewrite :: "u64 \<Rightarrow> u64 \<Rightarrow> int \<Rightarrow> ('z pipe_st_scheme, int) kmon" where
  "pipewrite pi addr n = (bind curproc (\<lambda>pr.
    bind (acquire (LPipe pi)) (\<lambda>_.
    pipewrite_loop pi pr addr n 0)))"

definition pipewrite_resume :: "bool \<Rightarrow> u64 \<Rightarrow> u64 \<Rightarrow> int \<Rightarrow> int \<Rightarrow> ('z pipe_st_scheme, int) kmon" where
  "pipewrite_resume saved pi addr n i = (bind (sleep_resume saved (LPipe pi)) (\<lambda>_.
    bind curproc (\<lambda>pr.
    pipewrite_loop pi pr addr n i)))"

function piperead_copy :: "u64 \<Rightarrow> nat \<Rightarrow> u64 \<Rightarrow> int \<Rightarrow> int \<Rightarrow> ('z pipe_st_scheme, int) kmon" where
  "piperead_copy pi pr addr n i =
     (if i < n then (bind (piget pi (\<lambda>x. x)) (\<lambda>x.
       if pipe_empty x then ret i
        else (bind (piset pi pipe_take) (\<lambda>_.
          bind (pget pr p_pagetable) (\<lambda>pt.
          bind (copyout_obj pt (addr + of_int i) [pipe_head x]) (\<lambda>r.
          if r = - 1 then ret i else piperead_copy pi pr addr n (i + 1)))))))
      else ret i)"
  by pat_completeness auto
termination
  by (relation "measure (\<lambda>(pi, pr, addr, n, i). nat (n - i))") auto

declare piperead_copy.simps [simp del]

definition piperead_loop :: "u64 \<Rightarrow> nat \<Rightarrow> u64 \<Rightarrow> int \<Rightarrow> ('z pipe_st_scheme, int) kmon" where
  "piperead_loop pi pr addr n = (bind (piget pi (\<lambda>x. x)) (\<lambda>x.
    if pipe_empty x \<and> writeopen x then (bind (pget pr p_killed) (\<lambda>killed.
      if killed then (bind (release (LPipe pi)) (\<lambda>_.
        ret (- 1)))
      else sleep (ChPipeRead pi) (LPipe pi)))
    else (bind (piperead_copy pi pr addr n 0) (\<lambda>i.
      bind (wakeup (ChPipeWrite pi)) (\<lambda>_.
      bind (release (LPipe pi)) (\<lambda>_.
      ret i))))))"

definition piperead :: "u64 \<Rightarrow> u64 \<Rightarrow> int \<Rightarrow> ('z pipe_st_scheme, int) kmon" where
  "piperead pi addr n = (bind curproc (\<lambda>pr.
    bind (acquire (LPipe pi)) (\<lambda>_.
    piperead_loop pi pr addr n)))"

definition piperead_resume :: "bool \<Rightarrow> u64 \<Rightarrow> u64 \<Rightarrow> int \<Rightarrow> ('z pipe_st_scheme, int) kmon" where
  "piperead_resume saved pi addr n = (bind (sleep_resume saved (LPipe pi)) (\<lambda>_.
    bind curproc (\<lambda>pr.
    piperead_loop pi pr addr n)))"

section \<open>The ring is a queue\<close>

definition pipe_contents :: "pipe \<Rightarrow> u8 list" where
  "pipe_contents x = ring_list PIPESIZE (pi_data x) (nread x) (nwrite x)"

interpretation pipe_q: bounded_fifo PIPESIZE pipe_put pipe_head pipe_take pipe_full pipe_empty pipe_contents
proof
  fix q :: pipe and x :: u8
  show full: "pipe_full q \<longleftrightarrow> length (pipe_contents q) = PIPESIZE"
    unfolding pipe_full_def pipe_contents_def by (subst ring_full_iff) simp_all
  show "pipe_contents (pipe_put x q) = pipe_contents q @ [x]"
    if "length (pipe_contents q) \<le> PIPESIZE" "\<not> pipe_full q"
  proof -
    have "unat (nwrite q - nread q) < PIPESIZE"
      using that full by (simp add: pipe_contents_def)
    moreover have "(PIPESIZE :: nat) dvd 2 ^ LENGTH(32)" by simp
    ultimately show ?thesis
      unfolding pipe_contents_def pipe_put_def by (simp add: ring_put)
  qed
  show "pipe_contents q = pipe_head q # pipe_contents (pipe_take q)" if "\<not> pipe_empty q"
    using that by (simp add: pipe_contents_def pipe_head_def pipe_take_def pipe_empty_def ring_take)
  show "pipe_empty q \<longleftrightarrow> pipe_contents q = []"
    by (simp add: pipe_empty_def pipe_contents_def ring_nil_iff)
qed

lemma quiet_pipes: "quiet s t \<Longrightarrow> pipes t = pipes s \<and> mem t = mem s"
  by (auto simp: quiet_def)

text \<open>The user bytes that \<^verbatim>\<open>pipewrite\<close> puts into the pipe from position \<open>i\<close> on.\<close>

definition user_run :: "memory \<Rightarrow> u64 \<Rightarrow> u64 \<Rightarrow> int \<Rightarrow> u8 list \<Rightarrow> bool" where
  "user_run m pt addr i ws =
     (map Some ws = map (\<lambda>k. ubyte m pt (addr + of_int (i + int k))) [0..<length ws])"

lemma user_run_Nil [simp]: "user_run m pt addr i []"
  by (simp add: user_run_def)

lemma user_run_Cons:
  "\<lbrakk>ubyte m pt (addr + of_int i) = Some b; user_run m pt addr (i + 1) ws\<rbrakk> \<Longrightarrow> user_run m pt addr i (b # ws)"
  unfolding user_run_def
  by (simp add: upt_conv_Cons map_Suc_upt [symmetric] add.assoc del: upt_Suc)

lemma pipewrite_end:
  fixes s :: "'z pipe_st_scheme" and r :: 'b
  assumes "st_of (bind (wakeup ch) (\<lambda>_. bind (release l) (\<lambda>_. ret r)) s) = Some t"
  shows "pipes t = pipes s \<and> mem t = mem s"
proof -
  have "keeps quiet (bind (wakeup ch) (\<lambda>_. bind (release l) (\<lambda>_. ret r)) :: ('z pipe_st_scheme, 'b) kmon)"
    by (intro qf.keeps_rules quiet_ops)
  from keepsD [OF this assms] show ?thesis by (rule quiet_pipes)
qed

lemma pipewrite_abort:
  fixes s :: "'z pipe_st_scheme" and r :: 'b
  assumes "st_of (bind (release l) (\<lambda>_. ret r) s) = Some t"
  shows "pipes t = pipes s \<and> mem t = mem s"
proof -
  have "keeps quiet (bind (release l) (\<lambda>_. ret r) :: ('z pipe_st_scheme, 'b) kmon)"
    by (intro qf.keeps_rules quiet_ops)
  from keepsD [OF this assms] show ?thesis by (rule quiet_pipes)
qed

lemma pipewrite_wait:
  fixes s :: "'z pipe_st_scheme"
  assumes "st_of ((bind (wakeup ch) (\<lambda>_. sleep ch' l) :: ('z pipe_st_scheme, 'b) kmon) s) = Some t"
  shows "pipes t = pipes s \<and> mem t = mem s"
proof -
  have "keeps quiet (bind (wakeup ch) (\<lambda>_. sleep ch' l) :: ('z pipe_st_scheme, 'b) kmon)"
    by (intro qf.keeps_rules quiet_ops)
  from keepsD [OF this assms] show ?thesis by (rule quiet_pipes)
qed

definition appended :: "u64 \<Rightarrow> u64 \<Rightarrow> u64 \<Rightarrow> int \<Rightarrow> 'z pipe_st_scheme \<Rightarrow> 'z pipe_st_scheme \<Rightarrow> u8 list \<Rightarrow> bool" where
  "appended pi pt addr i s t ws =
     (pipe_contents (pipes t pi) = pipe_contents (pipes s pi) @ ws \<and> length (pipe_contents (pipes t pi)) \<le> PIPESIZE \<and>
      (\<forall>q. q \<noteq> pi \<longrightarrow> pipes t q = pipes s q) \<and> mem t = mem s \<and> user_run (mem s) pt addr i ws)"

lemma appended_Nil:
  "\<lbrakk>pipes t = pipes s \<and> mem t = mem s; length (pipe_contents (pipes s pi)) \<le> PIPESIZE\<rbrakk> \<Longrightarrow> appended pi pt addr i s t []"
  by (simp add: appended_def)

lemma appended_Cons:
  assumes "appended pi pt addr (i + 1) (s\<lparr>pipes := (pipes s)(pi := pipe_put b (pipes s pi))\<rparr>) t ws"
    and "length (pipe_contents (pipes s pi)) \<le> PIPESIZE" "\<not> pipe_full (pipes s pi)"
    and "ubyte (mem s) pt (addr + of_int i) = Some b"
  shows "appended pi pt addr i s t (b # ws)"
  using assms(1) pipe_q.put [OF assms(2,3), of b] user_run_Cons [OF assms(4), of ws]
  by (auto simp: appended_def)

lemma pipewrite_loop_appends:
  fixes s :: "'z pipe_st_scheme"
  assumes "length (pipe_contents (pipes s pi)) \<le> PIPESIZE"
    and "st_of (pipewrite_loop pi pr addr n i s) = Some t"
  shows "\<exists>ws. appended pi (p_pagetable (procs s pr)) addr i s t ws \<and>
     (\<forall>r. pipewrite_loop pi pr addr n i s = Ok r t \<longrightarrow> r = - 1 \<or> r = i + int (length ws))"
  using assms
proof (induction "nat (n - i)" arbitrary: i s rule: less_induct)
  case less
  let ?x = "pipes s pi" and ?pt = "p_pagetable (procs s pr)"
  note unf = pipewrite_loop.simps [of pi pr addr n i]
  consider "\<not> i < n" | "i < n" "\<not> readopen ?x \<or> p_killed (procs s pr)"
    | "i < n" "readopen ?x" "\<not> p_killed (procs s pr)" "pipe_full ?x"
    | "i < n" "readopen ?x" "\<not> p_killed (procs s pr)" "\<not> pipe_full ?x" "ubyte (mem s) ?pt (addr + of_int i) = None"
    | b where "i < n" "readopen ?x" "\<not> p_killed (procs s pr)" "\<not> pipe_full ?x" "ubyte (mem s) ?pt (addr + of_int i) = Some b"
    by fastforce
  then show ?case
  proof cases
    case 1
    then have eq: "pipewrite_loop pi pr addr n i s = bind (wakeup (ChPipeRead pi)) (\<lambda>_. bind (release (LPipe pi)) (\<lambda>_. ret i)) s"
      by (simp add: unf)
    have "appended pi ?pt addr i s t []"
      by (rule appended_Nil [OF pipewrite_end [OF less.prems(2) [unfolded eq]] less.prems(1)])
    then show ?thesis by (auto simp: eq bind_Ok_iff)
  next
    case 2
    then have eq: "pipewrite_loop pi pr addr n i s = bind (release (LPipe pi)) (\<lambda>_. ret (- 1)) s"
      by (auto simp: unf bind_apply piget_def pget_def)
    have "appended pi ?pt addr i s t []"
      by (rule appended_Nil [OF pipewrite_abort [OF less.prems(2) [unfolded eq]] less.prems(1)])
    then show ?thesis by (auto simp: eq bind_Ok_iff)
  next
    case 3
    then have eq: "pipewrite_loop pi pr addr n i s = bind (wakeup (ChPipeRead pi)) (\<lambda>_. sleep (ChPipeWrite pi) (LPipe pi)) s"
      by (simp add: unf bind_gets bind_modify piget_def pget_def)
    have "appended pi ?pt addr i s t []"
      by (rule appended_Nil [OF pipewrite_wait [OF less.prems(2) [unfolded eq]] less.prems(1)])
    then show ?thesis by (auto simp: eq bind_Ok_iff sleep_no_return)
  next
    case 4
    then have eq: "pipewrite_loop pi pr addr n i s = bind (wakeup (ChPipeRead pi)) (\<lambda>_. bind (release (LPipe pi)) (\<lambda>_. ret i)) s"
      by (simp add: unf bind_gets bind_modify
          bind_apply [of "copyin_obj a b c" for a b c] piget_def pget_def copyin_byte)
    have "appended pi ?pt addr i s t []"
      by (rule appended_Nil [OF pipewrite_end [OF less.prems(2) [unfolded eq]] less.prems(1)])
    then show ?thesis by (auto simp: eq bind_Ok_iff)
  next
    case (5 b)
    let ?s = "s\<lparr>pipes := (pipes s)(pi := pipe_put b ?x)\<rparr>"
    have eq: "pipewrite_loop pi pr addr n i s = pipewrite_loop pi pr addr n (i + 1) ?s"
      using 5 by (simp add: unf bind_gets bind_modify
          bind_apply [of "copyin_obj a b c" for a b c]
          piget_def piset_def pget_def copyin_byte)
    have len: "length (pipe_contents (pipes ?s pi)) \<le> PIPESIZE"
      using pipe_q.put [OF less.prems(1) 5(4), of b] less.prems(1) 5(4) pipe_q.full [of ?x] by simp
    obtain ws where ws: "appended pi ?pt addr (i + 1) ?s t ws"
      "\<forall>r. pipewrite_loop pi pr addr n (i + 1) ?s = Ok r t \<longrightarrow> r = - 1 \<or> r = i + 1 + int (length ws)"
      using less.hyps [of "i + 1" ?s] 5(1) len less.prems(2) unfolding eq by auto
    have "appended pi ?pt addr i s t (b # ws)"
      using appended_Cons [OF ws(1) less.prems(1) 5(4,5)] .
    then show ?thesis using ws(2) unfolding eq by (intro exI [of _ "b # ws"]) auto
  qed
qed

section \<open>Reading\<close>

lemma copyout_byte:
  "copyout_obj pt va [b] s =
     (if uaddr (mem s) pt (PGROUNDDOWN va) = 0 then Ok (- 1) s
      else Ok 0 (s\<lparr>mem := write_bytes (mem s) (uaddr (mem s) pt (PGROUNDDOWN va) + (va - PGROUNDDOWN va)) [b]\<rparr>))"
proof -
  have "unat va mod 4096 < 4096" by simp
  then obtain k where k: "4096 - unat va mod 4096 = Suc k" by (metis Suc_diff_Suc diff_zero)
  have "copyout_obj pt x [] s' = Ok 0 s'" for x and s' :: "'a kmem_st_scheme"
    by (subst copyout_obj.simps) simp
  then show ?thesis
    by (subst copyout_obj.simps) (simp add: bind_apply walkaddr_uaddr k)
qed

text \<open>
  One call of the copy loop takes a prefix of the queue, in order.  It stops when the queue is
  empty, when \<open>n\<close> bytes are delivered, or when a byte cannot be stored at the user address; in
  the last case that byte has left the queue and is not counted.
\<close>

lemma piperead_copy_takes:
  fixes s :: "'z pipe_st_scheme"
  shows "\<exists>r t ws. piperead_copy pi pr addr n i s = Ok r t \<and> pipe_contents (pipes s pi) = ws @ pipe_contents (pipes t pi) \<and>
     (\<forall>q. q \<noteq> pi \<longrightarrow> pipes t q = pipes s q) \<and>
     (r = i + int (length ws) \<and> (n \<le> r \<or> pipe_contents (pipes t pi) = []) \<or> ws \<noteq> [] \<and> r = i + int (length ws) - 1)"
proof (induction "nat (n - i)" arbitrary: i s rule: less_induct)
  case less
  let ?x = "pipes s pi"
  note unf = piperead_copy.simps [of pi pr addr n i]
  let ?s = "s\<lparr>pipes := (pipes s)(pi := pipe_take ?x)\<rparr>"
  let ?va = "addr + of_int i" and ?pt = "p_pagetable (procs s pr)"
  let ?pa = "uaddr (mem s) ?pt (PGROUNDDOWN ?va)"
  consider "\<not> i < n" | "i < n" "pipe_empty ?x" | "i < n" "\<not> pipe_empty ?x" "?pa = 0" | "i < n" "\<not> pipe_empty ?x" "?pa \<noteq> 0"
    by blast
  then show ?case
  proof cases
    case 1
    then show ?thesis by (simp add: unf)
  next
    case 2
    then show ?thesis by (simp add: unf bind_gets piget_def pipe_q.empty)
  next
    case 3
    then have "piperead_copy pi pr addr n i s = Ok i ?s"
      by (simp add: unf bind_gets bind_modify piget_def piset_def pget_def bind_apply [of "copyout_obj a b c" for a b c] copyout_byte)
    moreover have "pipe_contents ?x = [pipe_head ?x] @ pipe_contents (pipes ?s pi)"
      using pipe_q.take1 [OF 3(2)] by simp
    ultimately show ?thesis by (intro exI [of _ i] exI [of _ ?s] exI [of _ "[pipe_head ?x]"]) simp
  next
    case 4
    let ?t = "?s\<lparr>mem := write_bytes (mem s) (?pa + (?va - PGROUNDDOWN ?va)) [pipe_head ?x]\<rparr>"
    have eq: "piperead_copy pi pr addr n i s = piperead_copy pi pr addr n (i + 1) ?t"
      using 4 by (simp add: unf bind_gets bind_modify piget_def piset_def pget_def bind_apply [of "copyout_obj a b c" for a b c] copyout_byte)
    obtain r t ws where rec: "piperead_copy pi pr addr n (i + 1) ?t = Ok r t"
      "pipe_contents (pipes ?t pi) = ws @ pipe_contents (pipes t pi)" "\<forall>q. q \<noteq> pi \<longrightarrow> pipes t q = pipes ?t q"
      "r = i + 1 + int (length ws) \<and> (n \<le> r \<or> pipe_contents (pipes t pi) = []) \<or> ws \<noteq> [] \<and> r = i + 1 + int (length ws) - 1"
      using less [of "i + 1" ?t] 4(1) by auto
    have "pipe_contents ?x = (pipe_head ?x # ws) @ pipe_contents (pipes t pi)"
      using pipe_q.take1 [OF 4(2)] rec(2) by simp
    then show ?thesis using rec
      by (intro exI [of _ r] exI [of _ t] exI [of _ "pipe_head ?x # ws"]) (auto simp: eq)
  qed
qed

text \<open>
  C7: the ring of a pipe is a bounded queue.  Whatever the order in which writers put bytes
  (when the ring is not full) and readers take them (when it is not empty), and wherever the
  32-bit counters start, wrap-around included: the bytes put are the bytes taken followed by
  the bytes still in the ring, in order, and the ring never holds more than \<^verbatim>\<open>PIPESIZE\<close> bytes.
\<close>

theorem pipe_refines_fifo:
  "case pipe_q.run es (q\<lparr>nread := k, nwrite := k\<rparr>) of (ins, outs, q') \<Rightarrow>
     ins = outs @ pipe_contents q' \<and> length (pipe_contents q') \<le> PIPESIZE"
proof -
  obtain ins outs q' where run: "pipe_q.run es (q\<lparr>nread := k, nwrite := k\<rparr>) = (ins, outs, q')"
    by (metis prod_cases3)
  have "pipe_contents (q\<lparr>nread := k, nwrite := k\<rparr>) = []"
    by (simp add: pipe_contents_def ring_nil_iff)
  then show ?thesis using pipe_q.run_fifo [OF _ run] by (simp add: run)
qed



end
