(* ===== verification/File.thy ===== *)
theory File
  imports Pipe
begin

text \<open>
  Open files, \<^verbatim>\<open>kernel/file.c\<close>, and \<^verbatim>\<open>pipealloc\<close> of \<^verbatim>\<open>kernel/pipe.c\<close>, which needs them.  The file
  table is indexed by \<^verbatim>\<open>0..NFILE-1\<close>.  The only entry of \<^verbatim>\<open>devsw\<close> the kernel fills is the
  console's.
\<close>

unbundle bit_operations_syntax

datatype fdtype = FD_NONE | FD_PIPE | FD_INODE | FD_DEVICE

record kfile =
  f_type :: fdtype
  f_ref :: int
  f_readable :: bool
  f_writable :: bool
  f_pipe :: u64
  f_ip :: nat
  f_off :: u32
  f_major :: u16

record file_st = pipe_st +
  ftable :: "nat \<Rightarrow> kfile"

definition fget :: "nat \<Rightarrow> (kfile \<Rightarrow> 'a) \<Rightarrow> ('z file_st_scheme, 'a) kmon" where
  "fget f g = gets (\<lambda>s. g (ftable s f))"

definition fset :: "nat \<Rightarrow> (kfile \<Rightarrow> kfile) \<Rightarrow> ('z file_st_scheme, unit) kmon" where
  "fset f g = modify (\<lambda>s. s\<lparr>ftable := (ftable s)(f := g (ftable s f))\<rparr>)"

definition fileinit :: "('z file_st_scheme, unit) kmon" where
  "fileinit = initlock LFtable ''ftable''"

definition filealloc :: "('z file_st_scheme, nat option) kmon" where
  "filealloc = (bind (acquire LFtable) (\<lambda>_.
    bind (gets (\<lambda>s. find (\<lambda>f. f_ref (ftable s f) = 0) [0..<NFILE])) (\<lambda>found.
    case found of None \<Rightarrow> (bind (release LFtable) (\<lambda>_.
      ret None))
    | Some f \<Rightarrow> (bind (fset f (\<lambda>x. x\<lparr>f_ref := 1\<rparr>)) (\<lambda>_.
      bind (release LFtable) (\<lambda>_.
      ret (Some f)))))))"

definition filedup :: "nat \<Rightarrow> ('z file_st_scheme, nat) kmon" where
  "filedup f = (bind (acquire LFtable) (\<lambda>_.
    bind (fget f f_ref) (\<lambda>r.
    if r < 1 then panic ''filedup''
    else (bind (fset f (\<lambda>x. x\<lparr>f_ref := f_ref x + 1\<rparr>)) (\<lambda>_.
      bind (release LFtable) (\<lambda>_.
      ret f))))))"

definition fileclose :: "nat \<Rightarrow> ('z file_st_scheme, unit) kmon" where
  "fileclose f = (bind (acquire LFtable) (\<lambda>_.
    bind (fget f f_ref) (\<lambda>r.
    if r < 1 then panic ''fileclose''
    else (bind (fset f (\<lambda>x. x\<lparr>f_ref := f_ref x - 1\<rparr>)) (\<lambda>_.
      if r - 1 > 0 then release LFtable
      else (bind (fget f (\<lambda>x. x)) (\<lambda>ff.
        bind (fset f (\<lambda>x. x\<lparr>f_ref := 0, f_type := FD_NONE\<rparr>)) (\<lambda>_.
        bind (release LFtable) (\<lambda>_.
        if f_type ff = FD_PIPE then pipeclose (f_pipe ff) (f_writable ff)
        else whenM (f_type ff = FD_INODE \<or> f_type ff = FD_DEVICE)
          (bind begin_op (\<lambda>_.
            bind (iput (f_ip ff)) (\<lambda>_.
            end_op))))))))))))"

text \<open>
  \<^verbatim>\<open>struct stat\<close> as bytes; the four bytes between \<^verbatim>\<open>nlink\<close> and \<^verbatim>\<open>size\<close> are padding, whose content
  the code leaves indeterminate.
\<close>

definition stat_bytes :: "stat \<Rightarrow> u8 list" where
  "stat_bytes st = le_bytes 4 (st_dev st) @ le_bytes 4 (st_ino st) @ le_bytes 2 (st_type st) @
     le_bytes 2 (st_nlink st) @ replicate 4 0 @ le_bytes 8 (st_size st)"

definition filestat :: "nat \<Rightarrow> u64 \<Rightarrow> ('z file_st_scheme, int) kmon" where
  "filestat f addr = (bind curproc (\<lambda>p.
    bind (fget f (\<lambda>x. x)) (\<lambda>x.
    if f_type x = FD_INODE \<or> f_type x = FD_DEVICE
    then (bind (ilock (f_ip x)) (\<lambda>_.
      bind (stati (f_ip x)) (\<lambda>st.
      bind (iunlock (f_ip x)) (\<lambda>_.
      bind (pget p p_pagetable) (\<lambda>pt.
      bind (copyout_obj pt addr (stat_bytes st)) (\<lambda>r.
      ret (if r < 0 then - 1 else 0)))))))
    else ret (- 1))))"

abbreviation (input) CONSOLE :: int where "CONSOLE \<equiv> 1"

text \<open>Whether \<^verbatim>\<open>devsw\<close> has routines for a major number.\<close>

definition has_dev :: "u16 \<Rightarrow> ('z file_st_scheme, bool) kmon" where
  "has_dev mj = gets (\<lambda>s. 0 \<le> sint mj \<and> sint mj < int NDEV \<and> sint mj = CONSOLE \<and> devsw_console s)"

definition fileread :: "nat \<Rightarrow> u64 \<Rightarrow> int \<Rightarrow> ('z file_st_scheme, int) kmon" where
  "fileread f addr n = (bind (fget f (\<lambda>x. x)) (\<lambda>x.
    if \<not> f_readable x then ret (- 1)
    else case f_type x of
      FD_PIPE \<Rightarrow> piperead (f_pipe x) addr n
    | FD_DEVICE \<Rightarrow> (bind (has_dev (f_major x)) (\<lambda>ok.
      if ok then consoleread True addr n else ret (- 1)))
    | FD_INODE \<Rightarrow> (bind (ilock (f_ip x)) (\<lambda>_.
      bind (readi (f_ip x) True addr (f_off x) (of_int n)) (\<lambda>r.
      bind (whenM (r > 0) (fset f (\<lambda>y. y\<lparr>f_off := f_off y + of_int r\<rparr>))) (\<lambda>_.
      bind (iunlock (f_ip x)) (\<lambda>_.
      ret r)))))
    | FD_NONE \<Rightarrow> panic ''fileread''))"

text \<open>The largest part of a write that \<^verbatim>\<open>filewrite\<close> puts in one transaction.\<close>

definition write_max :: int where
  "write_max = (int MAXOPBLOCKS - 1 - 1 - 2) div 2 * int BSIZE"

function filewrite_loop :: "nat \<Rightarrow> u64 \<Rightarrow> int \<Rightarrow> int \<Rightarrow> ('z file_st_scheme, int) kmon" where
  "filewrite_loop f addr n i =
     (if i < n then
        (let n1 = (if n - i > write_max then write_max else n - i) in
         (bind begin_op (\<lambda>_.
           bind (fget f f_ip) (\<lambda>ip.
           bind (ilock ip) (\<lambda>_.
           bind (fget f f_off) (\<lambda>off.
           bind (writei ip True (addr + of_int i) off (of_int n1)) (\<lambda>r.
           bind (whenM (r > 0) (fset f (\<lambda>x. x\<lparr>f_off := f_off x + of_int r\<rparr>))) (\<lambda>_.
           bind (iunlock ip) (\<lambda>_.
           bind end_op (\<lambda>_.
           if r \<noteq> n1 then ret i else filewrite_loop f addr n (i + n1)))))))))))
      else ret i)"
  by pat_completeness auto
termination
  by (relation "measure (\<lambda>(f, addr, n, i). nat (n - i))") (auto simp: write_max_def)

declare filewrite_loop.simps [simp del]

definition filewrite :: "nat \<Rightarrow> u64 \<Rightarrow> int \<Rightarrow> ('z file_st_scheme, int) kmon" where
  "filewrite f addr n = (bind (fget f (\<lambda>x. x)) (\<lambda>x.
    if \<not> f_writable x then ret (- 1)
    else case f_type x of
      FD_PIPE \<Rightarrow> pipewrite (f_pipe x) addr n
    | FD_DEVICE \<Rightarrow> (bind (has_dev (f_major x)) (\<lambda>ok.
      if ok then consolewrite True addr n else ret (- 1)))
    | FD_INODE \<Rightarrow> (bind (filewrite_loop f addr n 0) (\<lambda>i.
      ret (if i = n then n else - 1)))
    | FD_NONE \<Rightarrow> panic ''filewrite''))"

section \<open>Creating a pipe\<close>

text \<open>The \<^verbatim>\<open>bad\<close> path of \<^verbatim>\<open>pipealloc\<close>; there \<^verbatim>\<open>pi\<close> is always null.\<close>

definition pipealloc_bad :: "nat option \<Rightarrow> nat option \<Rightarrow> ('z file_st_scheme, (nat \<times> nat) option) kmon" where
  "pipealloc_bad f0 f1 = (bind ((case f0 of None \<Rightarrow> ret () | Some f \<Rightarrow> fileclose f)) (\<lambda>_.
    bind ((case f1 of None \<Rightarrow> ret () | Some f \<Rightarrow> fileclose f)) (\<lambda>_.
    ret None)))"

definition pipealloc :: "('z file_st_scheme, (nat \<times> nat) option) kmon" where
  "pipealloc = (bind filealloc (\<lambda>f0.
    case f0 of None \<Rightarrow> pipealloc_bad None None
    | Some rf \<Rightarrow> (bind filealloc (\<lambda>f1.
      case f1 of None \<Rightarrow> pipealloc_bad (Some rf) None
        | Some wfile \<Rightarrow> (bind kalloc (\<lambda>pi.
          if pi = 0 then pipealloc_bad (Some rf) (Some wfile)
            else (bind (piset pi (\<lambda>x. x\<lparr>readopen := True, writeopen := True, nwrite := 0, nread := 0\<rparr>)) (\<lambda>_.
              bind (initlock (LPipe pi) ''pipe'') (\<lambda>_.
              bind (fset rf (\<lambda>x. x\<lparr>f_type := FD_PIPE, f_readable := True, f_writable := False, f_pipe := pi\<rparr>)) (\<lambda>_.
              bind (fset wfile (\<lambda>x. x\<lparr>f_type := FD_PIPE, f_readable := False, f_writable := True, f_pipe := pi\<rparr>)) (\<lambda>_.
              ret (Some (rf, wfile)))))))))))))"

end
