(* ===== verification/Process.thy ===== *)
theory Process
  imports File
begin

text \<open>
  The routines of \<^verbatim>\<open>kernel/proc.c\<close> that also work on files: \<^verbatim>\<open>userinit\<close>, \<^verbatim>\<open>fork\<close> and \<^verbatim>\<open>exit\<close>; and
  \<^verbatim>\<open>kernel/exec.c\<close> with the ELF structures of \<^verbatim>\<open>kernel/elf.h\<close>.
\<close>

unbundle bit_operations_syntax

section \<open>The first process\<close>

definition initcode :: "u8 list" where
  "initcode = [0x17, 0x05, 0x00, 0x00, 0x13, 0x05, 0x45, 0x02,
  0x97, 0x05, 0x00, 0x00, 0x93, 0x85, 0x35, 0x02,
  0x93, 0x08, 0x70, 0x00, 0x73, 0x00, 0x00, 0x00,
  0x93, 0x08, 0x20, 0x00, 0x73, 0x00, 0x00, 0x00,
  0xef, 0xf0, 0x9f, 0xff, 0x2f, 0x69, 0x6e, 0x69,
  0x74, 0x00, 0x00, 0x24, 0x00, 0x00, 0x00, 0x00,
  0x00, 0x00, 0x00, 0x00]"

definition userinit :: "('z file_st_scheme, unit) kmon" where
  "userinit = (bind allocproc (\<lambda>np.
    bind (modify (\<lambda>s. s\<lparr>initproc := np\<rparr>)) (\<lambda>_.
    case np of None \<Rightarrow> panic ''null pointer''
    | Some p \<Rightarrow> (bind (pget p p_pagetable) (\<lambda>pt.
      bind (uvminit pt initcode) (\<lambda>_.
      bind (pset p (\<lambda>q. q\<lparr>p_sz := PGSIZE\<rparr>)) (\<lambda>_.
      bind (tf_set p TF_epc 0) (\<lambda>_.
      bind (tf_set p TF_sp PGSIZE) (\<lambda>_.
      bind (pset p (\<lambda>q. q\<lparr>p_name := chars ''initcode''\<rparr>)) (\<lambda>_.
      bind (namei (chars ''/'')) (\<lambda>cwd.
      bind (pset p (\<lambda>q. q\<lparr>p_cwd := cwd\<rparr>)) (\<lambda>_.
      bind (pset p (\<lambda>q. q\<lparr>p_state := RUNNABLE\<rparr>)) (\<lambda>_.
      release (LProc p))))))))))))))"

section \<open>fork and exit\<close>

text \<open>\<^verbatim>\<open>sizeof(struct trapframe)\<close>: 36 registers of eight bytes.\<close>

definition trapframe_size :: nat where
  "trapframe_size = 288"

definition fork_files :: "nat \<Rightarrow> nat \<Rightarrow> ('z file_st_scheme, unit) kmon" where
  "fork_files p np = forM [0..<NOFILE] (\<lambda>i. (bind (pget p (\<lambda>q. p_ofile q i)) (\<lambda>f.
    case f of None \<Rightarrow> ret ()
     | Some x \<Rightarrow> (bind (filedup x) (\<lambda>y.
       pset np (\<lambda>q. q\<lparr>p_ofile := (p_ofile q)(i := Some y)\<rparr>))))))"

definition fork :: "('z file_st_scheme, int) kmon" where
  "fork = (bind curproc (\<lambda>p.
    bind allocproc (\<lambda>a.
    case a of None \<Rightarrow> ret (- 1)
    | Some np \<Rightarrow> (bind (pget p p_pagetable) (\<lambda>ppt.
      bind (pget np p_pagetable) (\<lambda>npt.
      bind (pget p p_sz) (\<lambda>sz.
      bind (uvmcopy ppt npt sz) (\<lambda>r.
      if r < 0 then (bind (freeproc np) (\<lambda>_.
        bind (release (LProc np)) (\<lambda>_.
        ret (- 1))))
        else (bind (pset np (\<lambda>q. q\<lparr>p_sz := sz\<rparr>)) (\<lambda>_.
          bind (pget p p_trapframe) (\<lambda>ptf.
          bind (pget np p_trapframe) (\<lambda>ntf.
          bind (modify (\<lambda>s. s\<lparr>mem := write_bytes (mem s) ntf (bytes (mem s) ptf trapframe_size)\<rparr>)) (\<lambda>_.
          bind (tf_set np TF_a0 0) (\<lambda>_.
          bind (fork_files p np) (\<lambda>_.
          bind (pget p p_cwd) (\<lambda>cwd.
          case cwd of None \<Rightarrow> panic ''null pointer''
          | Some ip \<Rightarrow> (bind (idup ip) (\<lambda>d.
            bind (pset np (\<lambda>q. q\<lparr>p_cwd := Some d\<rparr>)) (\<lambda>_.
            bind (pget p p_name) (\<lambda>nm.
            bind (pset np (\<lambda>q. q\<lparr>p_name := take 15 nm\<rparr>)) (\<lambda>_.
            bind (pget np p_pid) (\<lambda>pid.
            bind (release (LProc np)) (\<lambda>_.
            bind (acquire LWait) (\<lambda>_.
            bind (pset np (\<lambda>q. q\<lparr>p_parent := Some p\<rparr>)) (\<lambda>_.
            bind (release LWait) (\<lambda>_.
            bind (acquire (LProc np)) (\<lambda>_.
            bind (pset np (\<lambda>q. q\<lparr>p_state := RUNNABLE\<rparr>)) (\<lambda>_.
            bind (release (LProc np)) (\<lambda>_.
            ret (sint pid))))))))))))))))))))))))))))))"

definition exit_files :: "nat \<Rightarrow> ('z file_st_scheme, unit) kmon" where
  "exit_files p = forM [0..<NOFILE] (\<lambda>fd. (bind (pget p (\<lambda>q. p_ofile q fd)) (\<lambda>f.
    case f of None \<Rightarrow> ret ()
     | Some x \<Rightarrow> (bind (fileclose x) (\<lambda>_.
       pset p (\<lambda>q. q\<lparr>p_ofile := (p_ofile q)(fd := None)\<rparr>))))))"

text \<open>\<^verbatim>\<open>exit\<close> ends in \<^verbatim>\<open>sched\<close> and never returns.\<close>

definition exit :: "u32 \<Rightarrow> ('z file_st_scheme, 'a) kmon" where
  "exit status = (bind curproc (\<lambda>p.
    bind (gets initproc) (\<lambda>ip.
    if ip = Some p then panic ''init exiting''
    else (bind (exit_files p) (\<lambda>_.
      bind begin_op (\<lambda>_.
      bind (pget p p_cwd) (\<lambda>cwd.
      bind ((case cwd of None \<Rightarrow> panic ''null pointer'' | Some i \<Rightarrow> iput i)) (\<lambda>_.
      bind end_op (\<lambda>_.
      bind (pset p (\<lambda>q. q\<lparr>p_cwd := None\<rparr>)) (\<lambda>_.
      bind (acquire LWait) (\<lambda>_.
      bind (reparent p) (\<lambda>_.
      bind (pget p p_parent) (\<lambda>par.
      bind (wakeup (case par of None \<Rightarrow> ChNull | Some i \<Rightarrow> ChProc i)) (\<lambda>_.
      bind (acquire (LProc p)) (\<lambda>_.
      bind (pset p (\<lambda>q. q\<lparr>p_xstate := status\<rparr>)) (\<lambda>_.
      bind (pset p (\<lambda>q. q\<lparr>p_state := ZOMBIE\<rparr>)) (\<lambda>_.
      bind (release LWait) (\<lambda>_.
      sched))))))))))))))))))"

section \<open>ELF images\<close>

abbreviation (input) ELF_MAGIC :: u32 where "ELF_MAGIC \<equiv> 0x464C457F"
abbreviation (input) ELF_PROG_LOAD :: u32 where "ELF_PROG_LOAD \<equiv> 1"

definition get64 :: "u8 list \<Rightarrow> nat \<Rightarrow> u64" where
  "get64 bs off = le_word (take 8 (drop off bs))"

record elfhdr =
  e_magic :: u32
  e_entry :: u64
  e_phoff :: u64
  e_phnum :: u16

record proghdr =
  ph_type :: u32
  ph_flags :: u32
  ph_off :: u64
  ph_vaddr :: u64
  ph_paddr :: u64
  ph_filesz :: u64
  ph_memsz :: u64
  ph_align :: u64

definition elfhdr_read :: "u8 list \<Rightarrow> elfhdr" where
  "elfhdr_read bs = \<lparr>e_magic = get32 bs 0, e_entry = get64 bs 24, e_phoff = get64 bs 32, e_phnum = get16 bs 56\<rparr>"

definition proghdr_read :: "u8 list \<Rightarrow> proghdr" where
  "proghdr_read bs = \<lparr>ph_type = get32 bs 0, ph_flags = get32 bs 4, ph_off = get64 bs 8, ph_vaddr = get64 bs 16,
     ph_paddr = get64 bs 24, ph_filesz = get64 bs 32, ph_memsz = get64 bs 40, ph_align = get64 bs 48\<rparr>"

text \<open>
  \<^verbatim>\<open>loadseg\<close> over the page numbers of the segment.  The C counter is a \<^verbatim>\<open>uint\<close>; it does not wrap
  for segments of at most \<open>2^32 - 4096\<close> bytes, and larger ones exceed physical memory.
\<close>

primrec loadseg_pages :: "u64 \<Rightarrow> u64 \<Rightarrow> nat \<Rightarrow> u32 \<Rightarrow> u32 \<Rightarrow> nat list \<Rightarrow> ('z file_st_scheme, int) kmon" where
  "loadseg_pages pagetable va ip offset sz [] = ret 0"
| "loadseg_pages pagetable va ip offset sz (k # ks) =
     (let i = (of_nat (4096 * k) :: u32); n = (if sz - i < 4096 then sz - i else 4096) in
      (bind (walkaddr pagetable (va + ucast i)) (\<lambda>pa.
        if pa = 0 then panic ''loadseg: address should exist''
        else (bind (readi ip False pa (offset + i) n) (\<lambda>r.
          if r \<noteq> uint n then ret (- 1) else loadseg_pages pagetable va ip offset sz ks)))))"

definition loadseg :: "u64 \<Rightarrow> u64 \<Rightarrow> nat \<Rightarrow> u32 \<Rightarrow> u32 \<Rightarrow> ('z file_st_scheme, int) kmon" where
  "loadseg pagetable va ip offset sz =
     loadseg_pages pagetable va ip offset sz [0..<(unat sz + 4095) div 4096]"

section \<open>exec\<close>

text \<open>
  The program headers: \<open>Inl sz\<close> is a jump to \<^verbatim>\<open>bad\<close> with the current \<^verbatim>\<open>sz\<close>, \<open>Inr sz\<close> the size
  after the loop.  \<^verbatim>\<open>off\<close> is an \<^verbatim>\<open>int\<close>.
\<close>

primrec exec_load :: "u64 \<Rightarrow> nat \<Rightarrow> u32 \<Rightarrow> u64 \<Rightarrow> nat \<Rightarrow> ('z file_st_scheme, u64 + u64) kmon" where
  "exec_load pagetable ip off sz 0 = ret (Inr sz)"
| "exec_load pagetable ip off sz (Suc k) = (bind (readi_obj ip off 56) (\<lambda>(r, bs).
  if r \<noteq> 56 then ret (Inl sz)
     else let ph = proghdr_read bs in
       if ph_type ph \<noteq> ELF_PROG_LOAD then exec_load pagetable ip (off + 56) sz k
       else if ph_memsz ph < ph_filesz ph then ret (Inl sz)
       else if ph_vaddr ph + ph_memsz ph < ph_vaddr ph then ret (Inl sz)
       else (bind (uvmalloc pagetable sz (ph_vaddr ph + ph_memsz ph)) (\<lambda>sz1.
         if sz1 = 0 then ret (Inl sz)
         else if ph_vaddr ph mod PGSIZE \<noteq> 0 then ret (Inl sz1)
         else (bind (loadseg pagetable (ph_vaddr ph) ip (ucast (ph_off ph)) (ucast (ph_filesz ph))) (\<lambda>l.
           if l < 0 then ret (Inl sz1) else exec_load pagetable ip (off + 56) sz1 k))))))"

text \<open>
  Pushing the argument strings.  \<open>argv\<close> lists the addresses before the null pointer;
  \<open>ustack\<close> the stack addresses so far.  \<open>None\<close> is a jump to \<^verbatim>\<open>bad\<close>.
\<close>

primrec exec_args :: "u64 \<Rightarrow> u64 \<Rightarrow> u64 list \<Rightarrow> u64 \<Rightarrow> u64 list \<Rightarrow> ('z file_st_scheme, (u64 \<times> u64 list) option) kmon" where
  "exec_args pagetable stackbase [] sp ustack = ret (Some (sp, ustack))"
| "exec_args pagetable stackbase (a # argv) sp ustack =
     (if length ustack \<ge> MAXARG then ret None
      else (bind (gets (\<lambda>s. strlen (mem s) a)) (\<lambda>len.
        case len of None \<Rightarrow> block ChNull
        | Some n \<Rightarrow>
            (let sp1 = sp - of_nat (n + 1); sp2 = sp1 - sp1 mod 16 in
             if sp2 < stackbase then ret None
             else (bind (copyout pagetable sp2 a (of_nat (n + 1))) (\<lambda>r.
               if r < 0 then ret None
               else exec_args pagetable stackbase argv sp2 (ustack @ [sp2])))))))"

definition exec_bad :: "u64 \<Rightarrow> u64 \<Rightarrow> nat option \<Rightarrow> ('z file_st_scheme, int) kmon" where
  "exec_bad pagetable sz ip = (bind (whenM (pagetable \<noteq> 0) (proc_freepagetable pagetable sz)) (\<lambda>_.
    bind ((case ip of None \<Rightarrow> ret () | Some i \<Rightarrow> (bind (iunlockput i) (\<lambda>_.
      end_op)))) (\<lambda>_.
    ret (- 1))))"

text \<open>The program name kept for debugging: what follows the last \<^verbatim>\<open>/\<close> of the path.\<close>

definition last_elem :: "u8 list \<Rightarrow> u8 list" where
  "last_elem path = rev (takeWhile (\<lambda>c. c \<noteq> slash) (rev path))"

text \<open>The second half of \<^verbatim>\<open>exec\<close>, after the image is loaded.\<close>

definition exec_stack :: "u8 list \<Rightarrow> u64 list \<Rightarrow> elfhdr \<Rightarrow> u64 \<Rightarrow> u64 \<Rightarrow> ('z file_st_scheme, int) kmon" where
  "exec_stack path argv elf pagetable sz0 = (bind curproc (\<lambda>p.
    bind (pget p p_sz) (\<lambda>oldsz.
    (let sz = PGROUNDUP sz0 in
    bind (uvmalloc pagetable sz (sz + 2 * PGSIZE)) (\<lambda>sz1.
    if sz1 = 0 then exec_bad pagetable sz None
    else (bind (uvmclear pagetable (sz1 - 2 * PGSIZE)) (\<lambda>_.
      bind (exec_args pagetable (sz1 - PGSIZE) argv sz1 []) (\<lambda>r.
      case r of None \<Rightarrow> exec_bad pagetable sz1 None
      | Some (sp0, ustack) \<Rightarrow>
          (let argc = length ustack; sp1 = sp0 - of_nat ((argc + 1) * 8); sp = sp1 - sp1 mod 16 in
           if sp < sz1 - PGSIZE then exec_bad pagetable sz1 None
           else (bind (copyout_obj pagetable sp (concat (map (le_bytes 8) (ustack @ [0])))) (\<lambda>c.
             if c < 0 then exec_bad pagetable sz1 None
             else (bind (tf_set p TF_a1 sp) (\<lambda>_.
               bind (pset p (\<lambda>q. q\<lparr>p_name := take 15 (last_elem path)\<rparr>)) (\<lambda>_.
               bind (pget p p_pagetable) (\<lambda>oldpagetable.
               bind (pset p (\<lambda>q. q\<lparr>p_pagetable := pagetable\<rparr>)) (\<lambda>_.
               bind (pset p (\<lambda>q. q\<lparr>p_sz := sz1\<rparr>)) (\<lambda>_.
               bind (tf_set p TF_epc (e_entry elf)) (\<lambda>_.
               bind (tf_set p TF_sp sp) (\<lambda>_.
               bind (proc_freepagetable oldpagetable oldsz) (\<lambda>_.
               ret (int argc)))))))))))))))))))))"

definition exec :: "u8 list \<Rightarrow> u64 list \<Rightarrow> ('z file_st_scheme, int) kmon" where
  "exec path argv = (bind curproc (\<lambda>p.
    bind begin_op (\<lambda>_.
    bind (namei path) (\<lambda>i.
    case i of None \<Rightarrow> (bind end_op (\<lambda>_.
      ret (- 1)))
    | Some ip \<Rightarrow> (bind (ilock ip) (\<lambda>_.
      bind (readi_obj ip 0 64) (\<lambda>(r, bs).
      if r \<noteq> 64 then exec_bad 0 0 (Some ip)
        else if e_magic (elfhdr_read bs) \<noteq> ELF_MAGIC then exec_bad 0 0 (Some ip)
        else (bind (proc_pagetable p) (\<lambda>pagetable.
          if pagetable = 0 then exec_bad 0 0 (Some ip)
          else (bind (exec_load pagetable ip (ucast (e_phoff (elfhdr_read bs))) 0 (unat (e_phnum (elfhdr_read bs)))) (\<lambda>l.
            case l of Inl sz \<Rightarrow> exec_bad pagetable sz (Some ip)
            | Inr sz \<Rightarrow> (bind (iunlockput ip) (\<lambda>_.
              bind end_op (\<lambda>_.
              exec_stack path argv (elfhdr_read bs) pagetable sz))))))))))))))"

end
