(* ===== verification/Syscall.thy ===== *)
theory Syscall
  imports Process
begin

text \<open>
  System calls: \<^verbatim>\<open>kernel/syscall.c\<close>, \<^verbatim>\<open>kernel/sysfile.c\<close> and \<^verbatim>\<open>kernel/sysproc.c\<close>.  \<^verbatim>\<open>argint\<close> and
  \<^verbatim>\<open>argaddr\<close> always return 0, so they are modelled by the value they store and the error
  branches of their callers, which cannot be taken, are left out.  Path and name buffers are
  lists of characters without the terminating NUL.
\<close>

unbundle bit_operations_syntax

record sys_st = file_st +
  ticks :: u32

section \<open>Arguments (syscall.c)\<close>

definition argraw :: "nat \<Rightarrow> ('z file_st_scheme, u64) kmon" where
  "argraw n = (bind curproc (\<lambda>p.
    if n = 0 then tf_get p TF_a0
    else if n = 1 then tf_get p TF_a1
    else if n = 2 then tf_get p TF_a2
    else if n = 3 then tf_get p TF_a3
    else if n = 4 then tf_get p TF_a4
    else if n = 5 then tf_get p TF_a5
    else panic ''argraw''))"

definition argint :: "nat \<Rightarrow> ('z file_st_scheme, u32) kmon" where
  "argint n = (bind (argraw n) (\<lambda>x.
    ret (ucast x)))"

definition argaddr :: "nat \<Rightarrow> ('z file_st_scheme, u64) kmon" where
  "argaddr n = argraw n"

definition fetchaddr :: "u64 \<Rightarrow> ('z file_st_scheme, u64 option) kmon" where
  "fetchaddr addr = (bind curproc (\<lambda>p.
    bind (pget p p_sz) (\<lambda>sz.
    if addr \<ge> sz \<or> addr + 8 > sz then ret None
    else (bind (pget p p_pagetable) (\<lambda>pt.
      bind (copyin_obj pt addr 8) (\<lambda>(r, bs).
      if r \<noteq> 0 then ret None else ret (Some (le_word bs))))))))"

text \<open>
  \<^verbatim>\<open>fetchstr\<close> into a local buffer, as \<^verbatim>\<open>argstr\<close> uses it, and into a page of memory, as \<^verbatim>\<open>sys_exec\<close>
  uses it.
\<close>

definition fetchstr :: "u64 \<Rightarrow> nat \<Rightarrow> ('z file_st_scheme, int \<times> u8 list) kmon" where
  "fetchstr addr mx = (bind curproc (\<lambda>p.
    bind (pget p p_pagetable) (\<lambda>pt.
    bind (copyinstr_obj pt addr (of_nat mx)) (\<lambda>(err, bs).
    if err < 0 then ret (err, [])
    else ret (int (length (takeWhile (\<lambda>c. c \<noteq> 0) bs)), takeWhile (\<lambda>c. c \<noteq> 0) bs)))))"

definition fetchstr_page :: "u64 \<Rightarrow> u64 \<Rightarrow> ('z file_st_scheme, int) kmon" where
  "fetchstr_page addr buf = (bind curproc (\<lambda>p.
    bind (pget p p_pagetable) (\<lambda>pt.
    bind (copyinstr pt buf addr PGSIZE) (\<lambda>err.
    if err < 0 then ret err
    else (bind (gets (\<lambda>s. strlen (mem s) buf)) (\<lambda>len.
      case len of None \<Rightarrow> block ChNull | Some n \<Rightarrow> ret (int n)))))))"

definition argstr :: "nat \<Rightarrow> nat \<Rightarrow> ('z file_st_scheme, int \<times> u8 list) kmon" where
  "argstr n mx = (bind (argaddr n) (\<lambda>addr.
    fetchstr addr mx))"

section \<open>File system calls (sysfile.c)\<close>

definition argfd :: "nat \<Rightarrow> ('z file_st_scheme, (nat \<times> nat) option) kmon" where
  "argfd n = (bind (argint n) (\<lambda>fd.
    if sint fd < 0 \<or> sint fd \<ge> int NOFILE then ret None
    else (bind curproc (\<lambda>p.
      bind (pget p (\<lambda>q. p_ofile q (unat fd))) (\<lambda>f.
      case f of None \<Rightarrow> ret None | Some x \<Rightarrow> ret (Some (unat fd, x)))))))"

definition fdalloc :: "nat \<Rightarrow> ('z file_st_scheme, nat option) kmon" where
  "fdalloc f = (bind curproc (\<lambda>p.
    bind (pget p (\<lambda>q. find (\<lambda>fd. p_ofile q fd = None) [0..<NOFILE])) (\<lambda>found.
    case found of None \<Rightarrow> ret None
    | Some fd \<Rightarrow> (bind (pset p (\<lambda>q. q\<lparr>p_ofile := (p_ofile q)(fd := Some f)\<rparr>)) (\<lambda>_.
      ret (Some fd))))))"

definition sys_dup :: "('z file_st_scheme, int) kmon" where
  "sys_dup = (bind (argfd 0) (\<lambda>a.
    case a of None \<Rightarrow> ret (- 1)
    | Some (_, f) \<Rightarrow> (bind (fdalloc f) (\<lambda>d.
      case d of None \<Rightarrow> ret (- 1)
        | Some fd \<Rightarrow> (bind (filedup f) (\<lambda>_.
          ret (int fd)))))))"

definition sys_read :: "('z file_st_scheme, int) kmon" where
  "sys_read = (bind (argfd 0) (\<lambda>a.
    case a of None \<Rightarrow> ret (- 1)
    | Some (_, f) \<Rightarrow> (bind (argint 2) (\<lambda>n.
      bind (argaddr 1) (\<lambda>p.
      fileread f p (sint n))))))"

definition sys_write :: "('z file_st_scheme, int) kmon" where
  "sys_write = (bind (argfd 0) (\<lambda>a.
    case a of None \<Rightarrow> ret (- 1)
    | Some (_, f) \<Rightarrow> (bind (argint 2) (\<lambda>n.
      bind (argaddr 1) (\<lambda>p.
      filewrite f p (sint n))))))"

definition sys_close :: "('z file_st_scheme, int) kmon" where
  "sys_close = (bind (argfd 0) (\<lambda>a.
    case a of None \<Rightarrow> ret (- 1)
    | Some (fd, f) \<Rightarrow> (bind curproc (\<lambda>p.
      bind (pset p (\<lambda>q. q\<lparr>p_ofile := (p_ofile q)(fd := None)\<rparr>)) (\<lambda>_.
      bind (fileclose f) (\<lambda>_.
      ret 0))))))"

definition sys_fstat :: "('z file_st_scheme, int) kmon" where
  "sys_fstat = (bind (argfd 0) (\<lambda>a.
    case a of None \<Rightarrow> ret (- 1)
    | Some (_, f) \<Rightarrow> (bind (argaddr 1) (\<lambda>st.
      filestat f st))))"

text \<open>The \<^verbatim>\<open>bad\<close> path of \<^verbatim>\<open>sys_link\<close>.\<close>

definition link_bad :: "nat \<Rightarrow> ('z file_st_scheme, int) kmon" where
  "link_bad ip = (bind (ilock ip) (\<lambda>_.
    bind (iset ip (\<lambda>x. x\<lparr>i_nlink := i_nlink x - 1\<rparr>)) (\<lambda>_.
    bind (iupdate ip) (\<lambda>_.
    bind (iunlockput ip) (\<lambda>_.
    bind end_op (\<lambda>_.
    ret (- 1)))))))"

definition link_into :: "nat \<Rightarrow> u8 list \<Rightarrow> ('z file_st_scheme, int) kmon" where
  "link_into ip new = (bind (nameiparent new) (\<lambda>d.
    case d of None \<Rightarrow> link_bad ip
    | Some (dp, name) \<Rightarrow> (bind (ilock dp) (\<lambda>_.
      bind (iget_f dp i_dev) (\<lambda>ddev.
      bind (iget_f ip i_dev) (\<lambda>idev.
      bind (iget_f ip i_inum) (\<lambda>inum.
      bind ((if ddev \<noteq> idev then ret (- 1) else dirlink dp name inum)) (\<lambda>r.
      if r < 0 then (bind (iunlockput dp) (\<lambda>_.
        link_bad ip))
        else (bind (iunlockput dp) (\<lambda>_.
          bind (iput ip) (\<lambda>_.
          bind end_op (\<lambda>_.
          ret 0))))))))))))"

definition sys_link :: "('z file_st_scheme, int) kmon" where
  "sys_link = (bind (argstr 0 MAXPATH) (\<lambda>(r, old).
    if r < 0 then ret (- 1)
    else (bind (argstr 1 MAXPATH) (\<lambda>(r2, new).
      if r2 < 0 then ret (- 1)
      else (bind begin_op (\<lambda>_.
        bind (namei old) (\<lambda>i.
        case i of None \<Rightarrow> (bind end_op (\<lambda>_.
          ret (- 1)))
        | Some ip \<Rightarrow> (bind (ilock ip) (\<lambda>_.
          bind (iget_f ip i_type) (\<lambda>t.
          if t = T_DIR then (bind (iunlockput ip) (\<lambda>_.
            bind end_op (\<lambda>_.
            ret (- 1))))
            else (bind (iset ip (\<lambda>x. x\<lparr>i_nlink := i_nlink x + 1\<rparr>)) (\<lambda>_.
              bind (iupdate ip) (\<lambda>_.
              bind (iunlock ip) (\<lambda>_.
              link_into ip new))))))))))))))"

primrec isdirempty_scan :: "nat \<Rightarrow> nat list \<Rightarrow> ('z file_st_scheme, bool) kmon" where
  "isdirempty_scan dp [] = ret True"
| "isdirempty_scan dp (k # ks) = (bind (readi_obj dp (of_nat (16 * k)) 16) (\<lambda>(r, bs).
  if r \<noteq> 16 then panic ''isdirempty: readi''
     else if de_inum (dirent_read bs) \<noteq> 0 then ret False
     else isdirempty_scan dp ks))"

definition isdirempty :: "nat \<Rightarrow> ('z file_st_scheme, bool) kmon" where
  "isdirempty dp = (bind (iget_f dp i_size) (\<lambda>sz.
    isdirempty_scan dp (drop 2 (dir_slots sz))))"

definition unlink_bad :: "nat \<Rightarrow> ('z file_st_scheme, int) kmon" where
  "unlink_bad dp = (bind (iunlockput dp) (\<lambda>_.
    bind end_op (\<lambda>_.
    ret (- 1))))"

definition unlink_entry :: "nat \<Rightarrow> nat \<Rightarrow> u32 \<Rightarrow> ('z file_st_scheme, int) kmon" where
  "unlink_entry dp ip off = (bind (writei_obj dp (replicate 16 0) off) (\<lambda>w.
    if w \<noteq> 16 then panic ''unlink: writei''
    else (bind (iget_f ip i_type) (\<lambda>t.
      bind (whenM (t = T_DIR) (bind (iset dp (\<lambda>x. x\<lparr>i_nlink := i_nlink x - 1\<rparr>)) (\<lambda>_.
        iupdate dp))) (\<lambda>_.
      bind (iunlockput dp) (\<lambda>_.
      bind (iset ip (\<lambda>x. x\<lparr>i_nlink := i_nlink x - 1\<rparr>)) (\<lambda>_.
      bind (iupdate ip) (\<lambda>_.
      bind (iunlockput ip) (\<lambda>_.
      bind end_op (\<lambda>_.
      ret 0))))))))))"

definition sys_unlink :: "('z file_st_scheme, int) kmon" where
  "sys_unlink = (bind (argstr 0 MAXPATH) (\<lambda>(r, path).
    if r < 0 then ret (- 1)
    else (bind begin_op (\<lambda>_.
      bind (nameiparent path) (\<lambda>d.
      case d of None \<Rightarrow> (bind end_op (\<lambda>_.
        ret (- 1)))
      | Some (dp, name) \<Rightarrow> (bind (ilock dp) (\<lambda>_.
        if namecmp name (chars ''.'') = 0 \<or> namecmp name (chars ''..'') = 0 then unlink_bad dp
          else (bind (dirlookup dp name) (\<lambda>l.
            case l of None \<Rightarrow> unlink_bad dp
            | Some (ip, off) \<Rightarrow> (bind (ilock ip) (\<lambda>_.
              bind (iget_f ip i_nlink) (\<lambda>n.
              if sint n < 1 then panic ''unlink: nlink < 1''
                else (bind (iget_f ip i_type) (\<lambda>t.
                  bind ((if t = T_DIR then isdirempty ip else ret True)) (\<lambda>em.
                  if \<not> em then (bind (iunlockput ip) (\<lambda>_.
                    unlink_bad dp))
                  else unlink_entry dp ip off)))))))))))))))"

text \<open>The tail of \<^verbatim>\<open>create\<close> for a new inode.\<close>

definition create_new :: "nat \<Rightarrow> u8 list \<Rightarrow> u16 \<Rightarrow> u16 \<Rightarrow> u16 \<Rightarrow> ('z file_st_scheme, nat option) kmon" where
  "create_new dp name type major minor = (bind (iget_f dp i_dev) (\<lambda>dev.
    bind (ialloc dev type) (\<lambda>ip.
    bind (ilock ip) (\<lambda>_.
    bind (iset ip (\<lambda>x. x\<lparr>i_major := major, i_minor := minor, i_nlink := 1\<rparr>)) (\<lambda>_.
    bind (iupdate ip) (\<lambda>_.
    bind (iget_f ip i_inum) (\<lambda>inum.
    bind (whenM (type = T_DIR) (bind (iset dp (\<lambda>x. x\<lparr>i_nlink := i_nlink x + 1\<rparr>)) (\<lambda>_.
      bind (iupdate dp) (\<lambda>_.
      bind (dirlink ip (chars ''.'') inum) (\<lambda>r.
      bind (iget_f dp i_inum) (\<lambda>pinum.
      bind ((if r < 0 then ret r else dirlink ip (chars ''..'') pinum)) (\<lambda>r2.
      if r2 < 0 then panic ''create dots'' else ret ()))))))) (\<lambda>_.
    bind (dirlink dp name inum) (\<lambda>r3.
    if r3 < 0 then panic ''create: dirlink''
    else (bind (iunlockput dp) (\<lambda>_.
      ret (Some ip))))))))))))"

definition create :: "u8 list \<Rightarrow> u16 \<Rightarrow> u16 \<Rightarrow> u16 \<Rightarrow> ('z file_st_scheme, nat option) kmon" where
  "create path type major minor = (bind (nameiparent path) (\<lambda>d.
    case d of None \<Rightarrow> ret None
    | Some (dp, name) \<Rightarrow> (bind (ilock dp) (\<lambda>_.
      bind (dirlookup dp name) (\<lambda>l.
      case l of Some (ip, _) \<Rightarrow> (bind (iunlockput dp) (\<lambda>_.
        bind (ilock ip) (\<lambda>_.
        bind (iget_f ip i_type) (\<lambda>t.
        if type = T_FILE \<and> (t = T_FILE \<or> t = T_DEVICE) then ret (Some ip)
            else (bind (iunlockput ip) (\<lambda>_.
              ret None))))))
        | None \<Rightarrow> create_new dp name type major minor)))))"

abbreviation (input) O_RDONLY :: u32 where "O_RDONLY \<equiv> 0"
abbreviation (input) O_WRONLY :: u32 where "O_WRONLY \<equiv> 1"
abbreviation (input) O_RDWR :: u32 where "O_RDWR \<equiv> 2"
abbreviation (input) O_CREATE :: u32 where "O_CREATE \<equiv> 0x200"
abbreviation (input) O_TRUNC :: u32 where "O_TRUNC \<equiv> 0x400"

text \<open>\<^verbatim>\<open>sys_open\<close> after the inode is found and locked.\<close>

definition open_fail :: "nat \<Rightarrow> ('z file_st_scheme, int) kmon" where
  "open_fail ip = (bind (iunlockput ip) (\<lambda>_.
    bind end_op (\<lambda>_.
    ret (- 1))))"

definition open_inode :: "nat \<Rightarrow> u32 \<Rightarrow> ('z file_st_scheme, int) kmon" where
  "open_inode ip omode = (bind (iget_f ip (\<lambda>x. x)) (\<lambda>x.
    if i_type x = T_DEVICE \<and> (sint (i_major x) < 0 \<or> sint (i_major x) \<ge> int NDEV) then open_fail ip
    else (bind filealloc (\<lambda>fo.
      case fo of None \<Rightarrow> open_fail ip
      | Some f \<Rightarrow> (bind (fdalloc f) (\<lambda>fdo.
        case fdo of None \<Rightarrow> (bind (fileclose f) (\<lambda>_.
          open_fail ip))
          | Some fd \<Rightarrow> (bind (fset f (\<lambda>y. if i_type x = T_DEVICE then y\<lparr>f_type := FD_DEVICE, f_major := i_major x\<rparr>
                                      else y\<lparr>f_type := FD_INODE, f_off := 0\<rparr>)) (\<lambda>_.
            bind (fset f (\<lambda>y. y\<lparr>f_ip := ip, f_readable := (omode AND O_WRONLY = 0),
                f_writable := (omode AND O_WRONLY \<noteq> 0 \<or> omode AND O_RDWR \<noteq> 0)\<rparr>)) (\<lambda>_.
            bind (whenM (omode AND O_TRUNC \<noteq> 0 \<and> i_type x = T_FILE) (itrunc ip)) (\<lambda>_.
            bind (iunlock ip) (\<lambda>_.
            bind end_op (\<lambda>_.
            ret (int fd)))))))))))))"

definition sys_open :: "('z file_st_scheme, int) kmon" where
  "sys_open = (bind (argstr 0 MAXPATH) (\<lambda>(n, path).
    if n < 0 then ret (- 1)
    else (bind (argint 1) (\<lambda>omode.
      bind begin_op (\<lambda>_.
      if omode AND O_CREATE \<noteq> 0 then (bind (create path T_FILE 0 0) (\<lambda>c.
        case c of None \<Rightarrow> (bind end_op (\<lambda>_.
          ret (- 1))) | Some ip \<Rightarrow> open_inode ip omode))
      else (bind (namei path) (\<lambda>i.
        case i of None \<Rightarrow> (bind end_op (\<lambda>_.
          ret (- 1)))
        | Some ip \<Rightarrow> (bind (ilock ip) (\<lambda>_.
          bind (iget_f ip i_type) (\<lambda>t.
          if t = T_DIR \<and> omode \<noteq> O_RDONLY then open_fail ip
            else open_inode ip omode))))))))))"

definition sys_mkdir :: "('z file_st_scheme, int) kmon" where
  "sys_mkdir = (bind begin_op (\<lambda>_.
    bind (argstr 0 MAXPATH) (\<lambda>(r, path).
    bind ((if r < 0 then ret None else create path T_DIR 0 0)) (\<lambda>c.
    case c of None \<Rightarrow> (bind end_op (\<lambda>_.
      ret (- 1)))
    | Some ip \<Rightarrow> (bind (iunlockput ip) (\<lambda>_.
      bind end_op (\<lambda>_.
      ret 0)))))))"

definition sys_mknod :: "('z file_st_scheme, int) kmon" where
  "sys_mknod = (bind begin_op (\<lambda>_.
    bind (argstr 0 MAXPATH) (\<lambda>(r, path).
    bind ((if r < 0 then ret None
          else (bind (argint 1) (\<lambda>major.
            bind (argint 2) (\<lambda>minor.
            create path T_DEVICE (ucast major) (ucast minor)))))) (\<lambda>c.
    case c of None \<Rightarrow> (bind end_op (\<lambda>_.
      ret (- 1)))
    | Some ip \<Rightarrow> (bind (iunlockput ip) (\<lambda>_.
      bind end_op (\<lambda>_.
      ret 0)))))))"

definition sys_chdir :: "('z file_st_scheme, int) kmon" where
  "sys_chdir = (bind curproc (\<lambda>p.
    bind begin_op (\<lambda>_.
    bind (argstr 0 MAXPATH) (\<lambda>(r, path).
    bind ((if r < 0 then ret None else namei path)) (\<lambda>i.
    case i of None \<Rightarrow> (bind end_op (\<lambda>_.
      ret (- 1)))
    | Some ip \<Rightarrow> (bind (ilock ip) (\<lambda>_.
      bind (iget_f ip i_type) (\<lambda>t.
      if t \<noteq> T_DIR then (bind (iunlockput ip) (\<lambda>_.
        bind end_op (\<lambda>_.
        ret (- 1))))
        else (bind (iunlock ip) (\<lambda>_.
          bind (pget p p_cwd) (\<lambda>cwd.
          bind ((case cwd of None \<Rightarrow> panic ''null pointer'' | Some c \<Rightarrow> iput c)) (\<lambda>_.
          bind end_op (\<lambda>_.
          bind (pset p (\<lambda>q. q\<lparr>p_cwd := Some ip\<rparr>)) (\<lambda>_.
          ret 0))))))))))))))"

text \<open>
  The argument loop of \<^verbatim>\<open>sys_exec\<close>: \<open>Inr argv\<close> when the null pointer is reached, \<open>Inl argv\<close> on a
  jump to \<^verbatim>\<open>bad\<close> with the pages allocated so far.  The last argument is \<^verbatim>\<open>NELEM(argv) - i\<close>.
\<close>

primrec exec_fetch :: "u64 \<Rightarrow> u64 list \<Rightarrow> nat \<Rightarrow> ('z file_st_scheme, u64 list + u64 list) kmon" where
  "exec_fetch uargv argv 0 = ret (Inl argv)"
| "exec_fetch uargv argv (Suc k) = (bind (fetchaddr (uargv + of_nat (8 * length argv))) (\<lambda>u.
  case u of None \<Rightarrow> ret (Inl argv)
     | Some uarg \<Rightarrow>
         if uarg = 0 then ret (Inr argv)
         else (bind kalloc (\<lambda>pg.
           if pg = 0 then ret (Inl argv)
           else (bind (fetchstr_page uarg pg) (\<lambda>r.
             if r < 0 then ret (Inl (argv @ [pg])) else exec_fetch uargv (argv @ [pg]) k))))))"

definition sys_exec :: "('z file_st_scheme, int) kmon" where
  "sys_exec = (bind (argstr 0 MAXPATH) (\<lambda>(r, path).
    if r < 0 then ret (- 1)
    else (bind (argaddr 1) (\<lambda>uargv.
      bind (exec_fetch uargv [] MAXARG) (\<lambda>a.
      case a of Inl argv \<Rightarrow> (bind (forM argv kfree) (\<lambda>_.
        ret (- 1)))
      | Inr argv \<Rightarrow> (bind (exec path argv) (\<lambda>v.
        bind (forM argv kfree) (\<lambda>_.
        ret v))))))))"

text \<open>Undoing \<^verbatim>\<open>sys_pipe\<close>: clear the descriptors and close both files.\<close>

definition pipe_undo :: "nat \<Rightarrow> nat list \<Rightarrow> nat \<Rightarrow> nat \<Rightarrow> ('z file_st_scheme, int) kmon" where
  "pipe_undo p fds rf wfile = (bind (forM fds (\<lambda>fd. pset p (\<lambda>q. q\<lparr>p_ofile := (p_ofile q)(fd := None)\<rparr>))) (\<lambda>_.
    bind (fileclose rf) (\<lambda>_.
    bind (fileclose wfile) (\<lambda>_.
    ret (- 1)))))"

definition sys_pipe :: "('z file_st_scheme, int) kmon" where
  "sys_pipe = (bind curproc (\<lambda>p.
    bind (argaddr 0) (\<lambda>fdarray.
    bind pipealloc (\<lambda>a.
    case a of None \<Rightarrow> ret (- 1)
    | Some (rf, wfile) \<Rightarrow> (bind (fdalloc rf) (\<lambda>d0.
      case d0 of None \<Rightarrow> pipe_undo p [] rf wfile
        | Some fd0 \<Rightarrow> (bind (fdalloc wfile) (\<lambda>d1.
          case d1 of None \<Rightarrow> pipe_undo p [fd0] rf wfile
            | Some fd1 \<Rightarrow> (bind (pget p p_pagetable) (\<lambda>pt.
              bind (copyout_obj pt fdarray (le_bytes 4 (of_nat fd0 :: u32))) (\<lambda>r.
              bind ((if r < 0 then ret r else copyout_obj pt (fdarray + 4) (le_bytes 4 (of_nat fd1 :: u32)))) (\<lambda>r2.
              if r2 < 0 then pipe_undo p [fd0, fd1] rf wfile else ret 0))))))))))))"

section \<open>Process system calls (sysproc.c)\<close>

definition sys_exit :: "('z file_st_scheme, int) kmon" where
  "sys_exit = (bind (argint 0) (\<lambda>n.
    exit n))"

definition sys_getpid :: "('z file_st_scheme, int) kmon" where
  "sys_getpid = (bind curproc (\<lambda>p.
    bind (pget p p_pid) (\<lambda>pid.
    ret (sint pid))))"

definition sys_fork :: "('z file_st_scheme, int) kmon" where
  "sys_fork = fork"

definition sys_wait :: "('z file_st_scheme, int) kmon" where
  "sys_wait = (bind (argaddr 0) (\<lambda>p.
    wait p))"

text \<open>\<^verbatim>\<open>addr\<close> is an \<^verbatim>\<open>int\<close>: the old size is truncated and sign-extended in the result.\<close>

definition sys_sbrk :: "('z file_st_scheme, int) kmon" where
  "sys_sbrk = (bind (argint 0) (\<lambda>n.
    bind curproc (\<lambda>p.
    bind (pget p p_sz) (\<lambda>sz.
    bind (growproc n) (\<lambda>r.
    if r < 0 then ret (- 1) else ret (sint (ucast sz :: u32)))))))"

text \<open>The wait loop compares unsigned, so a negative \<^verbatim>\<open>n\<close> is a very long sleep.\<close>

definition sys_sleep_loop :: "u32 \<Rightarrow> u32 \<Rightarrow> ('z sys_st_scheme, int) kmon" where
  "sys_sleep_loop ticks0 n = (bind (gets ticks) (\<lambda>t.
    if t - ticks0 < n then (bind curproc (\<lambda>p.
      bind (pget p p_killed) (\<lambda>killed.
      if killed then (bind (release LTicks) (\<lambda>_.
        ret (- 1))) else sleep ChTicks LTicks)))
    else (bind (release LTicks) (\<lambda>_.
      ret 0))))"

definition sys_sleep :: "('z sys_st_scheme, int) kmon" where
  "sys_sleep = (bind (argint 0) (\<lambda>n.
    bind (acquire LTicks) (\<lambda>_.
    bind (gets ticks) (\<lambda>ticks0.
    sys_sleep_loop ticks0 n))))"

definition sys_sleep_resume :: "bool \<Rightarrow> u32 \<Rightarrow> u32 \<Rightarrow> ('z sys_st_scheme, int) kmon" where
  "sys_sleep_resume saved ticks0 n = (bind (sleep_resume saved LTicks) (\<lambda>_.
    sys_sleep_loop ticks0 n))"

definition sys_kill :: "('z file_st_scheme, int) kmon" where
  "sys_kill = (bind (argint 0) (\<lambda>pid.
    kill pid))"

definition sys_uptime :: "('z sys_st_scheme, int) kmon" where
  "sys_uptime = (bind (acquire LTicks) (\<lambda>_.
    bind (gets ticks) (\<lambda>xticks.
    bind (release LTicks) (\<lambda>_.
    ret (uint xticks)))))"

section \<open>Dispatch (syscall.c)\<close>

definition syscalls :: "('z sys_st_scheme, int) kmon list" where
  "syscalls = [sys_fork, sys_exit, sys_wait, sys_pipe, sys_read, sys_kill, sys_exec, sys_fstat, sys_chdir,
     sys_dup, sys_getpid, sys_sbrk, sys_sleep, sys_uptime, sys_open, sys_write, sys_mknod, sys_unlink,
     sys_link, sys_mkdir, sys_close]"

definition syscall :: "('z sys_st_scheme, unit) kmon" where
  "syscall = (bind curproc (\<lambda>p.
    bind (tf_get p TF_a7) (\<lambda>a7.
    (let num = sint (ucast a7 :: u32) in
    if num > 0 \<and> num < int (length (syscalls :: ('z sys_st_scheme, int) kmon list)) + 1
    then (bind (syscalls ! (nat num - 1)) (\<lambda>v.
      tf_set p TF_a0 (of_int v)))
    else (bind (pget p (\<lambda>q. q)) (\<lambda>q.
      bind (printf (chars ''%d %s: unknown sys call %d'' @ [10]) [PInt (p_pid q), PStr (Some (p_name q)), PInt (ucast a7)]) (\<lambda>_.
      tf_set p TF_a0 (- 1))))))))"

end
