(* ===== verification/Trap.thy ===== *)
theory Trap
  imports Syscall
begin

text \<open>
  Traps and interrupts, \<^verbatim>\<open>kernel/trap.c\<close>, the interrupt controller, \<^verbatim>\<open>kernel/plic.c\<close>, and
  \<^verbatim>\<open>forkret\<close> of \<^verbatim>\<open>kernel/proc.c\<close>.  \<open>plic_claim_reg\<close> is what the claim register of a hart reads;
  \<open>plic_writes\<close> lists the registers written.  The addresses of \<^verbatim>\<open>kernelvec\<close>, \<^verbatim>\<open>uservec\<close>,
  \<^verbatim>\<open>userret\<close> and \<^verbatim>\<open>usertrap\<close> are linker symbols.

  \<^verbatim>\<open>usertrapret\<close> ends with a jump to \<^verbatim>\<open>userret\<close> in the trampoline; the model returns the address
  and the two arguments of that jump.
\<close>

unbundle bit_operations_syntax

record trap_st = sys_st +
  plic_claim_reg :: "nat \<Rightarrow> u32"
  plic_writes :: "(u64 \<times> u32) list"
  kernelvec :: u64
  uservec :: u64
  userret :: u64
  usertrap_pc :: u64
  forkret_first :: bool

section \<open>Interrupt controller (plic.c)\<close>

definition plic_write :: "u64 \<Rightarrow> u32 \<Rightarrow> ('z trap_st_scheme, unit) kmon" where
  "plic_write a v = modify (\<lambda>s. s\<lparr>plic_writes := plic_writes s @ [(a, v)]\<rparr>)"

definition PLIC_SENABLE :: "nat \<Rightarrow> u64" where
  "PLIC_SENABLE hart = PLIC + 0x2080 + of_nat hart * 0x100"

definition PLIC_SPRIORITY :: "nat \<Rightarrow> u64" where
  "PLIC_SPRIORITY hart = PLIC + 0x201000 + of_nat hart * 0x2000"

definition PLIC_SCLAIM :: "nat \<Rightarrow> u64" where
  "PLIC_SCLAIM hart = PLIC + 0x201004 + of_nat hart * 0x2000"

definition plicinit :: "('z trap_st_scheme, unit) kmon" where
  "plicinit = (bind (plic_write (PLIC + ucast UART0_IRQ * 4) 1) (\<lambda>_.
    plic_write (PLIC + ucast VIRTIO0_IRQ * 4) 1))"

definition plicinithart :: "('z trap_st_scheme, unit) kmon" where
  "plicinithart = (bind cpuid (\<lambda>hart.
    bind (plic_write (PLIC_SENABLE hart) (push_bit 10 1 OR push_bit 1 1)) (\<lambda>_.
    plic_write (PLIC_SPRIORITY hart) 0)))"

definition plic_claim :: "('z trap_st_scheme, u32) kmon" where
  "plic_claim = (bind cpuid (\<lambda>hart.
    gets (\<lambda>s. plic_claim_reg s hart)))"

definition plic_complete :: "u32 \<Rightarrow> ('z trap_st_scheme, unit) kmon" where
  "plic_complete irq = (bind cpuid (\<lambda>hart.
    plic_write (PLIC_SCLAIM hart) irq))"

section \<open>Traps (trap.c)\<close>

definition trapinit :: "('z trap_st_scheme, unit) kmon" where
  "trapinit = initlock LTicks ''time''"

definition trapinithart :: "('z trap_st_scheme, unit) kmon" where
  "trapinithart = (bind (gets kernelvec) (\<lambda>kv.
    w_stvec kv))"

definition clockintr :: "('z trap_st_scheme, unit) kmon" where
  "clockintr = (bind (acquire LTicks) (\<lambda>_.
    bind (modify (\<lambda>s. s\<lparr>ticks := ticks s + 1\<rparr>)) (\<lambda>_.
    bind (wakeup ChTicks) (\<lambda>_.
    release LTicks))))"

definition devintr :: "('z trap_st_scheme, int) kmon" where
  "devintr = (bind r_scause (\<lambda>cause.
    if cause AND 0x8000000000000000 \<noteq> 0 \<and> cause AND 0xff = 9
    then (bind plic_claim (\<lambda>irq.
      bind ((if irq = UART0_IRQ then uartintr
       else if irq = VIRTIO0_IRQ then virtio_disk_intr
       else if irq \<noteq> 0 then printf (chars ''unexpected interrupt irq=%d'' @ [10]) [PInt irq]
       else ret ())) (\<lambda>_.
      bind (whenM (irq \<noteq> 0) (plic_complete irq)) (\<lambda>_.
      ret 1))))
    else if cause = 0x8000000000000001
    then (bind cpuid (\<lambda>c.
      bind (whenM (c = 0) clockintr) (\<lambda>_.
      bind r_sip (\<lambda>x.
      bind (w_sip (x AND NOT 2)) (\<lambda>_.
      ret 2)))))
    else ret 0))"

definition usertrapret :: "('z trap_st_scheme, u64 \<times> u64 \<times> u64) kmon" where
  "usertrapret = (bind curproc (\<lambda>p.
    bind intr_off (\<lambda>_.
    bind (gets uservec) (\<lambda>uv.
    bind (gets trampoline) (\<lambda>tr.
    bind (w_stvec (TRAMPOLINE + (uv - tr))) (\<lambda>_.
    bind r_satp (\<lambda>ksatp.
    bind (tf_set p TF_satp ksatp) (\<lambda>_.
    bind (pget p p_kstack) (\<lambda>ks.
    bind (tf_set p TF_sp_kernel (ks + PGSIZE)) (\<lambda>_.
    bind (gets usertrap_pc) (\<lambda>ut.
    bind (tf_set p TF_trap ut) (\<lambda>_.
    bind r_tp (\<lambda>hart.
    bind (tf_set p TF_hartid (of_nat hart)) (\<lambda>_.
    bind r_sstatus (\<lambda>x.
    bind (w_sstatus ((x AND NOT SSTATUS_SPP) OR SSTATUS_SPIE)) (\<lambda>_.
    bind (tf_get p TF_epc) (\<lambda>epc.
    bind (w_sepc epc) (\<lambda>_.
    bind (pget p p_pagetable) (\<lambda>pt.
    bind (gets userret) (\<lambda>ur.
    ret (TRAMPOLINE + (ur - tr), TRAPFRAME, MAKE_SATP pt)))))))))))))))))))))"

text \<open>
  \<^verbatim>\<open>usertrap\<close> up to the point where a timer interrupt gives up the processor; the process
  resumed after that \<^verbatim>\<open>yield\<close> goes on with \<open>usertrap_resume\<close>.
\<close>

definition usertrap :: "('z trap_st_scheme, u64 \<times> u64 \<times> u64) kmon" where
  "usertrap = (bind r_sstatus (\<lambda>st.
    if st AND SSTATUS_SPP \<noteq> 0 then panic ''usertrap: not from user mode''
    else (bind (gets kernelvec) (\<lambda>kv.
      bind (w_stvec kv) (\<lambda>_.
      bind curproc (\<lambda>p.
      bind r_sepc (\<lambda>pc.
      bind (tf_set p TF_epc pc) (\<lambda>_.
      bind r_scause (\<lambda>cause.
      bind ((if cause = 8
        then (bind (pget p p_killed) (\<lambda>killed.
          bind (whenM killed (exit (- 1))) (\<lambda>_.
          bind (tf_get p TF_epc) (\<lambda>epc.
          bind (tf_set p TF_epc (epc + 4)) (\<lambda>_.
          bind intr_on (\<lambda>_.
          bind syscall (\<lambda>_.
          ret 0)))))))
        else (bind devintr (\<lambda>d.
          bind (whenM (d = 0) (bind r_scause (\<lambda>sc.
            bind (pget p p_pid) (\<lambda>pid.
            bind (printf (chars ''usertrap(): unexpected scause %p pid=%d'' @ [10]) [PPtr sc, PInt pid]) (\<lambda>_.
            bind r_sepc (\<lambda>epc.
            bind r_stval (\<lambda>tv.
            bind (printf (chars ''            sepc=%p stval=%p'' @ [10]) [PPtr epc, PPtr tv]) (\<lambda>_.
            pset p (\<lambda>q. q\<lparr>p_killed := True\<rparr>))))))))) (\<lambda>_.
          ret d))))) (\<lambda>which_dev.
      bind (pget p p_killed) (\<lambda>killed.
      bind (whenM killed (exit (- 1))) (\<lambda>_.
      bind (whenM (which_dev = 2) yield) (\<lambda>_.
      usertrapret)))))))))))))"

definition usertrap_resume :: "bool \<Rightarrow> ('z trap_st_scheme, u64 \<times> u64 \<times> u64) kmon" where
  "usertrap_resume saved = (bind (yield_resume saved) (\<lambda>_.
    usertrapret))"

definition kerneltrap :: "('z trap_st_scheme, unit) kmon" where
  "kerneltrap = (bind r_sepc (\<lambda>pc.
    bind r_sstatus (\<lambda>st.
    bind r_scause (\<lambda>cause.
    if st AND SSTATUS_SPP = 0 then panic ''kerneltrap: not from supervisor mode''
    else (bind intr_get (\<lambda>i.
      if i then panic ''kerneltrap: interrupts enabled''
      else (bind devintr (\<lambda>which_dev.
        if which_dev = 0 then (bind (printf (chars ''scause %p'' @ [10]) [PPtr cause]) (\<lambda>_.
          bind r_sepc (\<lambda>epc.
          bind r_stval (\<lambda>tv.
          bind (printf (chars ''sepc=%p stval=%p'' @ [10]) [PPtr epc, PPtr tv]) (\<lambda>_.
          panic ''kerneltrap'')))))
        else (bind myproc (\<lambda>me.
          bind ((case me of None \<Rightarrow> ret False | Some p \<Rightarrow> pget p (\<lambda>q. p_state q = RUNNING))) (\<lambda>run.
          bind (whenM (which_dev = 2 \<and> run) yield) (\<lambda>_.
          bind (w_sepc pc) (\<lambda>_.
          w_sstatus st)))))))))))))"

definition kerneltrap_resume :: "bool \<Rightarrow> u64 \<Rightarrow> u64 \<Rightarrow> ('z trap_st_scheme, unit) kmon" where
  "kerneltrap_resume saved pc st = (bind (yield_resume saved) (\<lambda>_.
    bind (w_sepc pc) (\<lambda>_.
    w_sstatus st)))"

definition forkret :: "('z trap_st_scheme, u64 \<times> u64 \<times> u64) kmon" where
  "forkret = (bind curproc (\<lambda>p.
    bind (release (LProc p)) (\<lambda>_.
    bind (gets forkret_first) (\<lambda>first.
    bind (whenM first (bind (modify (\<lambda>s. s\<lparr>forkret_first := False\<rparr>)) (\<lambda>_.
      fsinit ROOTDEV))) (\<lambda>_.
    usertrapret)))))"

end
