(* ===== verification/Boot.thy ===== *)
theory Boot
  imports Trap
begin

text \<open>
  Start-up: \<^verbatim>\<open>kernel/start.c\<close> in machine mode and \<^verbatim>\<open>kernel/main.c\<close> in supervisor mode.  Each hart
  has its machine-mode registers; \<^verbatim>\<open>timer_scratch\<close> is kept as the list of its five words.
  The addresses of \<^verbatim>\<open>main\<close>, \<^verbatim>\<open>timervec\<close> and the scratch areas are linker symbols.
\<close>

unbundle bit_operations_syntax

record mcsrs =
  mhartid :: u64
  mstatus :: u64
  mepc :: u64
  medeleg :: u64
  mideleg :: u64
  sie_reg :: u64
  mie :: u64
  mtvec :: u64
  mscratch :: u64
  pmpaddr0 :: u64
  pmpcfg0 :: u64

record boot_st = trap_st +
  mregs :: "nat \<Rightarrow> mcsrs"
  hartid :: nat
  clint_mtime :: u64
  clint_mtimecmp :: "nat \<Rightarrow> u64"
  timer_scratch :: "nat \<Rightarrow> u64 list"
  scratch_pc :: "nat \<Rightarrow> u64"
  main_pc :: u64
  timervec_pc :: u64
  started :: bool

definition mset :: "(mcsrs \<Rightarrow> mcsrs) \<Rightarrow> ('z boot_st_scheme, unit) kmon" where
  "mset f = modify (\<lambda>s. s\<lparr>mregs := (mregs s)(hartid s := f (mregs s (hartid s)))\<rparr>)"

definition CLINT_MTIMECMP :: "nat \<Rightarrow> u64" where
  "CLINT_MTIMECMP hart = 0x2000000 + 0x4000 + 8 * of_nat hart"

abbreviation (input) MSTATUS_MPP_MASK :: u64 where "MSTATUS_MPP_MASK \<equiv> 0x1800"
abbreviation (input) MSTATUS_MPP_S :: u64 where "MSTATUS_MPP_S \<equiv> 0x800"
abbreviation (input) MSTATUS_MIE :: u64 where "MSTATUS_MIE \<equiv> 8"
abbreviation (input) MIE_MTIE :: u64 where "MIE_MTIE \<equiv> 0x80"
abbreviation (input) SIE_SEIE :: u64 where "SIE_SEIE \<equiv> 0x200"
abbreviation (input) SIE_STIE :: u64 where "SIE_STIE \<equiv> 0x20"
abbreviation (input) SIE_SSIE :: u64 where "SIE_SSIE \<equiv> 2"

definition timerinit :: "('z boot_st_scheme, unit) kmon" where
  "timerinit = (bind (gets (\<lambda>s. unat (mhartid (mregs s (hartid s))))) (\<lambda>id.
    (let interval = (1000000 :: u64) in
    bind (modify (\<lambda>s. s\<lparr>clint_mtimecmp := (clint_mtimecmp s)(id := clint_mtime s + interval)\<rparr>)) (\<lambda>_.
    bind (modify (\<lambda>s. s\<lparr>timer_scratch := (timer_scratch s)(id := (timer_scratch s id)[3 := CLINT_MTIMECMP id])\<rparr>)) (\<lambda>_.
    bind (modify (\<lambda>s. s\<lparr>timer_scratch := (timer_scratch s)(id := (timer_scratch s id)[4 := interval])\<rparr>)) (\<lambda>_.
    bind (gets (\<lambda>s. scratch_pc s id)) (\<lambda>scratch.
    bind (mset (\<lambda>m. m\<lparr>mscratch := scratch\<rparr>)) (\<lambda>_.
    bind (gets timervec_pc) (\<lambda>tv.
    bind (mset (\<lambda>m. m\<lparr>mtvec := tv\<rparr>)) (\<lambda>_.
    bind (mset (\<lambda>m. m\<lparr>mstatus := mstatus m OR MSTATUS_MIE\<rparr>)) (\<lambda>_.
    mset (\<lambda>m. m\<lparr>mie := mie m OR MIE_MTIE\<rparr>))))))))))))"

definition start :: "('z boot_st_scheme, unit) kmon" where
  "start = (bind (mset (\<lambda>m. m\<lparr>mstatus := (mstatus m AND NOT MSTATUS_MPP_MASK) OR MSTATUS_MPP_S\<rparr>)) (\<lambda>_.
    bind (gets main_pc) (\<lambda>mp.
    bind (mset (\<lambda>m. m\<lparr>mepc := mp\<rparr>)) (\<lambda>_.
    bind (w_satp 0) (\<lambda>_.
    bind (mset (\<lambda>m. m\<lparr>medeleg := 0xffff\<rparr>)) (\<lambda>_.
    bind (mset (\<lambda>m. m\<lparr>mideleg := 0xffff\<rparr>)) (\<lambda>_.
    bind (mset (\<lambda>m. m\<lparr>sie_reg := sie_reg m OR SIE_SEIE OR SIE_STIE OR SIE_SSIE\<rparr>)) (\<lambda>_.
    bind (mset (\<lambda>m. m\<lparr>pmpaddr0 := 0x3fffffffffffff\<rparr>)) (\<lambda>_.
    bind (mset (\<lambda>m. m\<lparr>pmpcfg0 := 0xf\<rparr>)) (\<lambda>_.
    bind timerinit (\<lambda>_.
    bind (gets (\<lambda>s. unat (mhartid (mregs s (hartid s))))) (\<lambda>id.
    modify (\<lambda>s. s\<lparr>tp := id\<rparr>)))))))))))))"

text \<open>\<^verbatim>\<open>main\<close> up to the scheduler; a hart other than 0 spins until \<^verbatim>\<open>started\<close> is set.\<close>

definition main :: "('z boot_st_scheme, unit) kmon" where
  "main = (bind cpuid (\<lambda>id.
    if id = 0 then (bind consoleinit (\<lambda>_.
      bind printfinit (\<lambda>_.
      bind (printf [10] []) (\<lambda>_.
      bind (printf (chars ''xv6 kernel is booting'' @ [10]) []) (\<lambda>_.
      bind (printf [10] []) (\<lambda>_.
      bind kinit (\<lambda>_.
      bind kvminit (\<lambda>_.
      bind kvminithart (\<lambda>_.
      bind procinit (\<lambda>_.
      bind trapinit (\<lambda>_.
      bind trapinithart (\<lambda>_.
      bind plicinit (\<lambda>_.
      bind plicinithart (\<lambda>_.
      bind binit (\<lambda>_.
      bind iinit (\<lambda>_.
      bind fileinit (\<lambda>_.
      bind virtio_disk_init (\<lambda>_.
      bind userinit (\<lambda>_.
      modify (\<lambda>s. s\<lparr>started := True\<rparr>))))))))))))))))))))
    else (bind (gets started) (\<lambda>go.
      if \<not> go then block ChNull
      else (bind (printf (chars ''hart %d starting'' @ [10]) [PInt (of_nat id)]) (\<lambda>_.
        bind kvminithart (\<lambda>_.
        bind trapinithart (\<lambda>_.
        plicinithart))))))))"

end
