(* ===== verification/ProcProps.thy ===== *)
theory ProcProps
  imports Proc
begin

text \<open>
  What the routines of \<^verbatim>\<open>kernel/proc.c\<close> do when the locks they take are free: waking up, process
  identifiers and the choice of the scheduler.
\<close>

unbundle bit_operations_syntax

lemma held_procs [simp]: "procs (held l s) = procs s" "nextpid (held l s) = nextpid s"
  by (simp_all add: held_def pushed_def set_sie_def)

lemma held_procs_update: "held l (s\<lparr>procs := f\<rparr>) = (held l s)\<lparr>procs := f\<rparr>"
  by (simp add: held_def pushed_def set_sie_def)

lemma held_nextpid_update: "held l (s\<lparr>nextpid := f\<rparr>) = (held l s)\<lparr>nextpid := f\<rparr>"
  by (simp add: held_def pushed_def set_sie_def)

lemma calm_procs [simp]: "calm (s\<lparr>procs := f\<rparr>) = calm s" "calm (s\<lparr>nextpid := n\<rparr>) = calm s"
  by (simp_all add: calm_def sie_def)

lemma unlocked_procs [simp]: "unlocked l (s\<lparr>procs := f\<rparr>) = unlocked l s" "unlocked l (s\<lparr>nextpid := n\<rparr>) = unlocked l s"
  by (simp_all add: unlocked_def)

text \<open>The process running on the current hart.\<close>

definition me :: "'z proc_st_scheme \<Rightarrow> nat option" where
  "me s = cpu_proc (cpus s (tp s))"

lemma me_procs [simp]: "me (s\<lparr>procs := f\<rparr>) = me s"
  by (simp add: me_def)

lemma myproc_calm: "calm s \<Longrightarrow> myproc s = Ok (me s) s"
proof -
  assume "calm s"
  moreover have "cpu_proc (cpus (pushed s) (tp (pushed s))) = me s"
    by (simp add: pushed_def me_def)
  ultimately show ?thesis
    by (simp add: myproc_def bind_apply push_off_calm pop_off_pushed)
qed

section \<open>wakeup\<close>

definition woken :: "chan \<Rightarrow> nat option \<Rightarrow> pcb \<Rightarrow> nat \<Rightarrow> pcb" where
  "woken ch self q p =
     (if self \<noteq> Some p \<and> p_state q = SLEEPING \<and> p_chan q = ch then q\<lparr>p_state := RUNNABLE\<rparr> else q)"

lemma wakeup_one_eq:
  assumes "calm s" "unlocked (LProc p) s"
  shows "wakeup_one ch p s = Ok () (s\<lparr>procs := (procs s)(p := woken ch (me s) (procs s p) p)\<rparr>)"
proof -
  have rel: "release (LProc p) (held (LProc p) s) = Ok () s"
    "release (LProc p) (held (LProc p) (s\<lparr>procs := f\<rparr>)) = Ok () (s\<lparr>procs := f\<rparr>)" for f
    using assms by (simp_all add: release_held)
  show ?thesis
    using assms rel by (auto simp: wakeup_one_def bind_apply myproc_calm acquire_free pget_def pset_def woken_def
        held_procs_update [symmetric] fun_upd_idem)
qed

lemma wakeup_list:
  assumes "distinct ps" "calm s" "\<forall>p \<in> set ps. unlocked (LProc p) s"
  shows "forM ps (wakeup_one ch) s =
    Ok () (s\<lparr>procs := (\<lambda>p. if p \<in> set ps then woken ch (me s) (procs s p) p else procs s p)\<rparr>)"
  using assms
proof (induction ps arbitrary: s)
  case (Cons p ps)
  let ?s = "s\<lparr>procs := (procs s)(p := woken ch (me s) (procs s p) p)\<rparr>"
  have "forM ps (wakeup_one ch) ?s =
      Ok () (?s\<lparr>procs := (\<lambda>q. if q \<in> set ps then woken ch (me ?s) (procs ?s q) q else procs ?s q)\<rparr>)"
    using Cons by (intro Cons.IH) auto
  moreover have "(\<lambda>q. if q \<in> set ps then woken ch (me ?s) (procs ?s q) q else procs ?s q) =
      (\<lambda>q. if q \<in> set (p # ps) then woken ch (me s) (procs s q) q else procs s q)"
    using Cons.prems(1) by (auto simp: fun_eq_iff)
  ultimately show ?case
    using Cons.prems by (simp add: bind_apply wakeup_one_eq)
qed simp

text \<open>
  C35: \<^verbatim>\<open>wakeup(chan)\<close> makes runnable exactly the processes of the table, other than the caller, that
  sleep on that channel, and changes nothing else.
\<close>

theorem wakeup_exact:
  assumes "calm s" and "\<And>p. p < NPROC \<Longrightarrow> unlocked (LProc p) s"
  shows "wakeup ch s = Ok () (s\<lparr>procs := (\<lambda>p. if p < NPROC then woken ch (me s) (procs s p) p else procs s p)\<rparr>)"
  using wakeup_list [of "[0..<NPROC]" s ch] assms by (simp add: wakeup_def)

section \<open>Process identifiers\<close>

lemma allocpid_eq:
  assumes "calm s" "unlocked LPid s"
  shows "allocpid s = Ok (nextpid s) (s\<lparr>nextpid := nextpid s + 1\<rparr>)"
proof -
  have "release LPid (held LPid (s\<lparr>nextpid := n\<rparr>)) = Ok () (s\<lparr>nextpid := n\<rparr>)" for n
    using assms by (simp add: release_held)
  then show ?thesis
    using assms by (simp add: allocpid_def bind_apply acquire_free held_nextpid_update [symmetric])
qed

lemma allocpid_many:
  assumes "calm s" "unlocked LPid s"
  shows "replicateM n allocpid s =
    Ok (map (\<lambda>i. nextpid s + of_nat i) [0..<n]) (s\<lparr>nextpid := nextpid s + of_nat n\<rparr>)"
  using assms
proof (induction n arbitrary: s)
  case (Suc n)
  let ?s = "s\<lparr>nextpid := nextpid s + 1\<rparr>"
  have "replicateM n allocpid ?s = Ok (map (\<lambda>i. nextpid s + 1 + of_nat i) [0..<n]) (s\<lparr>nextpid := nextpid s + 1 + of_nat n\<rparr>)"
    using Suc.IH [of ?s] Suc.prems by simp
  moreover have "map (\<lambda>i. nextpid s + of_nat i) [0..<Suc n] = nextpid s # map (\<lambda>i. nextpid s + 1 + of_nat i) [0..<n]"
    by (simp add: upt_conv_Cons map_Suc_upt [symmetric] comp_def add.assoc del: upt_Suc)
  ultimately show ?case using Suc.prems by (simp add: bind_apply allocpid_eq add.assoc del: upt_Suc)
qed simp

text \<open>
  Successive process identifiers are distinct until the 32-bit counter has gone all the way
  round.
\<close>

theorem allocpid_distinct:
  assumes "calm s" and "unlocked LPid s" and "n \<le> 2 ^ 32"
  shows "\<exists>pids t. replicateM n allocpid s = Ok pids t \<and> length pids = n \<and> distinct pids"
proof -
  have "inj_on (\<lambda>i. nextpid s + of_nat i) {0..<n}"
  proof (rule inj_onI)
    fix i j
    assume ij: "i \<in> {0..<n}" "j \<in> {0..<n}" "nextpid s + of_nat i = nextpid s + of_nat j"
    then have "(of_nat i :: u32) = of_nat j" by simp
    then have "unat (of_nat i :: u32) = unat (of_nat j :: u32)" by simp
    then show "i = j" using ij assms(3) by (simp add: unat_of_nat)
  qed
  then show ?thesis
    using allocpid_many [OF assms(1,2), of n] by (simp add: distinct_map)
qed

section \<open>The scheduler\<close>

text \<open>
  The scheduler runs a process only if it is runnable: it then holds the lock of the process,
  has marked it running and made it the process of this CPU; otherwise it leaves the state as it
  was, with the lock released.
\<close>

theorem scheduler_pick_runnable:
  assumes "calm s" and "unlocked (LProc p) s"
  shows "scheduler_pick p s =
    (if p_state (procs s p) = RUNNABLE
     then Ok True ((held (LProc p) s)\<lparr>procs := (procs s)(p := (procs s p)\<lparr>p_state := RUNNING\<rparr>),
       cpus := (cpus (held (LProc p) s))(tp s := (cpus (held (LProc p) s) (tp s))\<lparr>cpu_proc := Some p\<rparr>)\<rparr>)
     else Ok False s)"
  using assms by (simp add: scheduler_pick_def bind_apply acquire_free release_held pget_def pset_def)

end
