(* ===== verification/DiskLayout.thy ===== *)
theory DiskLayout
  imports Fs
begin

text \<open>
  The structures \<^verbatim>\<open>kernel/fs.c\<close> keeps in disk blocks: inodes and directory entries survive being
  written and read back, and the free bitmap is a set of block numbers.
\<close>

unbundle bit_operations_syntax

section \<open>Round trips\<close>

lemma drop_splice:
  assumes "off \<le> length bs"
  shows "drop (off + k) (splice bs off xs) = drop k (xs @ drop (off + length xs) bs)"
  using assms by (simp add: splice_def)

lemma take_drop_splice:
  assumes "off \<le> length bs" "k + n \<le> length xs"
  shows "take n (drop (off + k) (splice bs off xs)) = take n (drop k xs)"
  using assms by (subst drop_splice) simp_all

lemma take_drop_words:
  assumes "i < n"
  shows "take 4 (drop (4 * i) (concat (map (\<lambda>i. le_bytes 4 (f (a + i))) [0..<n]))) = le_bytes 4 (f (a + i))"
  using assms
proof (induction n arbitrary: a i)
  case (Suc n)
  have step: "concat (map (\<lambda>i. le_bytes 4 (f (a + i))) [0..<Suc n]) =
      le_bytes 4 (f a) @ concat (map (\<lambda>i. le_bytes 4 (f (Suc a + i))) [0..<n])"
    by (simp add: upt_conv_Cons map_Suc_upt [symmetric] comp_def del: upt_Suc)
  show ?case
  proof (cases i)
    case 0
    then show ?thesis unfolding step by simp
  next
    case (Suc j)
    then have "j < n" using Suc.prems by simp
    from Suc.IH [OF this, of "Suc a"] show ?thesis unfolding step by (simp add: \<open>i = Suc j\<close>)
  qed
qed simp

lemma length_words: "length (concat (map (\<lambda>i. le_bytes 4 (f i)) [0..<n])) = 4 * n"
  by (induction n) simp_all

lemma length_dinode_bytes [simp]: "length (dinode_bytes d) = 64"
  by (simp add: dinode_bytes_def length_words)

lemma dinode_read_splice:
  assumes "off \<le> length bs"
  shows "dinode_read (splice bs off (dinode_bytes d)) off = dinode_read (dinode_bytes d) 0"
proof -
  have g: "k + 2 \<le> 64 \<Longrightarrow> get16 (splice bs off (dinode_bytes d)) (off + k) = get16 (dinode_bytes d) (0 + k)"
    "k + 4 \<le> 64 \<Longrightarrow> get32 (splice bs off (dinode_bytes d)) (off + k) = get32 (dinode_bytes d) (0 + k)" for k
    using take_drop_splice [OF assms, of k _ "dinode_bytes d"] by (simp_all add: get16_def get32_def)
  have z: "get16 (splice bs off (dinode_bytes d)) off = get16 (dinode_bytes d) 0"
    using g(1) [of 0] by simp
  have "(\<lambda>i. if i < 13 then get32 (splice bs off (dinode_bytes d)) (off + 12 + 4 * i) else 0) =
      (\<lambda>i. if i < 13 then get32 (dinode_bytes d) (0 + 12 + 4 * i) else 0)"
    using g(2) [of "12 + 4 * i" for i] by (auto simp: fun_eq_iff add.assoc)
  then show ?thesis
    unfolding dinode_read_def by (simp only: z g(1) [of 2] g(1) [of 4] g(1) [of 6] g(2) [of 8])
qed

lemma dinode_read_bytes:
  assumes "\<And>i. 13 \<le> i \<Longrightarrow> d_addrs d i = 0"
  shows "dinode_read (dinode_bytes d) 0 = d"
proof -
  let ?W = "concat (map (\<lambda>i. le_bytes 4 (d_addrs d i)) [0..<13])"
  have "drop (12 + 4 * i) (dinode_bytes d) = drop (4 * i) ?W" for i
    by (simp add: dinode_bytes_def)
  then have "get32 (dinode_bytes d) (12 + 4 * i) = d_addrs d i" if "i < 13" for i
    using take_drop_words [OF that, of "d_addrs d" 0] by (simp add: get32_def)
  then have "(\<lambda>i. if i < 13 then get32 (dinode_bytes d) (0 + 12 + 4 * i) else 0) = d_addrs d"
    using assms by (auto simp: fun_eq_iff)
  moreover have "get16 (dinode_bytes d) 0 = d_type d" "get16 (dinode_bytes d) (0 + 2) = d_major d"
    "get16 (dinode_bytes d) (0 + 4) = d_minor d" "get16 (dinode_bytes d) (0 + 6) = d_nlink d"
    "get32 (dinode_bytes d) (0 + 8) = d_size d"
    by (simp_all add: dinode_bytes_def get16_def get32_def)
  ultimately show ?thesis unfolding dinode_read_def by (simp only:) simp
qed



section \<open>The free bitmap\<close>

lemma bit_of_bit: "bit_of bs bi = bit (bs ! (bi div 8)) (bi mod 8)"
  using and_exp_eq_0_iff_not_bit [of "bs ! (bi div 8)" "bi mod 8"]
  by (simp add: bit_of_def push_bit_eq_mult)

lemma div_mod_8: "a div 8 = b div 8 \<Longrightarrow> a mod 8 = b mod 8 \<longleftrightarrow> a = (b :: nat)"
  by (metis mult_div_mod_eq)

lemma bit_pow: "bit (2 ^ k :: u8) (j mod 8) \<longleftrightarrow> j mod 8 = k"
  by (auto simp: bit_exp_iff possible_bit_word)

lemma bit_of_set:
  assumes "bi < 8 * length bs"
  shows "bit_of (set_bitmap bs bi) j = (j = bi \<or> bit_of bs j)"
proof -
  have i: "bi div 8 < length bs" using assms by (simp add: less_mult_imp_div_less mult.commute)
  have b: "bit (x OR push_bit (bi mod 8) 1) (j mod 8) = (bit x (j mod 8) \<or> j mod 8 = bi mod 8)" for x :: u8
    by (auto simp: bit_and_iff bit_or_iff bit_not_iff bit_pow possible_bit_word)
  show ?thesis
  proof (cases "j div 8 = bi div 8")
    case True
    then have "bit_of (set_bitmap bs bi) j = bit (bs ! (bi div 8) OR push_bit (bi mod 8) 1) (j mod 8)"
      using i by (simp only: bit_of_bit set_bitmap_def nth_list_update_eq)
    then show ?thesis using True div_mod_8 [of j bi] by (simp only: b bit_of_bit) auto
  next
    case False
    then show ?thesis by (auto simp: bit_of_bit set_bitmap_def)
  qed
qed

lemma bit_of_clear:
  assumes "bi < 8 * length bs"
  shows "bit_of (clear_bitmap bs bi) j = (j \<noteq> bi \<and> bit_of bs j)"
proof -
  have i: "bi div 8 < length bs" using assms by (simp add: less_mult_imp_div_less mult.commute)
  have b: "bit (x AND NOT (push_bit (bi mod 8) 1)) (j mod 8) = (bit x (j mod 8) \<and> j mod 8 \<noteq> bi mod 8)" for x :: u8
    by (auto simp: bit_and_iff bit_or_iff bit_not_iff bit_pow possible_bit_word)
  show ?thesis
  proof (cases "j div 8 = bi div 8")
    case True
    then have "bit_of (clear_bitmap bs bi) j = bit (bs ! (bi div 8) AND NOT (push_bit (bi mod 8) 1)) (j mod 8)"
      using i by (simp only: bit_of_bit clear_bitmap_def nth_list_update_eq)
    then show ?thesis using True div_mod_8 [of j bi] by (simp only: b bit_of_bit) auto
  next
    case False
    then show ?thesis by (auto simp: bit_of_bit clear_bitmap_def)
  qed
qed

text \<open>
  C34: the search and the update of a bitmap block in \<^verbatim>\<open>balloc\<close>, and \<^verbatim>\<open>bfree\<close>'s.  The search finds the
  least free bit below the limit, or says that there is none; setting that bit makes exactly it
  allocated; clearing it again restores the set of allocated blocks.
\<close>

theorem bitmap_alloc_free:
  assumes "lim \<le> 8 * length bs"
  shows "case free_bit bs lim of
      None \<Rightarrow> {j. j < lim \<and> \<not> bit_of bs j} = {}
    | Some bi \<Rightarrow> bi = (LEAST j. \<not> bit_of bs j) \<and> bi < lim \<and>
        {j. bit_of (set_bitmap bs bi) j} = insert bi {j. bit_of bs j} \<and> bi \<notin> {j. bit_of bs j} \<and>
        {j. bit_of (clear_bitmap (set_bitmap bs bi) bi) j} = {j. bit_of bs j}"
proof (cases "free_bit bs lim")
  case None
  then have "\<forall>j<lim. bit_of bs j" by (auto simp: free_bit_def find_None_iff)
  then show ?thesis using None by auto
next
  case (Some bi)
  then have i: "bi < lim" "\<not> bit_of bs bi" "\<forall>j<bi. bit_of bs j"
    unfolding free_bit_def find_Some_iff by auto
  have least: "(LEAST j. \<not> bit_of bs j) = bi"
    using i(2,3) by (intro Least_equality) (auto simp: not_less [symmetric] simp del: not_less)
  have lt: "bi < 8 * length bs" using i(1) assms by simp
  have len: "length (set_bitmap bs bi) = length bs" by (simp add: set_bitmap_def)
  have set: "{j. bit_of (set_bitmap bs bi) j} = insert bi {j. bit_of bs j}"
    using bit_of_set [OF lt] by auto
  have clear: "{j. bit_of (clear_bitmap (set_bitmap bs bi) bi) j} = {j. bit_of bs j}"
    using bit_of_set [OF lt] bit_of_clear [of bi "set_bitmap bs bi"] lt len i(2) by auto
  show ?thesis
    unfolding Some option.case by (intro conjI least [symmetric] i(1) set clear) (simp add: i(2))
qed

theorem bitmap_alloc_free_witness:
  "8 \<le> 8 * length [0x0b :: u8] \<and> free_bit [0x0b] 8 = Some 2 \<and>
   {j. bit_of (set_bitmap [0x0b] 2) j} = insert 2 {j. bit_of [0x0b] j}"
proof -
  have f: "free_bit [0x0b] 8 = Some 2" by code_simp
  show ?thesis using bitmap_alloc_free [of 8 "[0x0b]"] f by simp
qed

end
