(* ===== verification/TrapProps.thy ===== *)
theory TrapProps
  imports Trap ProcProps Frames
begin

text \<open>What \<^verbatim>\<open>usertrapret\<close> hands to the trampoline.\<close>

unbundle bit_operations_syntax

lemma apart_gap:
  fixes a b x :: u64
  assumes "8 \<le> unat (b - a)" "8 \<le> unat (a - b)"
  shows "apart (x + a) 8 (x + b) 8"
  unfolding apart_def within_def
proof (intro allI notI, elim conjE)
  fix y
  assume u: "unat (y - (x + a)) < 8" and v: "unat (y - (x + b)) < 8"
  have d: "b - a = (y - (x + a)) - (y - (x + b))" "a - b = (y - (x + b)) - (y - (x + a))" by simp_all
  show False
  proof (cases "y - (x + b) \<le> y - (x + a)")
    case True
    then have "unat (b - a) \<le> unat (y - (x + a))" unfolding d(1) by (simp only: unat_sub diff_le_self)
    then show False using assms(1) u by simp
  next
    case False
    then have "y - (x + a) \<le> y - (x + b)" by simp
    then have "unat (a - b) \<le> unat (y - (x + b))" unfolding d(2) by (simp only: unat_sub diff_le_self)
    then show False using assms(2) v by simp
  qed
qed

lemma apart_epc: "apart (x + 24) 8 x 8" "apart (x + 24) 8 (x + 8) 8" "apart (x + 24) 8 (x + 16) 8" "apart (x + 24) 8 (x + 32) 8"
  for x :: u64
  using apart_gap [of 0 24 x] apart_gap [of 8 24 x] apart_gap [of 16 24 x] apart_gap [of 32 24 x] by simp_all

lemma mask_bits: "\<not> bit (- 257 :: u64) 8" "bit (32 :: u64) 5" "\<not> bit (32 :: u64) 8" "\<not> bit (- 3 :: u64) (Suc 0)" "\<not> bit (32 :: u64) (Suc 0)"
  by code_simp+

lemma sstatus_user:
  "\<not> bit ((x AND - 3) AND - 257 OR 32) 8" "bit ((x AND - 3) AND - 257 OR 32) 5" "\<not> bit ((x AND - 3) AND - 257 OR 32) (Suc 0)"
  for x :: u64
  using mask_bits by (simp_all only: bit_or_iff bit_and_iff) simp_all

text \<open>
  C37: \<^verbatim>\<open>usertrapret\<close> returns to user mode and nowhere else.  With a process running on the hart, it
  ends with the previous-privilege bit of \<^verbatim>\<open>sstatus\<close> clear, interrupts enabled after \<^verbatim>\<open>sret\<close> and disabled
  until then, \<^verbatim>\<open>sepc\<close> at the user program counter saved in the trap frame, traps going to \<^verbatim>\<open>uservec\<close> in the
  trampoline, and the jump to \<^verbatim>\<open>userret\<close> with the process's own page table.
\<close>

theorem usertrapret_user_mode:
  assumes "calm s" and "me s = Some p"
  shows "\<exists>t. usertrapret s = Ok (TRAMPOLINE + (userret s - trampoline s), TRAPFRAME, MAKE_SATP (p_pagetable (procs s p))) t \<and>
     \<not> bit (sstatus (harts t (tp t))) 8 \<and> bit (sstatus (harts t (tp t))) 5 \<and> \<not> sie t \<and>
     sepc (harts t (tp t)) = read64 (mem s) (p_trapframe (procs s p) + tf_off TF_epc) \<and>
     stvec (harts t (tp t)) = TRAMPOLINE + (uservec s - trampoline s)"
proof -
  have cur: "curproc s = Ok p s"
    using assms by (simp add: curproc_def bind_apply myproc_calm)
  have 1: "bind curproc f s = f p s" for f :: "nat \<Rightarrow> ('a trap_st_scheme, 'b) kmon"
    by (simp add: bind_apply cur)
  show ?thesis
    unfolding usertrapret_def 1
    by (simp add: bind_apply set_sie_def w_stvec_def r_satp_def tf_set_def tf_get_def pget_def r_sstatus_def
        w_sstatus_def w_sepc_def sie_def sstatus_user not_bit_and_not_two read64_write64_apart apart_epc)
qed

end
