(* ===== verification/Zero.thy ===== *)
theory Zero
  imports Boot ProcProps DiskLayout TrapProps
begin

text \<open>
  A concrete state of the whole kernel, all zero and idle, that the witnesses of the properties
  start from.
\<close>

definition zero_pcb :: pcb where
  "zero_pcb = \<lparr>p_state = UNUSED, p_chan = ChNull, p_killed = False, p_xstate = 0, p_pid = 0, p_parent = None,
     p_kstack = 0, p_sz = 0, p_pagetable = 0, p_trapframe = 0, p_context = zero_context, p_ofile = (\<lambda>_. None),
     p_cwd = None, p_name = []\<rparr>"

definition zero_buf :: buf where
  "zero_buf = \<lparr>b_valid = False, b_disk = False, b_dev = 0, b_blockno = 0, b_refcnt = 0, b_prev = 0, b_next = 0,
     b_data = []\<rparr>"

definition zero_inode :: inode where
  "zero_inode = \<lparr>i_dev = 0, i_inum = 0, i_ref = 0, i_valid = False, i_type = 0, i_major = 0, i_minor = 0,
     i_nlink = 0, i_size = 0, i_addrs = (\<lambda>_. 0)\<rparr>"

definition zero_file :: kfile where
  "zero_file = \<lparr>f_type = FD_NONE, f_ref = 0, f_readable = False, f_writable = False, f_pipe = 0, f_ip = 0,
     f_off = 0, f_major = 0\<rparr>"

definition zero_pipe :: pipe where
  "zero_pipe = \<lparr>pi_data = (\<lambda>_. 0), nread = 0, nwrite = 0, readopen = False, writeopen = False\<rparr>"

definition zero_state :: boot_st where
  "zero_state = \<lparr>tp = tp zero_mach, harts = harts zero_mach, cpus = cpus zero_mach, locks = locks zero_mach,
     mem = mem zero_mach, kend = 0x80022000, freelist = 0,
     kernel_pagetable = 0, etext = 0x80008000, trampoline = 0x80007000,
     procs = (\<lambda>_. zero_pcb), nextpid = 1, initproc = None, forkret_pc = 0,
     sleeplocks = (\<lambda>_. \<lparr>sl_locked = False, sl_name = [], sl_pid = 0\<rparr>),
     bufs = (\<lambda>_. zero_buf), disk = (\<lambda>_. []), dwrites = [],
     vq_desc = (\<lambda>_. null_desc), avail_idx = 0, avail_ring = (\<lambda>_. 0), used_ring_idx = 0, used_ring = (\<lambda>_. 0),
     vd_free = (\<lambda>_. False), vd_used_idx = 0, info_b = (\<lambda>_. None), info_status = (\<lambda>_. 0),
     vd_ops = (\<lambda>_. \<lparr>rq_type = 0, rq_reserved = 0, rq_sector = 0\<rparr>), queue_page = 0, mmio = (\<lambda>_. 0),
     log_start = 0, log_size = 0, log_outstanding = 0, log_committing = False, log_dev = 0, lh_n = 0,
     lh_block = (\<lambda>_. 0),
     sb = \<lparr>sb_magic = 0, sb_size = 0, sb_nblocks = 0, sb_ninodes = 0, sb_nlog = 0, sb_logstart = 0,
       sb_inodestart = 0, sb_bmapstart = 0\<rparr>,
     itable = (\<lambda>_. zero_inode),
     uart_thr_empty = True, uart_out = [], uart_in = [], uart_regs = [], uart_tx_buf = (\<lambda>_. 0), uart_tx_w = 0,
     uart_tx_r = 0, panicked = False, pr_locking = False,
     cons_buf = (\<lambda>_. 0), cons_r = 0, cons_w = 0, cons_e = 0, devsw_console = False,
     pipes = (\<lambda>_. zero_pipe), ftable = (\<lambda>_. zero_file), ticks = 0,
     plic_claim_reg = (\<lambda>_. 0), plic_writes = [], kernelvec = 0, uservec = 0, userret = 0, usertrap_pc = 0,
     forkret_first = True,
     mregs = (\<lambda>_. \<lparr>mhartid = 0, mstatus = 0, mepc = 0, medeleg = 0, mideleg = 0, sie_reg = 0, mie = 0, mtvec = 0,
       mscratch = 0, pmpaddr0 = 0, pmpcfg0 = 0\<rparr>),
     hartid = 0, clint_mtime = 0, clint_mtimecmp = (\<lambda>_. 0), timer_scratch = (\<lambda>_. [0, 0, 0, 0, 0]),
     scratch_pc = (\<lambda>_. 0), main_pc = 0, timervec_pc = 0, started = False\<rparr>"

lemma zero_state_calm [simp]: "calm zero_state"
  by (simp add: zero_state_def zero_mach_def calm_def sie_def zero_csrs_def zero_cpu_def)

lemma zero_state_unlocked [simp]: "unlocked l zero_state"
  by (simp add: zero_state_def zero_mach_def unlocked_def zero_lock_def)

lemma zero_state_pipe [simp]: "pipes zero_state a = zero_pipe" "procs zero_state p = zero_pcb"
  by (simp_all add: zero_state_def)

section \<open>Witnesses\<close>


theorem wakeup_exact_witness:
  "calm zero_state \<and> unlocked (LProc 5) zero_state \<and>
   wakeup ChTicks zero_state =
     Ok () (zero_state\<lparr>procs := (\<lambda>p. if p < NPROC then woken ChTicks (me zero_state) (procs zero_state p) p else procs zero_state p)\<rparr>)"
  using wakeup_exact [of zero_state ChTicks] by simp

text \<open>The same state with process 0 running.\<close>

definition running_state :: boot_st where
  "running_state = zero_state\<lparr>cpus := (\<lambda>_. zero_cpu\<lparr>cpu_proc := Some 0\<rparr>)\<rparr>"

lemma running_state_calm: "calm running_state" "me running_state = Some 0"
  by (simp_all add: running_state_def zero_state_def zero_mach_def calm_def sie_def zero_csrs_def zero_cpu_def me_def)

theorem usertrapret_user_mode_witness:
  "calm running_state \<and> me running_state = Some 0 \<and>
   (\<exists>t. usertrapret running_state = Ok (TRAMPOLINE + (userret running_state - trampoline running_state), TRAPFRAME,
       MAKE_SATP (p_pagetable (procs running_state 0))) t \<and> \<not> bit (sstatus (harts t (tp t))) 8 \<and> \<not> sie t)"
  using usertrapret_user_mode [OF running_state_calm] running_state_calm by blast

end
