(* ===== verification/Ready.thy ===== *)
theory Ready
  imports Sleeplock ProcProps
begin

text \<open>
  What locking does when nothing stands in its way.  \<open>ready s\<close>: a process runs on the current
  hart, the interrupt bookkeeping is balanced and all spin locks are free.  From such a state
  the sleep-lock routines return, with the closed forms below.
\<close>

unbundle bit_operations_syntax

definition ready :: "'z proc_st_scheme \<Rightarrow> bool" where
  "ready s = (calm s \<and> (\<forall>l. unlocked l s) \<and> me s \<noteq> None)"

definition mypid :: "'z proc_st_scheme \<Rightarrow> u32" where
  "mypid s = p_pid (procs s (the (me s)))"

lemma readyD: "ready s \<Longrightarrow> calm s" "ready s \<Longrightarrow> unlocked l s"
  by (simp_all add: ready_def)

lemma me_held [simp]: "me (held l s) = me s"
  by (simp add: me_def held_def pushed_def set_sie_def)

lemma mypid_held [simp]: "mypid (held l s) = mypid s"
  by (simp add: mypid_def)

lemma curproc_ready: "\<lbrakk>calm s; me s \<noteq> None\<rbrakk> \<Longrightarrow> curproc s = Ok (the (me s)) s"
  by (auto simp: curproc_def bind_apply myproc_calm)

lemma held_sleeplocks [simp]: "sleeplocks (held l s) = sleeplocks s"
  by (simp add: held_def pushed_def set_sie_def)

lemma held_sleeplocks_update: "held l (s\<lparr>sleeplocks := f\<rparr>) = (held l s)\<lparr>sleeplocks := f\<rparr>"
  by (simp add: held_def pushed_def set_sie_def)

lemma calm_sleeplocks [simp]: "calm (s\<lparr>sleeplocks := f\<rparr>) = calm s"
  by (simp add: calm_def sie_def)

lemma unlocked_sleeplocks [simp]: "unlocked l (s\<lparr>sleeplocks := f\<rparr>) = unlocked l s"
  by (simp add: unlocked_def)

lemma me_sleeplocks [simp]: "me (s\<lparr>sleeplocks := f\<rparr>) = me s" "mypid (s\<lparr>sleeplocks := f\<rparr>) = mypid s"
  by (simp_all add: me_def mypid_def)

lemma ready_sleeplocks [simp]: "ready (s\<lparr>sleeplocks := f\<rparr>) = ready s"
  by (simp add: ready_def)

lemma ready_procs [simp]: "ready (s\<lparr>procs := f\<rparr>) = ready s"
  by (simp add: ready_def)

lemma release_ready: "ready s \<Longrightarrow> release l (held l s) = Ok () s"
  by (simp add: readyD)

section \<open>Sleep locks\<close>

definition sl_take :: "slkid \<Rightarrow> 'z sleep_st_scheme \<Rightarrow> (slkid \<Rightarrow> sleeplock)" where
  "sl_take k s = (sleeplocks s)(k := (sleeplocks s k)\<lparr>sl_locked := True, sl_pid := mypid s\<rparr>)"

definition sl_free :: "slkid \<Rightarrow> 'z sleep_st_scheme \<Rightarrow> (slkid \<Rightarrow> sleeplock)" where
  "sl_free k s = (sleeplocks s)(k := (sleeplocks s k)\<lparr>sl_locked := False, sl_pid := 0\<rparr>)"

definition woken_all :: "chan \<Rightarrow> 'z proc_st_scheme \<Rightarrow> (nat \<Rightarrow> pcb)" where
  "woken_all ch s = (\<lambda>p. if p < NPROC then woken ch (me s) (procs s p) p else procs s p)"

lemma wakeup_ready:
  assumes "calm s" and "\<And>p. unlocked (LProc p) s"
  shows "wakeup ch s = Ok () (s\<lparr>procs := woken_all ch s\<rparr>)"
  using wakeup_list [of "[0..<NPROC]" s ch] assms by (simp add: wakeup_def woken_all_def)

lemma mypid_woken [simp]: "mypid (s\<lparr>procs := woken_all ch s\<rparr>) = mypid s"
  by (simp add: mypid_def woken_all_def woken_def)

lemma acquiresleep_ready:
  assumes "ready s" and "\<not> sl_locked (sleeplocks s k)"
  shows "acquiresleep k s = Ok () (s\<lparr>sleeplocks := sl_take k s\<rparr>)"
proof -
  have r: "release (LSleep k) ((held (LSleep k) s)\<lparr>sleeplocks := f\<rparr>) = Ok () (s\<lparr>sleeplocks := f\<rparr>)" for f
    using release_ready [of "s\<lparr>sleeplocks := f\<rparr>" "LSleep k"] assms(1) by (simp add: held_sleeplocks_update)
  have c: "calm (held (LSleep k) s)" "me (held (LSleep k) s) \<noteq> None"
    using assms(1) by (simp_all add: ready_def)
  show ?thesis
    using assms c r curproc_ready [of "(held (LSleep k) s)\<lparr>sleeplocks := f\<rparr>" for f]
    by (simp add: acquiresleep_def acquiresleep_loop_def bind_apply readyD sl_set_def pget_def sl_take_def mypid_def)
qed

lemma holdingsleep_ready:
  assumes "ready s"
  shows "holdingsleep k s = Ok (sl_locked (sleeplocks s k) \<and> sl_pid (sleeplocks s k) = mypid s) s"
proof -
  have c: "calm (held (LSleep k) s)" "me (held (LSleep k) s) \<noteq> None"
    using assms by (simp_all add: ready_def)
  show ?thesis
    using assms c by (simp add: holdingsleep_def bind_apply readyD curproc_ready pget_def mypid_def)
qed

lemma releasesleep_ready:
  assumes "ready s"
  shows "releasesleep k s = Ok () (s\<lparr>sleeplocks := sl_free k s, procs := woken_all (ChSleepLock k) s\<rparr>)"
proof -
  let ?h = "(held (LSleep k) s)\<lparr>sleeplocks := sl_free k s\<rparr>"
  have w: "wakeup (ChSleepLock k) ?h = Ok () (?h\<lparr>procs := woken_all (ChSleepLock k) ?h\<rparr>)"
    using assms by (intro wakeup_ready) (simp_all add: ready_def)
  have p: "woken_all (ChSleepLock k) ?h = woken_all (ChSleepLock k) s"
    by (simp add: woken_all_def fun_eq_iff)
  let ?t = "s\<lparr>sleeplocks := sl_free k s, procs := woken_all (ChSleepLock k) s\<rparr>"
  have "release (LSleep k) (held (LSleep k) ?t) = Ok () ?t"
    using assms by (intro release_ready) simp
  then have r: "release (LSleep k) (?h\<lparr>procs := woken_all (ChSleepLock k) s\<rparr>) = Ok () ?t"
    by (simp add: held_sleeplocks_update held_procs_update)
  show ?thesis
    using assms w r p by (simp add: releasesleep_def bind_apply readyD sl_set_def sl_free_def)
qed

end
