(* ===== verification/BufList.thy ===== *)
theory BufList
  imports Bio Ready Frames
begin

text \<open>
  The list of buffers in \<^verbatim>\<open>kernel/bio.c\<close>.  The pointers \<^verbatim>\<open>next\<close> and \<^verbatim>\<open>prev\<close> of the buffers and of the
  head form one circular doubly linked list of all buffers, the most recently used first.
  \<open>lru B xs\<close> abstracts it to the list \<open>xs\<close> of buffer indices.  \<^verbatim>\<open>binit\<close> creates such a list, the
  searches of \<^verbatim>\<open>bget\<close> are searches of \<open>xs\<close> from the front and from the back, and \<^verbatim>\<open>brelse\<close> moves a
  buffer to the front.
\<close>

unbundle bit_operations_syntax

section \<open>Doubly linked segments\<close>

fun lseg :: "(nat \<Rightarrow> nat) \<Rightarrow> (nat \<Rightarrow> nat) \<Rightarrow> nat list \<Rightarrow> bool" where
  "lseg nx pv (x # y # zs) = (nx x = y \<and> pv y = x \<and> lseg nx pv (y # zs))"
| "lseg nx pv _ = True"

lemma lseg_append: "lseg nx pv (as @ x # bs) \<longleftrightarrow> lseg nx pv (as @ [x]) \<and> lseg nx pv (x # bs)"
proof (induction as)
  case (Cons a as)
  then show ?case by (cases as) auto
qed simp

lemma lseg_nx_upd: "p \<notin> set (butlast zs) \<Longrightarrow> lseg (nx(p := n)) pv zs = lseg nx pv zs"
  by (induction nx pv zs rule: lseg.induct) auto

lemma lseg_pv_upd: "n \<notin> set (tl zs) \<Longrightarrow> lseg nx (pv(n := p)) zs = lseg nx pv zs"
  by (induction nx pv zs rule: lseg.induct) auto

lemma lseg_rev: "lseg nx pv (rev zs) = lseg pv nx zs"
proof (induction pv nx zs rule: lseg.induct)
  case (1 pv nx x y zs)
  have "lseg nx pv (rev (x # y # zs)) = lseg nx pv (rev zs @ y # [x])" by simp
  also have "\<dots> = (lseg nx pv (rev zs @ [y]) \<and> lseg nx pv [y, x])" by (rule lseg_append)
  finally show ?case using 1 by auto
qed simp_all

lemma lseg_remove:
  assumes "lseg nx pv (as @ p # b # n # cs)" "distinct (as @ [p])" "distinct (n # cs)"
    "p \<notin> set (butlast (n # cs))" "n \<notin> set (tl (as @ [p]))"
  shows "lseg (nx(p := n)) (pv(n := p)) (as @ p # n # cs)"
proof -
  have l: "lseg nx pv (as @ [p])" "lseg nx pv (p # b # n # cs)"
    using assms(1) lseg_append [of nx pv as p "b # n # cs"] by blast+
  have "lseg (nx(p := n)) (pv(n := p)) (as @ [p])"
    using l(1) assms(2,5) by (simp add: lseg_nx_upd lseg_pv_upd)
  moreover have "lseg (nx(p := n)) (pv(n := p)) (n # cs)"
    using l(2) assms(3,4) by (subst lseg_nx_upd, simp, subst lseg_pv_upd) simp_all
  ultimately show ?thesis using lseg_append [of _ _ as p "n # cs"] by simp
qed

lemma lseg_insert:
  assumes "lseg nx pv (h # n # cs)" "distinct (n # cs)" "h \<notin> set (butlast (n # cs))" "b \<notin> set (h # n # cs)"
  shows "lseg (nx(b := n, h := b)) (pv(b := h, n := b)) (h # b # n # cs)"
proof -
  have l: "lseg nx pv (n # cs)" using assms(1) by simp
  have b: "b \<notin> set (butlast (n # cs))" "b \<notin> set (tl (n # cs))" "n \<notin> set (tl (n # cs))"
    using assms(2,4) in_set_butlastD [of b "n # cs"] by auto
  have "lseg (nx(b := n, h := b)) (pv(b := h, n := b)) (n # cs)"
    unfolding lseg_nx_upd [OF assms(3)] lseg_nx_upd [OF b(1)] lseg_pv_upd [OF b(3)] lseg_pv_upd [OF b(2)]
    by (rule l)
  then show ?thesis using assms(4) by auto
qed

section \<open>The list of the cache\<close>

abbreviation (input) nexts :: "(nat \<Rightarrow> buf) \<Rightarrow> nat \<Rightarrow> nat" where "nexts B \<equiv> \<lambda>i. b_next (B i)"
abbreviation (input) prevs :: "(nat \<Rightarrow> buf) \<Rightarrow> nat \<Rightarrow> nat" where "prevs B \<equiv> \<lambda>i. b_prev (B i)"

definition ring :: "(nat \<Rightarrow> buf) \<Rightarrow> nat list \<Rightarrow> bool" where
  "ring B xs = (lseg (nexts B) (prevs B) (bhead # xs @ [bhead]) \<and> distinct xs \<and> bhead \<notin> set xs)"

definition lru :: "(nat \<Rightarrow> buf) \<Rightarrow> nat list \<Rightarrow> bool" where
  "lru B xs = (ring B xs \<and> set xs = {0..<NBUF})"

lemma ring_hd: "ring B xs \<Longrightarrow> b_next (B bhead) = hd (xs @ [bhead])"
  by (cases xs) (simp_all add: ring_def)

lemma ring_last: "ring B xs \<Longrightarrow> b_prev (B bhead) = hd (rev xs @ [bhead])"
proof -
  assume "ring B xs"
  then have "lseg (prevs B) (nexts B) (bhead # rev xs @ [bhead])"
    unfolding ring_def by (subst lseg_rev [symmetric]) simp
  then show ?thesis by (cases "rev xs") simp_all
qed

text \<open>The pointer updates of \<^verbatim>\<open>brelse\<close> and \<^verbatim>\<open>binit\<close> as functions of the buffers.\<close>

definition rem_links :: "(nat \<Rightarrow> buf) \<Rightarrow> nat \<Rightarrow> (nat \<Rightarrow> buf)" where
  "rem_links B b =
     (let B1 = B(b_next (B b) := (B (b_next (B b)))\<lparr>b_prev := b_prev (B b)\<rparr>)
      in B1(b_prev (B1 b) := (B1 (b_prev (B1 b)))\<lparr>b_next := b_next (B1 b)\<rparr>))"

definition ins_links :: "(nat \<Rightarrow> buf) \<Rightarrow> nat \<Rightarrow> (nat \<Rightarrow> buf)" where
  "ins_links B b =
     (let B1 = B(b := (B b)\<lparr>b_next := b_next (B bhead), b_prev := bhead\<rparr>);
          B2 = B1(b_next (B1 bhead) := (B1 (b_next (B1 bhead)))\<lparr>b_prev := b\<rparr>)
      in B2(bhead := (B2 bhead)\<lparr>b_next := b\<rparr>))"

lemma lru_remove_eq: "lru_remove b s = Ok () (s\<lparr>bufs := rem_links (bufs s) b\<rparr>)"
  by (simp add: lru_remove_def bind_apply bufget_def bufset_def rem_links_def Let_def)

lemma lru_insert_eq: "lru_insert b s = Ok () (s\<lparr>bufs := ins_links (bufs s) b\<rparr>)"
  by (simp add: lru_insert_def bind_apply bufget_def bufset_def ins_links_def Let_def)

lemma ring_ins:
  assumes "ring B xs" "b \<notin> set xs" "b \<noteq> bhead"
  shows "ring (ins_links B b) (b # xs)"
proof -
  obtain n cs where n: "xs @ [bhead] = n # cs" by (cases xs) auto
  have hd: "b_next (B bhead) = n" using ring_hd [OF assms(1)] n by simp
  have nb: "n \<noteq> b" using n assms(2,3) by (cases xs) auto
  have "nexts (ins_links B b) = (nexts B)(b := n, bhead := b)" "prevs (ins_links B b) = (prevs B)(b := bhead, n := b)"
    using assms(3) nb hd by (auto simp: ins_links_def Let_def fun_eq_iff)
  moreover have "lseg ((nexts B)(b := n, bhead := b)) ((prevs B)(b := bhead, n := b)) (bhead # b # n # cs)"
  proof (rule lseg_insert)
    show "lseg (nexts B) (prevs B) (bhead # n # cs)" using assms(1) n by (simp add: ring_def)
    have "distinct (xs @ [bhead])" using assms(1) by (simp add: ring_def)
    then show "distinct (n # cs)" by (simp only: n)
    have "butlast (n # cs) = xs" by (simp only: n [symmetric] butlast_snoc)
    then show "bhead \<notin> set (butlast (n # cs))" using assms(1) by (simp add: ring_def)
    have "set (n # cs) = set xs \<union> {bhead}" by (simp only: n [symmetric]) simp
    then show "b \<notin> set (bhead # n # cs)" using assms(2,3) by simp
  qed
  ultimately show ?thesis using assms n by (simp add: ring_def)
qed

lemma ring_rem:
  assumes "ring B (us @ b # vs)"
  shows "ring (rem_links B b) (us @ vs)"
proof -
  obtain as p where p: "bhead # us = as @ [p]" by (metis append_butlast_last_id list.distinct(1))
  obtain n cs where n: "vs @ [bhead] = n # cs" by (cases vs) auto
  have "bhead # (us @ b # vs) @ [bhead] = (bhead # us) @ b # (vs @ [bhead])" by simp
  then have eq: "bhead # (us @ b # vs) @ [bhead] = as @ p # b # n # cs" by (simp only: p n) simp
  have seg: "lseg (nexts B) (prevs B) (as @ p # b # n # cs)"
    using assms unfolding ring_def eq by blast
  have dist: "distinct (bhead # us)" "distinct (vs @ [bhead])" "b \<notin> set us" "b \<notin> set vs" "b \<noteq> bhead" "set us \<inter> set vs = {}"
    using assms by (auto simp: ring_def)
  have "lseg (nexts B) (prevs B) (p # b # n # cs)"
    using seg lseg_append [of "nexts B" "prevs B" as p "b # n # cs"] by blast
  then have pn: "nexts B b = n" "prevs B b = p" by simp_all
  have p_in: "p \<in> set (bhead # us)" and n_in: "n \<in> set (vs @ [bhead])" by (simp_all only: p n) simp_all
  have pb: "p \<noteq> b" using p_in dist by auto
  have nb: "n \<noteq> b" using n_in dist by auto
  have "nexts (rem_links B b) = (nexts B)(p := n)" "prevs (rem_links B b) = (prevs B)(n := p)"
    using pn pb nb by (auto simp: rem_links_def Let_def fun_eq_iff)
  moreover have "lseg ((nexts B)(p := n)) ((prevs B)(n := p)) (as @ p # n # cs)"
  proof (rule lseg_remove [OF seg])
    show "distinct (as @ [p])" using dist(1) by (simp only: p)
    show "distinct (n # cs)" using dist(2) by (simp only: n)
    have "butlast (n # cs) = vs" by (simp only: n [symmetric] butlast_snoc)
    then show "p \<notin> set (butlast (n # cs))" using p_in dist(2,6) by auto
    have "tl (as @ [p]) = us" by (simp only: p [symmetric] list.sel)
    then show "n \<notin> set (tl (as @ [p]))" using n_in dist(1,6) by auto
  qed
  moreover have "bhead # (us @ vs) @ [bhead] = as @ p # n # cs"
  proof -
    have "bhead # (us @ vs) @ [bhead] = (bhead # us) @ (vs @ [bhead])" by simp
    then show ?thesis by (simp only: p n) simp
  qed
  ultimately show ?thesis using dist by (auto simp: ring_def)
qed

lemma links_fields [simp]:
  "b_valid (rem_links B b c) = b_valid (B c)" "b_dev (rem_links B b c) = b_dev (B c)"
  "b_blockno (rem_links B b c) = b_blockno (B c)" "b_data (rem_links B b c) = b_data (B c)"
  "b_refcnt (rem_links B b c) = b_refcnt (B c)" "b_disk (rem_links B b c) = b_disk (B c)"
  "b_valid (ins_links B b c) = b_valid (B c)" "b_dev (ins_links B b c) = b_dev (B c)"
  "b_blockno (ins_links B b c) = b_blockno (B c)" "b_data (ins_links B b c) = b_data (B c)"
  "b_refcnt (ins_links B b c) = b_refcnt (B c)" "b_disk (ins_links B b c) = b_disk (B c)"
  by (simp_all add: rem_links_def ins_links_def Let_def)

lemma ring_cong:
  "(\<And>c. b_next (C c) = b_next (B c)) \<Longrightarrow> (\<And>c. b_prev (C c) = b_prev (B c)) \<Longrightarrow> ring C xs = ring B xs"
  by (simp add: ring_def)

lemma lru_to_front:
  assumes "lru B xs" "b < NBUF"
  shows "lru (ins_links (rem_links B b) b) (b # remove1 b xs)"
proof -
  have "b \<in> set xs" using assms by (simp add: lru_def)
  then obtain us vs where xs: "xs = us @ b # vs" and nb: "b \<notin> set us" by (metis split_list_first)
  have d: "distinct xs" using assms(1) by (simp add: lru_def ring_def)
  have r: "remove1 b xs = us @ vs" using nb by (simp add: xs remove1_append)
  have "ring (rem_links B b) (us @ vs)" using assms(1) ring_rem xs by (simp add: lru_def)
  then have "ring (ins_links (rem_links B b) b) (b # us @ vs)"
    using d xs assms(2) by (intro ring_ins) auto
  then show ?thesis using assms xs r by (auto simp: lru_def)
qed

section \<open>Searching\<close>

lemma bget_cached_find:
  assumes "lseg (nexts (bufs s)) pv (ys @ [bhead])" "bhead \<notin> set ys" "length ys < k"
  shows "bget_cached k dev bno (hd (ys @ [bhead])) s =
    Ok (find (\<lambda>b. b_dev (bufs s b) = dev \<and> b_blockno (bufs s b) = bno) ys) s"
  using assms
proof (induction ys arbitrary: k)
  case Nil
  then show ?case by (cases k) (simp_all add: bind_apply bufget_def)
next
  case (Cons y ys)
  obtain j where k: "k = Suc j" using Cons.prems by (cases k) auto
  have "nexts (bufs s) y = hd (ys @ [bhead])" "lseg (nexts (bufs s)) pv (ys @ [bhead])"
    using Cons.prems(1) by (cases ys; simp)+
  then show ?case using Cons by (simp add: k bind_apply bufget_def)
qed

lemma bget_unused_find:
  assumes "lseg (prevs (bufs s)) nx (ys @ [bhead])" "bhead \<notin> set ys" "length ys < k"
  shows "bget_unused k (hd (ys @ [bhead])) s = Ok (find (\<lambda>b. b_refcnt (bufs s b) = 0) ys) s"
  using assms
proof (induction ys arbitrary: k)
  case Nil
  then show ?case by (cases k) (simp_all add: bind_apply bufget_def)
next
  case (Cons y ys)
  obtain j where k: "k = Suc j" using Cons.prems by (cases k) auto
  have "prevs (bufs s) y = hd (ys @ [bhead])" "lseg (prevs (bufs s)) nx (ys @ [bhead])"
    using Cons.prems(1) by (cases ys; simp)+
  then show ?case using Cons by (simp add: k bind_apply bufget_def)
qed

end
