(* ===== verification/Cache.thy ===== *)
theory Cache
  imports BufList
begin

text \<open>
  The block cache as a function from block numbers to contents.  \<open>binv D X s\<close> is the invariant of
  the cache for device \<open>D\<close>: the buffers form one list, no block is cached twice, every valid
  buffer outside the set \<open>X\<close> of dirty blocks agrees with the disk, and the dirty blocks are cached
  in referenced buffers, which \<^verbatim>\<open>bget\<close> does not recycle.  \<open>bval s D\<close> is the contents of the blocks as the
  kernel sees them.  \<open>bst D X L s\<close> adds that the process can run and that it holds the sleep locks of
  exactly the buffers in \<open>L\<close>.
\<close>

unbundle bit_operations_syntax

definition caches :: "(nat \<Rightarrow> buf) \<Rightarrow> u32 \<Rightarrow> u32 \<Rightarrow> nat \<Rightarrow> bool" where
  "caches B D x b = (b < NBUF \<and> b_dev (B b) = D \<and> b_blockno (B b) = x)"

definition binv :: "u32 \<Rightarrow> u32 set \<Rightarrow> 'z bio_st_scheme \<Rightarrow> bool" where
  "binv D X s =
     ((\<exists>xs. lru (bufs s) xs) \<and>
      (\<forall>b c x. caches (bufs s) D x b \<and> caches (bufs s) D x c \<longrightarrow> b = c) \<and>
      (\<forall>b<NBUF. b_valid (bufs s b) \<longrightarrow> b_dev (bufs s b) = D \<and>
         (b_blockno (bufs s b) \<notin> X \<longrightarrow> b_data (bufs s b) = disk s (b_blockno (bufs s b)))) \<and>
      (\<forall>x\<in>X. \<exists>b. caches (bufs s) D x b \<and> b_valid (bufs s b) \<and> b_refcnt (bufs s b) \<noteq> 0))"

definition bval :: "'z bio_st_scheme \<Rightarrow> u32 \<Rightarrow> u32 \<Rightarrow> u8 list" where
  "bval s D x = (case find (\<lambda>b. caches (bufs s) D x b \<and> b_valid (bufs s b)) [0..<NBUF] of
     Some b \<Rightarrow> b_data (bufs s b) | None \<Rightarrow> disk s x)"

abbreviation (input) refs :: "'z bio_st_scheme \<Rightarrow> nat \<Rightarrow> u32" where
  "refs s \<equiv> \<lambda>b. b_refcnt (bufs s b)"

definition bst :: "u32 \<Rightarrow> u32 set \<Rightarrow> nat set \<Rightarrow> 'z bio_st_scheme \<Rightarrow> bool" where
  "bst D X L s =
     (ready s \<and> binv D X s \<and> (\<forall>b<NBUF. sl_locked (sleeplocks s (SlBuf b)) = (b \<in> L)) \<and>
      (\<forall>b\<in>L. b < NBUF \<and> sl_pid (sleeplocks s (SlBuf b)) = mypid s \<and> b_valid (bufs s b) \<and> b_refcnt (bufs s b) \<noteq> 0))"

text \<open>Only the cache, its locks and the disk change.\<close>

definition cache_only :: "'z bio_st_scheme \<Rightarrow> 'z bio_st_scheme \<Rightarrow> bool" where
  "cache_only s t = (\<exists>k p B d w. t = s\<lparr>procs := p, sleeplocks := k, bufs := B, disk := d, dwrites := w\<rparr>)"

lemma cache_onlyI: "t = s\<lparr>procs := p, sleeplocks := k, bufs := B, disk := d, dwrites := w\<rparr> \<Longrightarrow> cache_only s t"
  unfolding cache_only_def by blast

lemma cache_only_trans:
  assumes "cache_only s t" "cache_only t u"
  shows "cache_only s u"
proof -
  obtain k p B d w where t: "t = s\<lparr>procs := p, sleeplocks := k, bufs := B, disk := d, dwrites := w\<rparr>"
    using assms(1) unfolding cache_only_def by blast
  obtain k' p' B' d' w' where u: "u = t\<lparr>procs := p', sleeplocks := k', bufs := B', disk := d', dwrites := w'\<rparr>"
    using assms(2) unfolding cache_only_def by blast
  show ?thesis
    by (rule cache_onlyI [where p = p' and k = k' and B = B' and d = d' and w = w']) (simp add: u t)
qed

lemma cache_only_refl: "cache_only s s"
  by (rule cache_onlyI [where p = "procs s" and k = "sleeplocks s" and B = "bufs s" and d = "disk s" and w = "dwrites s"]) simp

interpretation cf: frame cache_only
  by unfold_locales (fact cache_only_refl, fact cache_only_trans)

section \<open>Frame facts\<close>

lemma held_bufs [simp]: "bufs (held l s) = bufs s"
  by (simp add: held_def pushed_def set_sie_def)

lemma held_bufs_update: "held l (s\<lparr>bufs := f\<rparr>) = (held l s)\<lparr>bufs := f\<rparr>"
  by (simp add: held_def pushed_def set_sie_def)

lemma ready_bufs [simp]: "ready (s\<lparr>bufs := f\<rparr>) = ready s" "ready (s\<lparr>disk := d\<rparr>) = ready s" "ready (s\<lparr>dwrites := w\<rparr>) = ready s"
  by (simp_all add: ready_def calm_def sie_def unlocked_def me_def)

lemma mypid_bufs [simp]: "mypid (s\<lparr>bufs := f\<rparr>) = mypid s" "mypid (s\<lparr>disk := d\<rparr>) = mypid s" "mypid (s\<lparr>dwrites := w\<rparr>) = mypid s"
  by (simp_all add: mypid_def me_def)

lemma release_bufs: "ready s \<Longrightarrow> release l ((held l s)\<lparr>bufs := f\<rparr>) = Ok () (s\<lparr>bufs := f\<rparr>)"
  using release_ready [of "s\<lparr>bufs := f\<rparr>" l] by (simp add: held_bufs_update)

section \<open>bget\<close>

definition hit :: "(nat \<Rightarrow> buf) \<Rightarrow> u32 \<Rightarrow> u32 \<Rightarrow> nat list \<Rightarrow> nat option" where
  "hit B D x xs = find (\<lambda>b. b_dev (B b) = D \<and> b_blockno (B b) = x) xs"

definition unused :: "(nat \<Rightarrow> buf) \<Rightarrow> nat list \<Rightarrow> nat option" where
  "unused B xs = find (\<lambda>b. b_refcnt (B b) = 0) (rev xs)"

lemma lru_length: "lru B xs \<Longrightarrow> length xs = NBUF"
  by (metis atLeastLessThan_iff card_atLeastLessThan diff_zero distinct_card lru_def ring_def)

lemma bget_search:
  assumes "lru (bufs s) xs"
  shows "bget_cached (NBUF + 1) D x (b_next (bufs s bhead)) s = Ok (hit (bufs s) D x xs) s"
    "bget_unused (NBUF + 1) (b_prev (bufs s bhead)) s = Ok (unused (bufs s) xs) s"
proof -
  have r: "ring (bufs s) xs" "length xs < NBUF + 1" using assms lru_length [OF assms] by (simp_all add: lru_def)
  have f: "lseg (nexts (bufs s)) (prevs (bufs s)) (xs @ [bhead])"
    using r(1) by (cases xs) (simp_all add: ring_def)
  have "lseg (prevs (bufs s)) (nexts (bufs s)) (bhead # rev xs @ [bhead])"
    using r(1) unfolding ring_def by (subst lseg_rev [symmetric]) simp
  then have b: "lseg (prevs (bufs s)) (nexts (bufs s)) (rev xs @ [bhead])"
    by (cases "rev xs") simp_all
  show "bget_cached (NBUF + 1) D x (b_next (bufs s bhead)) s = Ok (hit (bufs s) D x xs) s"
    unfolding ring_hd [OF r(1)] hit_def using r f by (intro bget_cached_find) (simp_all add: ring_def)
  show "bget_unused (NBUF + 1) (b_prev (bufs s bhead)) s = Ok (unused (bufs s) xs) s"
    unfolding ring_last [OF r(1)] unused_def using r b by (intro bget_unused_find) (simp_all add: ring_def)
qed

lemma bget_hit:
  assumes "ready s" "lru (bufs s) xs" "hit (bufs s) D x xs = Some b" "\<not> sl_locked (sleeplocks s (SlBuf b))"
  shows "bget D x s = Ok b (s\<lparr>bufs := (bufs s)(b := (bufs s b)\<lparr>b_refcnt := b_refcnt (bufs s b) + 1\<rparr>),
    sleeplocks := sl_take (SlBuf b) s\<rparr>)"
proof -
  let ?B = "(bufs s)(b := (bufs s b)\<lparr>b_refcnt := b_refcnt (bufs s b) + 1\<rparr>)"
  have 1: "bget_cached (NBUF + 1) D x (b_next (bufs s bhead)) (held LBcache s) = Ok (Some b) (held LBcache s)"
    using bget_search(1) [of "held LBcache s" xs D x] assms by simp
  have 2: "acquiresleep (SlBuf b) (s\<lparr>bufs := ?B\<rparr>) = Ok () (s\<lparr>bufs := ?B, sleeplocks := sl_take (SlBuf b) s\<rparr>)"
    using acquiresleep_ready [of "s\<lparr>bufs := ?B\<rparr>" "SlBuf b"] assms by (simp add: sl_take_def)
  show ?thesis
    using 1 2 assms(1) by (simp add: bget_def bind_apply readyD bufget_def bufset_def release_bufs)
qed

lemma bget_miss:
  assumes "ready s" "lru (bufs s) xs" "hit (bufs s) D x xs = None" "unused (bufs s) xs = Some b"
    "\<not> sl_locked (sleeplocks s (SlBuf b))"
  shows "bget D x s = Ok b (s\<lparr>bufs := (bufs s)(b := (bufs s b)\<lparr>b_dev := D, b_blockno := x, b_valid := False, b_refcnt := 1\<rparr>),
    sleeplocks := sl_take (SlBuf b) s\<rparr>)"
proof -
  let ?B = "(bufs s)(b := (bufs s b)\<lparr>b_dev := D, b_blockno := x, b_valid := False, b_refcnt := 1\<rparr>)"
  have 1: "bget_cached (NBUF + 1) D x (b_next (bufs s bhead)) (held LBcache s) = Ok None (held LBcache s)"
    "bget_unused (NBUF + 1) (b_prev (bufs s bhead)) (held LBcache s) = Ok (Some b) (held LBcache s)"
    using bget_search [of "held LBcache s" xs] assms by simp_all
  have 2: "acquiresleep (SlBuf b) (s\<lparr>bufs := ?B\<rparr>) = Ok () (s\<lparr>bufs := ?B, sleeplocks := sl_take (SlBuf b) s\<rparr>)"
    using acquiresleep_ready [of "s\<lparr>bufs := ?B\<rparr>" "SlBuf b"] assms by (simp add: sl_take_def)
  show ?thesis
    using 1 2 assms(1) by (simp add: bget_def bind_apply readyD bufget_def bufset_def release_bufs)
qed

lemma bget_full:
  assumes "ready s" "lru (bufs s) xs" "hit (bufs s) D x xs = None" "unused (bufs s) xs = None"
  shows "bget D x s = Panic ''bget: no buffers''"
  using bget_search(1) [of "held LBcache s" xs D x] bget_search(2) [of "held LBcache s" xs] assms
  by (simp add: bget_def bind_apply readyD bufget_def)

lemma hit_Some: "hit B D x xs = Some b \<Longrightarrow> lru B xs \<Longrightarrow> caches B D x b"
  by (auto simp: hit_def find_Some_iff caches_def lru_def dest: nth_mem)

lemma hit_None: "hit B D x xs = None \<Longrightarrow> lru B xs \<Longrightarrow> \<not> caches B D x b"
  by (auto simp: hit_def find_None_iff caches_def lru_def)

lemma unused_Some: "unused B xs = Some b \<Longrightarrow> lru B xs \<Longrightarrow> b < NBUF \<and> b_refcnt (B b) = 0"
proof -
  assume u: "unused B xs = Some b" and l: "lru B xs"
  then obtain i where "i < length (rev xs)" "b_refcnt (B (rev xs ! i)) = 0" "b = rev xs ! i"
    unfolding unused_def find_Some_iff by auto
  moreover from this have "b \<in> set xs" using nth_mem [of i "rev xs"] by simp
  ultimately show ?thesis using l by (auto simp: lru_def)
qed

lemma unused_None: "unused B xs = None \<Longrightarrow> lru B xs \<Longrightarrow> b < NBUF \<Longrightarrow> b_refcnt (B b) \<noteq> 0"
  by (auto simp: unused_def find_None_iff lru_def)

section \<open>Closed forms of the other operations\<close>

definition filled :: "nat \<Rightarrow> 'z bio_st_scheme \<Rightarrow> nat \<Rightarrow> buf" where
  "filled b s = (if b_valid (bufs s b) then bufs s
     else (bufs s)(b := (bufs s b)\<lparr>b_data := disk s (b_blockno (bufs s b)), b_valid := True\<rparr>))"

lemma bread_eq: "bget D x s = Ok b t \<Longrightarrow> bread D x s = Ok b (t\<lparr>bufs := filled b t\<rparr>)"
  by (cases "b_valid (bufs t b)")
    (simp_all add: bread_def bind_apply bufget_def whenM_def virtio_disk_rw_def bufset_def filled_def Let_def)

lemma bwrite_eq:
  assumes "ready s" "sl_locked (sleeplocks s (SlBuf b))" "sl_pid (sleeplocks s (SlBuf b)) = mypid s"
  shows "bwrite b s = Ok () (s\<lparr>disk := (disk s)(b_blockno (bufs s b) := b_data (bufs s b)),
    dwrites := dwrites s @ [(b_blockno (bufs s b), b_data (bufs s b))]\<rparr>)"
  using assms by (simp add: bwrite_def bind_apply holdingsleep_ready whenM_def virtio_disk_rw_def bufget_def Let_def)

lemma bpin_eq: "ready s \<Longrightarrow> bpin b s = Ok () (s\<lparr>bufs := (bufs s)(b := (bufs s b)\<lparr>b_refcnt := b_refcnt (bufs s b) + 1\<rparr>)\<rparr>)"
  by (simp add: bpin_def bind_apply readyD bufset_def release_bufs)

lemma bunpin_eq: "ready s \<Longrightarrow> bunpin b s = Ok () (s\<lparr>bufs := (bufs s)(b := (bufs s b)\<lparr>b_refcnt := b_refcnt (bufs s b) - 1\<rparr>)\<rparr>)"
  by (simp add: bunpin_def bind_apply readyD bufset_def release_bufs)

definition dropped :: "nat \<Rightarrow> (nat \<Rightarrow> buf) \<Rightarrow> nat \<Rightarrow> buf" where
  "dropped b B = (let B' = B(b := (B b)\<lparr>b_refcnt := b_refcnt (B b) - 1\<rparr>) in
     if b_refcnt (B b) = 1 then ins_links (rem_links B' b) b else B')"

lemma brelse_eq:
  assumes "ready s" "sl_locked (sleeplocks s (SlBuf b))" "sl_pid (sleeplocks s (SlBuf b)) = mypid s"
  shows "brelse b s = Ok () (s\<lparr>sleeplocks := sl_free (SlBuf b) s, procs := woken_all (ChSleepLock (SlBuf b)) s,
    bufs := dropped b (bufs s)\<rparr>)"
proof -
  let ?t = "s\<lparr>sleeplocks := sl_free (SlBuf b) s, procs := woken_all (ChSleepLock (SlBuf b)) s\<rparr>"
  have r: "ready ?t" using assms(1) by simp
  show ?thesis
    using assms r by (cases "b_refcnt (bufs s b) = 1")
      (simp_all add: brelse_def bind_apply holdingsleep_ready releasesleep_ready readyD bufset_def bufget_def
        whenM_def lru_remove_eq lru_insert_eq release_bufs dropped_def held_bufs_update)
qed

lemma dropped_fields [simp]:
  "b_valid (dropped b B c) = b_valid (B c)" "b_dev (dropped b B c) = b_dev (B c)"
  "b_blockno (dropped b B c) = b_blockno (B c)" "b_data (dropped b B c) = b_data (B c)"
  "b_refcnt (dropped b B c) = (if c = b then b_refcnt (B b) - 1 else b_refcnt (B c))"
  by (simp_all add: dropped_def Let_def)

text \<open>The list order only depends on the links.\<close>

lemma lru_cong:
  assumes "\<And>c. b_next (B' c) = b_next (B c)" "\<And>c. b_prev (B' c) = b_prev (B c)"
  shows "lru B' xs = lru B xs"
  using assms by (simp add: lru_def ring_def)

lemma dropped_lru: "lru B xs \<Longrightarrow> b < NBUF \<Longrightarrow> lru (dropped b B) (if b_refcnt (B b) = 1 then b # remove1 b xs else xs)"
proof -
  assume a: "lru B xs" "b < NBUF"
  have l: "lru (B(b := (B b)\<lparr>b_refcnt := b_refcnt (B b) - 1\<rparr>)) xs"
    using a(1) by (subst lru_cong [of _ B]) simp_all
  show ?thesis
    using l lru_to_front [OF l a(2)] by (cases "b_refcnt (B b) = 1") (simp_all add: dropped_def Let_def)
qed

section \<open>The contents of the cache\<close>

lemma bval_cached:
  assumes "binv D X s" "caches (bufs s) D x b" "b_valid (bufs s b)"
  shows "bval s D x = b_data (bufs s b)"
proof -
  let ?P = "\<lambda>b. caches (bufs s) D x b \<and> b_valid (bufs s b)"
  have m: "b \<in> set [0..<NBUF]" using assms(2) by (simp add: caches_def)
  then have "find ?P [0..<NBUF] \<noteq> None" using assms by (auto simp: find_None_iff)
  then obtain c where c: "find ?P [0..<NBUF] = Some c" by blast
  then have "?P c" by (auto simp: find_Some_iff)
  then have "c = b" using assms unfolding binv_def by blast
  then show ?thesis using c by (simp add: bval_def)
qed

lemma bval_clean:
  assumes "binv D X s" "x \<notin> X"
  shows "bval s D x = disk s x"
proof (cases "\<exists>b. caches (bufs s) D x b \<and> b_valid (bufs s b)")
  case True
  then obtain b where b: "caches (bufs s) D x b" "b_valid (bufs s b)" by blast
  then have "b_data (bufs s b) = disk s x" using assms by (auto simp: binv_def caches_def)
  then show ?thesis using bval_cached [OF assms(1) b] by simp
next
  case False
  then have "find (\<lambda>b. caches (bufs s) D x b \<and> b_valid (bufs s b)) [0..<NBUF] = None"
    by (auto simp: find_None_iff)
  then show ?thesis by (simp add: bval_def)
qed

lemma bval_dirty:
  assumes "binv D X s" "x \<in> X"
  obtains b where "caches (bufs s) D x b" "b_valid (bufs s b)" "b_refcnt (bufs s b) \<noteq> 0" "bval s D x = b_data (bufs s b)"
  using assms bval_cached [OF assms(1)] unfolding binv_def by meson

lemma bval_eqI:
  assumes "binv D X s" "binv D X t" "disk t = disk s"
    and "\<And>x b. x \<in> X \<Longrightarrow> caches (bufs s) D x b \<Longrightarrow> b_valid (bufs s b) \<Longrightarrow> b_refcnt (bufs s b) \<noteq> 0 \<Longrightarrow>
      caches (bufs t) D x b \<and> b_valid (bufs t b) \<and> b_data (bufs t b) = bval s D x"
  shows "bval t D = bval s D"
proof
  fix x
  show "bval t D x = bval s D x"
  proof (cases "x \<in> X")
    case True
    then obtain b where "caches (bufs s) D x b" "b_valid (bufs s b)" "b_refcnt (bufs s b) \<noteq> 0"
      using bval_dirty [OF assms(1)] by metis
    then show ?thesis using assms(4) [OF True] bval_cached [OF assms(2)] by metis
  next
    case False
    then show ?thesis using bval_clean [OF assms(1)] bval_clean [OF assms(2)] assms(3) by simp
  qed
qed

text \<open>Changing reference counts and links.\<close>

lemma binv_refs:
  assumes "binv D X s" "lru (bufs t) xs" "disk t = disk s"
    and f: "\<And>c. b_dev (bufs t c) = b_dev (bufs s c)" "\<And>c. b_blockno (bufs t c) = b_blockno (bufs s c)"
      "\<And>c. b_valid (bufs t c) = b_valid (bufs s c)" "\<And>c. b_data (bufs t c) = b_data (bufs s c)"
    and r: "\<And>c. c < NBUF \<Longrightarrow> b_blockno (bufs s c) \<in> X \<Longrightarrow> b_valid (bufs s c) \<Longrightarrow> b_refcnt (bufs s c) \<noteq> 0 \<Longrightarrow> b_refcnt (bufs t c) \<noteq> 0"
  shows "binv D X t" "bval t D = bval s D"
proof -
  have c: "caches (bufs t) D x b = caches (bufs s) D x b" for x b by (simp add: caches_def f)
  have "\<forall>x\<in>X. \<exists>b. caches (bufs t) D x b \<and> b_valid (bufs t b) \<and> b_refcnt (bufs t b) \<noteq> 0"
  proof
    fix x assume x: "x \<in> X"
    then obtain b where "caches (bufs s) D x b" "b_valid (bufs s b)" "b_refcnt (bufs s b) \<noteq> 0"
      using assms(1) unfolding binv_def by blast
    then show "\<exists>b. caches (bufs t) D x b \<and> b_valid (bufs t b) \<and> b_refcnt (bufs t b) \<noteq> 0"
      using r [of b] x by (auto simp: c f caches_def)
  qed
  moreover have "\<forall>b c x. caches (bufs t) D x b \<and> caches (bufs t) D x c \<longrightarrow> b = c"
    using assms(1) unfolding binv_def c by blast
  moreover have "\<forall>b<NBUF. b_valid (bufs t b) \<longrightarrow> b_dev (bufs t b) = D \<and>
      (b_blockno (bufs t b) \<notin> X \<longrightarrow> b_data (bufs t b) = disk t (b_blockno (bufs t b)))"
    using assms(1) unfolding binv_def f assms(3) by blast
  ultimately show it: "binv D X t" using assms(2) unfolding binv_def by blast
  show "bval t D = bval s D"
    by (rule bval_eqI [OF assms(1) it assms(3)]) (simp add: c f bval_cached [OF assms(1)])
qed

text \<open>Loading block \<open>x\<close> into buffer \<open>b\<close>.\<close>

lemma binv_load:
  assumes i: "binv D X s" and l: "lru (bufs t) xs" and d: "disk t = disk s" and b: "b < NBUF"
    and o: "\<And>c. c \<noteq> b \<Longrightarrow> bufs t c = bufs s c"
    and n: "b_dev (bufs t b) = D" "b_blockno (bufs t b) = x" "b_valid (bufs t b)" "b_data (bufs t b) = bval s D x"
      "b_refcnt (bufs t b) \<noteq> 0"
    and h: "caches (bufs s) D x b \<or> (\<forall>c. \<not> caches (bufs s) D x c) \<and> b_refcnt (bufs s b) = 0"
  shows "binv D X t" "bval t D = bval s D"
proof -
  have u: "caches (bufs s) D y a \<Longrightarrow> caches (bufs s) D y c \<Longrightarrow> a = c" for y a c
    using i unfolding binv_def by blast
  have c: "caches (bufs t) D y a = (if a = b then y = x else caches (bufs s) D y a)" for y a
    using o [of a] n b by (auto simp: caches_def)
  have k: "caches (bufs t) D y a \<and> b_valid (bufs t a) \<and> b_refcnt (bufs t a) \<noteq> 0 \<and> b_data (bufs t a) = bval s D y"
    if "caches (bufs s) D y a" "b_valid (bufs s a)" "b_refcnt (bufs s a) \<noteq> 0" for y a
  proof (cases "a = b")
    case True
    then have "y = x" using h that by (auto simp: caches_def)
    then show ?thesis using True n by (simp add: c)
  next
    case False
    then show ?thesis using that o [OF False] bval_cached [OF i] by (simp add: c)
  qed
  have "\<forall>y\<in>X. \<exists>a. caches (bufs t) D y a \<and> b_valid (bufs t a) \<and> b_refcnt (bufs t a) \<noteq> 0"
    using k i unfolding binv_def by metis
  moreover have "\<forall>a c y. caches (bufs t) D y a \<and> caches (bufs t) D y c \<longrightarrow> a = c"
    using u h unfolding c by metis
  moreover have "\<forall>a<NBUF. b_valid (bufs t a) \<longrightarrow> b_dev (bufs t a) = D \<and>
      (b_blockno (bufs t a) \<notin> X \<longrightarrow> b_data (bufs t a) = disk t (b_blockno (bufs t a)))"
  proof (intro allI impI)
    fix a assume a: "a < NBUF" "b_valid (bufs t a)"
    show "b_dev (bufs t a) = D \<and> (b_blockno (bufs t a) \<notin> X \<longrightarrow> b_data (bufs t a) = disk t (b_blockno (bufs t a)))"
    proof (cases "a = b")
      case True
      then show ?thesis using n d bval_clean [OF i] by simp
    next
      case False
      then show ?thesis using a i o [OF False] d unfolding binv_def by simp
    qed
  qed
  ultimately show it: "binv D X t" using l unfolding binv_def by blast
  show "bval t D = bval s D"
    by (rule bval_eqI [OF i it d]) (use k in blast)
qed

text \<open>Writing the data of a referenced buffer, and writing a buffer to the disk.\<close>

lemma binv_write:
  assumes i: "binv D X s" and b: "b < NBUF" "b_valid (bufs s b)" "b_refcnt (bufs s b) \<noteq> 0"
    and t: "bufs t = (bufs s)(b := (bufs s b)\<lparr>b_data := v\<rparr>)" "disk t = disk s"
  shows "binv D (insert (b_blockno (bufs s b)) X) t"
    "bval t D = (bval s D)(b_blockno (bufs s b) := v)"
proof -
  let ?x = "b_blockno (bufs s b)"
  have c: "caches (bufs t) D y a = caches (bufs s) D y a" for y a by (simp add: caches_def t)
  have cb: "caches (bufs s) D ?x b" using i b by (simp add: binv_def caches_def)
  have u: "caches (bufs s) D y a \<Longrightarrow> caches (bufs s) D y c \<Longrightarrow> a = c" for y a c
    using i unfolding binv_def by blast
  obtain xs where "lru (bufs s) xs" using i unfolding binv_def by blast
  then have "lru (bufs t) xs" unfolding t by (subst lru_cong [of _ "bufs s"]) simp_all
  moreover have "\<forall>y\<in>insert ?x X. \<exists>a. caches (bufs t) D y a \<and> b_valid (bufs t a) \<and> b_refcnt (bufs t a) \<noteq> 0"
  proof
    fix y assume y: "y \<in> insert ?x X"
    obtain a where a: "caches (bufs s) D y a \<and> b_valid (bufs s a) \<and> b_refcnt (bufs s a) \<noteq> 0"
    proof (cases "y = ?x")
      case True
      then show ?thesis using that [of b] cb b by simp
    next
      case False
      then show ?thesis using that y i unfolding binv_def by blast
    qed
    then have "caches (bufs t) D y a \<and> b_valid (bufs t a) \<and> b_refcnt (bufs t a) \<noteq> 0" unfolding c by (auto simp: t)
    then show "\<exists>a. caches (bufs t) D y a \<and> b_valid (bufs t a) \<and> b_refcnt (bufs t a) \<noteq> 0" by blast
  qed
  moreover have "\<forall>a c y. caches (bufs t) D y a \<and> caches (bufs t) D y c \<longrightarrow> a = c"
    using u unfolding c by blast
  moreover have "\<forall>a<NBUF. b_valid (bufs t a) \<longrightarrow> b_dev (bufs t a) = D \<and>
      (b_blockno (bufs t a) \<notin> insert ?x X \<longrightarrow> b_data (bufs t a) = disk t (b_blockno (bufs t a)))"
    using i b unfolding binv_def by (simp add: t)
  ultimately show it: "binv D (insert ?x X) t" unfolding binv_def by blast
  show "bval t D = (bval s D)(?x := v)"
  proof
    fix y
    show "bval t D y = ((bval s D)(?x := v)) y"
    proof (cases "y = ?x")
      case True
      then show ?thesis using bval_cached [OF it, of y b, unfolded c] cb b by (simp add: t)
    next
      case ne: False
      show ?thesis
      proof (cases "y \<in> X")
        case True
        then obtain a where a: "caches (bufs s) D y a" "b_valid (bufs s a)" "bval s D y = b_data (bufs s a)"
          using bval_dirty [OF i] by metis
        moreover have "a \<noteq> b" using a(1) ne by (auto simp: caches_def)
        ultimately show ?thesis using bval_cached [OF it, of y a, unfolded c] ne by (simp add: t)
      next
        case False
        then show ?thesis using bval_clean [OF it] bval_clean [OF i] ne t by simp
      qed
    qed
  qed
qed

lemma binv_flush:
  assumes i: "binv D X s" and b: "b < NBUF" "b_valid (bufs s b)"
    and t: "bufs t = bufs s" "disk t = (disk s)(b_blockno (bufs s b) := b_data (bufs s b))"
  shows "binv D (X - {b_blockno (bufs s b)}) t" "bval t D = bval s D"
proof -
  let ?x = "b_blockno (bufs s b)"
  have cb: "caches (bufs s) D ?x b" using i b by (simp add: binv_def caches_def)
  have d: "b_dev (bufs s a) = D \<and>
      (b_blockno (bufs s a) \<notin> X - {?x} \<longrightarrow> b_data (bufs s a) = ((disk s)(?x := b_data (bufs s b))) (b_blockno (bufs s a)))"
    if a: "a < NBUF" "b_valid (bufs s a)" for a
  proof (cases "b_blockno (bufs s a) = ?x")
    case True
    have da: "b_dev (bufs s a) = D" using i a unfolding binv_def by blast
    then have "caches (bufs s) D ?x a" using a True by (simp add: caches_def)
    then have "a = b" using cb i unfolding binv_def by blast
    then show ?thesis using da by simp
  next
    case False
    then show ?thesis using i a unfolding binv_def by simp
  qed
  then show it: "binv D (X - {?x}) t" using i unfolding binv_def t by blast
  show "bval t D = bval s D"
  proof
    fix y
    show "bval t D y = bval s D y"
    proof (cases "y \<in> X - {?x}")
      case True
      then obtain a where "caches (bufs s) D y a" "b_valid (bufs s a)" by (metis bval_dirty [OF i] DiffD1)
      then show ?thesis using bval_cached [OF it, of y a] bval_cached [OF i, of y a] by (simp add: t)
    next
      case False
      then show ?thesis
        using bval_clean [OF it False] bval_clean [OF i, of y] bval_cached [OF i cb b(2)] by (cases "y = ?x") (simp_all add: t)
    qed
  qed
qed

end
