(* ===== verification/CacheOps.thy ===== *)
theory CacheOps
  imports Cache
begin

text \<open>
  The operations of the block cache keep the cache invariant.  \<^verbatim>\<open>bread\<close> returns a locked buffer that
  holds the current contents of the block, also when it has to recycle another buffer; \<^verbatim>\<open>bwrite\<close> makes the block
  clean; \<^verbatim>\<open>brelse\<close>, \<^verbatim>\<open>bpin\<close> and \<^verbatim>\<open>bunpin\<close> only count references.
\<close>

unbundle bit_operations_syntax

lemma bstD:
  assumes "bst D X L s"
  shows "ready s" "binv D X s" "\<And>b. b < NBUF \<Longrightarrow> sl_locked (sleeplocks s (SlBuf b)) = (b \<in> L)"
    "\<And>b. b \<in> L \<Longrightarrow> b < NBUF \<and> sl_locked (sleeplocks s (SlBuf b)) \<and> sl_pid (sleeplocks s (SlBuf b)) = mypid s \<and>
      b_valid (bufs s b) \<and> b_refcnt (bufs s b) \<noteq> 0 \<and> b_dev (bufs s b) = D"
  using assms by (simp_all add: bst_def binv_def)

lemma bst_val: "bst D X L s \<Longrightarrow> b \<in> L \<Longrightarrow> bval s D (b_blockno (bufs s b)) = b_data (bufs s b)"
  using bval_cached [of D X s "b_blockno (bufs s b)" b] bstD(2,4) [of D X L s] by (auto simp: caches_def)

text \<open>\<^verbatim>\<open>bget\<close>: either the buffer that caches the block, or an unused one that is given to it.\<close>

lemma bget_spec:
  assumes s: "bst D X L s"
    and free: "(\<exists>b. caches (bufs s) D x b) \<or> (\<exists>b<NBUF. b_refcnt (bufs s b) = 0)"
    and own: "\<And>b. caches (bufs s) D x b \<Longrightarrow> b \<notin> L \<and> b_refcnt (bufs s b) + 1 \<noteq> 0"
  obtains b B where "bget D x s = Ok b (s\<lparr>bufs := B, sleeplocks := sl_take (SlBuf b) s\<rparr>)" "b < NBUF" "b \<notin> L"
    "caches (bufs s) D x b \<or> (\<forall>c. \<not> caches (bufs s) D x c) \<and> b_refcnt (bufs s b) = 0"
    "\<And>c. c \<noteq> b \<Longrightarrow> B c = bufs s c" "b_dev (B b) = D" "b_blockno (B b) = x" "b_refcnt (B b) = b_refcnt (bufs s b) + 1"
    "b_refcnt (B b) \<noteq> 0" "b_next (B b) = b_next (bufs s b)" "b_prev (B b) = b_prev (bufs s b)"
    "b_valid (B b) \<longrightarrow> b_valid (bufs s b) \<and> caches (bufs s) D x b \<and> b_data (B b) = b_data (bufs s b)"
    "b_valid (bufs s b) \<and> caches (bufs s) D x b \<longrightarrow> b_valid (B b)"
proof -
  have rdy: "ready s" and inv: "binv D X s" using bstD [OF s] by simp_all
  then obtain xs where xs: "lru (bufs s) xs" unfolding binv_def by blast
  show ?thesis
  proof (cases "hit (bufs s) D x xs")
    case (Some b)
    have c: "caches (bufs s) D x b" using hit_Some [OF Some xs] .
    then have b: "b < NBUF" "b \<notin> L" "b_refcnt (bufs s b) + 1 \<noteq> 0" using own [of b] by (simp_all add: caches_def)
    have g: "bget D x s = Ok b (s\<lparr>bufs := (bufs s)(b := (bufs s b)\<lparr>b_refcnt := b_refcnt (bufs s b) + 1\<rparr>), sleeplocks := sl_take (SlBuf b) s\<rparr>)"
      using bget_hit [OF rdy xs Some] bstD(3) [OF s b(1)] b(2) by simp
    show ?thesis by (rule that [OF g]) (use b c in \<open>auto simp: caches_def\<close>)
  next
    case None
    have n: "\<not> caches (bufs s) D x c" for c using hit_None [OF None xs] .
    obtain b where u: "unused (bufs s) xs = Some b"
      using free n unused_None [OF _ xs] by (cases "unused (bufs s) xs") auto
    have b: "b < NBUF" "b_refcnt (bufs s b) = 0" using unused_Some [OF u xs] by simp_all
    then have L: "b \<notin> L" using bstD(4) [OF s, of b] by auto
    have g: "bget D x s = Ok b (s\<lparr>bufs := (bufs s)(b := (bufs s b)\<lparr>b_dev := D, b_blockno := x, b_valid := False, b_refcnt := 1\<rparr>),
      sleeplocks := sl_take (SlBuf b) s\<rparr>)"
      using bget_miss [OF rdy xs None u] bstD(3) [OF s b(1)] L by simp
    show ?thesis by (rule that [OF g]) (use b L n in auto)
  qed
qed

lemma bread_spec:
  assumes s: "bst D X L s"
    and free: "(\<exists>b. caches (bufs s) D x b) \<or> (\<exists>b<NBUF. b_refcnt (bufs s b) = 0)"
    and own: "\<And>b. caches (bufs s) D x b \<Longrightarrow> b \<notin> L \<and> b_refcnt (bufs s b) + 1 \<noteq> 0"
  obtains b t where "bread D x s = Ok b t" "bst D X (insert b L) t" "b < NBUF" "b \<notin> L"
    "b_blockno (bufs t b) = x" "b_refcnt (bufs t b) = b_refcnt (bufs s b) + 1"
    "\<And>c. c \<noteq> b \<Longrightarrow> bufs t c = bufs s c" "bval t D = bval s D" "disk t = disk s" "dwrites t = dwrites s" "cache_only s t"
    "caches (bufs s) D x b \<or> (\<forall>c. \<not> caches (bufs s) D x c) \<and> b_refcnt (bufs s b) = 0"
proof -
  have rdy: "ready s" and inv: "binv D X s" using bstD [OF s] by simp_all
  then obtain xs where xs: "lru (bufs s) xs" unfolding binv_def by blast
  obtain b B where g: "bget D x s = Ok b (s\<lparr>bufs := B, sleeplocks := sl_take (SlBuf b) s\<rparr>)"
    and b: "b < NBUF" "b \<notin> L"
    and h: "caches (bufs s) D x b \<or> (\<forall>c. \<not> caches (bufs s) D x c) \<and> b_refcnt (bufs s b) = 0"
    and B: "\<And>c. c \<noteq> b \<Longrightarrow> B c = bufs s c" "b_dev (B b) = D" "b_blockno (B b) = x" "b_refcnt (B b) = b_refcnt (bufs s b) + 1"
      "b_refcnt (B b) \<noteq> 0" "b_next (B b) = b_next (bufs s b)" "b_prev (B b) = b_prev (bufs s b)"
      "b_valid (B b) \<longrightarrow> b_valid (bufs s b) \<and> caches (bufs s) D x b \<and> b_data (B b) = b_data (bufs s b)"
      "b_valid (bufs s b) \<and> caches (bufs s) D x b \<longrightarrow> b_valid (B b)"
    by (rule bget_spec [OF s free]) (use own in blast)+
  let ?u = "s\<lparr>bufs := B, sleeplocks := sl_take (SlBuf b) s\<rparr>"
  let ?t = "?u\<lparr>bufs := filled b ?u\<rparr>"
  have r: "bread D x s = Ok b ?t" using bread_eq [OF g] .
  have o: "bufs ?t c = bufs s c" if "c \<noteq> b" for c using B(1) [OF that] that by (simp add: filled_def)
  have nl: "\<exists>v. bufs ?t b = (B b)\<lparr>b_data := v, b_valid := True\<rparr>"
  proof (cases "b_valid (B b)")
    case True
    then have "bufs ?t b = (B b)\<lparr>b_data := b_data (B b), b_valid := True\<rparr>" by (simp add: filled_def)
    then show ?thesis by blast
  next
    case False
    then show ?thesis by (auto simp: filled_def)
  qed
  then have f: "b_dev (bufs ?t b) = D" "b_blockno (bufs ?t b) = x" "b_valid (bufs ?t b)" "b_refcnt (bufs ?t b) \<noteq> 0"
    "b_refcnt (bufs ?t b) = b_refcnt (bufs s b) + 1" "b_next (bufs ?t b) = b_next (bufs s b)" "b_prev (bufs ?t b) = b_prev (bufs s b)"
    using B by auto
  have l: "lru (bufs ?t) xs"
  proof (subst lru_cong [of _ "bufs s"])
    fix c
    show "b_next (bufs ?t c) = b_next (bufs s c)" using o [of c] f(6) by (cases "c = b") auto
    show "b_prev (bufs ?t c) = b_prev (bufs s c)" using o [of c] f(7) by (cases "c = b") auto
  qed (fact xs)
  have v: "b_data (bufs ?t b) = bval s D x"
  proof (cases "b_valid (B b)")
    case True
    then show ?thesis using B(8) bval_cached [OF inv, of x b] by (simp add: filled_def)
  next
    case False
    then have "caches (bufs s) D x b \<Longrightarrow> \<not> b_valid (bufs s b)" using B(9) by blast
    then have nv: "\<not> (caches (bufs s) D x c \<and> b_valid (bufs s c))" for c
      using h inv unfolding binv_def by blast
    then have "x \<notin> X" using inv unfolding binv_def by blast
    then show ?thesis using False bval_clean [OF inv] B(3) by (simp add: filled_def)
  qed
  have d: "disk ?t = disk s" by simp
  note bl = binv_load [OF inv l d b(1) o f(1) f(2) f(3) v f(4) h]
  have "bst D X (insert b L) ?t"
    unfolding bst_def
  proof (intro conjI allI impI ballI)
    show "ready ?t" using rdy by simp
    show "binv D X ?t" by (rule bl(1))
    fix c assume "c < NBUF"
    then show "sl_locked (sleeplocks ?t (SlBuf c)) = (c \<in> insert b L)"
      using bstD(3) [OF s] by (simp add: sl_take_def)
  next
    fix c assume c: "c \<in> insert b L"
    show "c < NBUF" using c b(1) bstD(4) [OF s] by blast
    show "sl_pid (sleeplocks ?t (SlBuf c)) = mypid ?t" using c bstD(4) [OF s] by (auto simp: sl_take_def)
    show "b_valid (bufs ?t c)" using c f(3) o [of c] bstD(4) [OF s] by (cases "c = b") auto
    show "b_refcnt (bufs ?t c) \<noteq> 0" using c f(4) o [of c] bstD(4) [OF s] by (cases "c = b") auto
  qed
  then show ?thesis
    by (rule that [OF r _ b f(2) f(5) o bl(2) d])
      (use h in \<open>simp_all add: cache_onlyI [where p = "procs s" and k = "sl_take (SlBuf b) s" and B = "filled b ?u" and d = "disk s" and w = "dwrites s"]\<close>)
qed

lemma brelse_spec:
  assumes s: "bst D X L s" and b: "b \<in> L" and dirty: "b_blockno (bufs s b) \<in> X \<Longrightarrow> b_refcnt (bufs s b) \<noteq> 1"
  obtains t where "brelse b s = Ok () t" "bst D X (L - {b}) t" "bufs t = dropped b (bufs s)"
    "bval t D = bval s D" "disk t = disk s" "dwrites t = dwrites s" "cache_only s t"
proof -
  let ?t = "s\<lparr>sleeplocks := sl_free (SlBuf b) s, procs := woken_all (ChSleepLock (SlBuf b)) s, bufs := dropped b (bufs s)\<rparr>"
  have bb: "b < NBUF" using bstD(4) [OF s b] by blast
  have r: "brelse b s = Ok () ?t" using brelse_eq [OF bstD(1) [OF s]] bstD(4) [OF s b] by blast
  have inv: "binv D X s" using bstD(2) [OF s] .
  then obtain xs where "lru (bufs s) xs" unfolding binv_def by blast
  then have l: "lru (bufs ?t) (if b_refcnt (bufs s b) = 1 then b # remove1 b xs else xs)"
    using dropped_lru [OF _ bb] by simp
  have rc: "b_refcnt (bufs ?t c) \<noteq> 0" if "c < NBUF" "b_blockno (bufs s c) \<in> X" "b_refcnt (bufs s c) \<noteq> 0" for c
    using that dirty by (cases "c = b") auto
  have d: "disk ?t = disk s" by simp
  have bi: "binv D X ?t" "bval ?t D = bval s D"
    by (rule binv_refs [OF inv l d]; (use rc in simp))+
  have m: "mypid ?t = mypid s" by (simp add: mypid_def me_def woken_all_def woken_def)
  have "bst D X (L - {b}) ?t"
    unfolding bst_def m
  proof (intro conjI allI impI ballI)
    show "ready ?t" using bstD(1) [OF s] by simp
    show "binv D X ?t" by (rule bi(1))
    fix c assume "c < NBUF"
    then show "sl_locked (sleeplocks ?t (SlBuf c)) = (c \<in> L - {b})"
      using bstD(3) [OF s] by (simp add: sl_free_def)
  next
    fix c assume c: "c \<in> L - {b}"
    show "c < NBUF" using c bstD(4) [OF s] by blast
    show "sl_pid (sleeplocks ?t (SlBuf c)) = mypid s" using c bstD(4) [OF s] by (auto simp: sl_free_def)
    show "b_valid (bufs ?t c)" using c bstD(4) [OF s] by simp
    show "b_refcnt (bufs ?t c) \<noteq> 0" using c bstD(4) [OF s] by auto
  qed
  then show ?thesis
    by (rule that [OF r])
      (simp_all add: bi(2) cache_onlyI [where p = "woken_all (ChSleepLock (SlBuf b)) s" and k = "sl_free (SlBuf b) s" and B = "dropped b (bufs s)" and d = "disk s" and w = "dwrites s"])
qed

lemma setdata_spec:
  assumes s: "bst D X L s" and b: "b \<in> L"
  obtains t where "bufset b (\<lambda>x. x\<lparr>b_data := f x\<rparr>) s = Ok () t" "bst D (insert (b_blockno (bufs s b)) X) L t"
    "bufs t = (bufs s)(b := (bufs s b)\<lparr>b_data := f (bufs s b)\<rparr>)"
    "bval t D = (bval s D)(b_blockno (bufs s b) := f (bufs s b))" "disk t = disk s" "dwrites t = dwrites s" "cache_only s t"
proof -
  let ?B = "(bufs s)(b := (bufs s b)\<lparr>b_data := f (bufs s b)\<rparr>)"
  let ?t = "s\<lparr>bufs := ?B\<rparr>"
  have r: "bufset b (\<lambda>x. x\<lparr>b_data := f x\<rparr>) s = Ok () ?t" by (simp add: bufset_def)
  have i: "binv D (insert (b_blockno (bufs s b)) X) ?t" "bval ?t D = (bval s D)(b_blockno (bufs s b) := f (bufs s b))"
    by (rule binv_write [OF bstD(2) [OF s]]; (use bstD(4) [OF s b] in simp))+
  have "bst D (insert (b_blockno (bufs s b)) X) L ?t"
    using s i(1) by (auto simp: bst_def)
  then show ?thesis
    by (rule that [OF r])
      (simp_all add: i(2) cache_onlyI [where p = "procs s" and k = "sleeplocks s" and B = ?B and d = "disk s" and w = "dwrites s"])
qed

lemma bwrite_spec:
  assumes s: "bst D X L s" and b: "b \<in> L"
  obtains t where "bwrite b s = Ok () t" "bst D (X - {b_blockno (bufs s b)}) L t" "bufs t = bufs s" "bval t D = bval s D"
    "disk t = (disk s)(b_blockno (bufs s b) := b_data (bufs s b))"
    "dwrites t = dwrites s @ [(b_blockno (bufs s b), b_data (bufs s b))]" "cache_only s t"
proof -
  let ?d = "(disk s)(b_blockno (bufs s b) := b_data (bufs s b))"
  let ?w = "dwrites s @ [(b_blockno (bufs s b), b_data (bufs s b))]"
  let ?t = "s\<lparr>disk := ?d, dwrites := ?w\<rparr>"
  have r: "bwrite b s = Ok () ?t" using bwrite_eq [OF bstD(1) [OF s]] bstD(4) [OF s b] by blast
  have i: "binv D (X - {b_blockno (bufs s b)}) ?t" "bval ?t D = bval s D"
    by (rule binv_flush [OF bstD(2) [OF s]]; (use bstD(4) [OF s b] in simp))+
  have "bst D (X - {b_blockno (bufs s b)}) L ?t"
    using s i(1) by (auto simp: bst_def)
  then show ?thesis
    by (rule that [OF r])
      (simp_all add: i(2) cache_onlyI [where p = "procs s" and k = "sleeplocks s" and B = "bufs s" and d = ?d and w = ?w])
qed

lemma bunpin_spec:
  assumes s: "bst D X L s" and b: "b \<in> L" and n: "b_refcnt (bufs s b) \<noteq> 1"
  obtains t where "bunpin b s = Ok () t" "bst D X L t" "bufs t = (bufs s)(b := (bufs s b)\<lparr>b_refcnt := b_refcnt (bufs s b) - 1\<rparr>)"
    "bval t D = bval s D" "disk t = disk s" "dwrites t = dwrites s" "cache_only s t"
proof -
  let ?B = "(bufs s)(b := (bufs s b)\<lparr>b_refcnt := b_refcnt (bufs s b) - 1\<rparr>)"
  let ?t = "s\<lparr>bufs := ?B\<rparr>"
  have r: "bunpin b s = Ok () ?t" using bunpin_eq [OF bstD(1) [OF s]] .
  have inv: "binv D X s" using bstD(2) [OF s] .
  then obtain xs where "lru (bufs s) xs" unfolding binv_def by blast
  then have l: "lru (bufs ?t) xs" by (subst lru_cong [of _ "bufs s"]) simp_all
  have d: "disk ?t = disk s" by simp
  have i: "binv D X ?t" "bval ?t D = bval s D"
    by (rule binv_refs [OF inv l d]; (use n in auto))+
  have "bst D X L ?t"
    using s i(1) n by (auto simp: bst_def)
  then show ?thesis
    by (rule that [OF r])
      (simp_all add: i(2) cache_onlyI [where p = "procs s" and k = "sleeplocks s" and B = ?B and d = "disk s" and w = "dwrites s"])
qed

lemma bpin_spec:
  assumes s: "bst D X L s" and n: "b_refcnt (bufs s b) + 1 \<noteq> 0"
  obtains t where "bpin b s = Ok () t" "bst D X L t" "bufs t = (bufs s)(b := (bufs s b)\<lparr>b_refcnt := b_refcnt (bufs s b) + 1\<rparr>)"
    "bval t D = bval s D" "disk t = disk s" "dwrites t = dwrites s" "cache_only s t"
proof -
  let ?B = "(bufs s)(b := (bufs s b)\<lparr>b_refcnt := b_refcnt (bufs s b) + 1\<rparr>)"
  let ?t = "s\<lparr>bufs := ?B\<rparr>"
  have r: "bpin b s = Ok () ?t" using bpin_eq [OF bstD(1) [OF s]] .
  have inv: "binv D X s" using bstD(2) [OF s] .
  then obtain xs where "lru (bufs s) xs" unfolding binv_def by blast
  then have l: "lru (bufs ?t) xs" by (subst lru_cong [of _ "bufs s"]) simp_all
  have d: "disk ?t = disk s" by simp
  have i: "binv D X ?t" "bval ?t D = bval s D"
    by (rule binv_refs [OF inv l d]; (use n in auto))+
  have "bst D X L ?t"
    using s i(1) n by (auto simp: bst_def)
  then show ?thesis
    by (rule that [OF r])
      (simp_all add: i(2) cache_onlyI [where p = "procs s" and k = "sleeplocks s" and B = ?B and d = "disk s" and w = "dwrites s"])
qed

end
