(* ===== verification/CacheProps.thy ===== *)
theory CacheProps
  imports CacheOps
begin

text \<open>
  The properties of the block cache: \<^verbatim>\<open>binit\<close> builds the list and establishes the cache invariant, \<^verbatim>\<open>bread\<close>
  returns the current contents, and \<^verbatim>\<open>brelse\<close> keeps the buffers in least-recently-used order.
\<close>

unbundle bit_operations_syntax

section \<open>binit\<close>

text \<open>The fields of a buffer that do not link it.\<close>

definition payload :: "buf \<Rightarrow> bool \<times> u32 \<times> u32 \<times> u32 \<times> u8 list" where
  "payload x = (b_valid x, b_dev x, b_blockno x, b_refcnt x, b_data x)"

lemma payload_ins [simp]: "payload (ins_links B b c) = payload (B c)"
  by (simp add: payload_def)

lemma binit_loop:
  assumes "ready s" "ring (bufs s) []" "k \<le> NBUF"
  shows "\<exists>t. forM [0..<k] (\<lambda>b. bind (initsleeplock (SlBuf b) ''buffer'') (\<lambda>_. lru_insert b)) s = Ok () t \<and> ready t \<and>
    ring (bufs t) (rev [0..<k]) \<and> (\<forall>c. payload (bufs t c) = payload (bufs s c)) \<and>
    (\<forall>b<k. \<not> sl_locked (sleeplocks t (SlBuf b))) \<and> disk t = disk s \<and> dwrites t = dwrites s"
  using assms(3)
proof (induction k)
  case 0
  then show ?case using assms by simp
next
  case (Suc k)
  then obtain t where t: "forM [0..<k] (\<lambda>b. bind (initsleeplock (SlBuf b) ''buffer'') (\<lambda>_. lru_insert b)) s = Ok () t" "ready t"
    "ring (bufs t) (rev [0..<k])" "\<forall>c. payload (bufs t c) = payload (bufs s c)" "\<forall>b<k. \<not> sl_locked (sleeplocks t (SlBuf b))"
    "disk t = disk s" "dwrites t = dwrites s"
    by auto
  let ?L = "(locks t)(LSleep (SlBuf k) := \<lparr>locked = 0, lk_name = ''sleep lock'', lk_cpu = None\<rparr>)"
  let ?K = "(sleeplocks t)(SlBuf k := \<lparr>sl_locked = False, sl_name = ''buffer'', sl_pid = 0\<rparr>)"
  let ?u = "t\<lparr>locks := ?L, sleeplocks := ?K, bufs := ins_links (bufs t) k\<rparr>"
  have r: "forM [0..<Suc k] (\<lambda>b. bind (initsleeplock (SlBuf b) ''buffer'') (\<lambda>_. lru_insert b)) s = Ok () ?u"
    using t(1) by (simp add: forM_append bind_apply initsleeplock_def initlock_def sl_set_def lru_insert_eq)
  have "ring (bufs ?u) (k # rev [0..<k])" using ring_ins [OF t(3), of k] Suc.prems by simp
  moreover have "ready ?u" using t(2) by (auto simp: ready_def unlocked_def calm_def me_def sie_def Let_def)
  ultimately show ?case using r t by (intro exI [of _ ?u]) (auto simp: less_Suc_eq)
qed

lemma binit_spec:
  assumes "ready s"
  shows "\<exists>t. binit s = Ok () t \<and> ready t \<and> lru (bufs t) (rev [0..<NBUF]) \<and> (\<forall>c. payload (bufs t c) = payload (bufs s c)) \<and>
    (\<forall>b<NBUF. \<not> sl_locked (sleeplocks t (SlBuf b))) \<and> disk t = disk s \<and> dwrites t = dwrites s"
proof -
  let ?B = "(bufs s)(bhead := (bufs s bhead)\<lparr>b_prev := bhead, b_next := bhead\<rparr>)"
  let ?u = "s\<lparr>locks := (locks s)(LBcache := \<lparr>locked = 0, lk_name = ''bcache'', lk_cpu = None\<rparr>), bufs := ?B\<rparr>"
  have r: "ready ?u" using assms by (auto simp: ready_def unlocked_def calm_def me_def sie_def Let_def)
  have g: "ring (bufs ?u) []" by (simp add: ring_def)
  obtain t where t: "forM [0..<NBUF] (\<lambda>b. bind (initsleeplock (SlBuf b) ''buffer'') (\<lambda>_. lru_insert b)) ?u = Ok () t" "ready t"
    "ring (bufs t) (rev [0..<NBUF])" "\<forall>c. payload (bufs t c) = payload (bufs ?u c)" "\<forall>b<NBUF. \<not> sl_locked (sleeplocks t (SlBuf b))"
    "disk t = disk ?u" "dwrites t = dwrites ?u"
    using binit_loop [OF r g order_refl] by blast
  have "binit s = Ok () t"
    using t(1) by (simp add: binit_def bind_apply initlock_def bufset_def)
  moreover have "lru (bufs t) (rev [0..<NBUF])" using t(3) by (simp add: lru_def)
  moreover have "payload (?B c) = payload (bufs s c)" for c by (simp add: payload_def)
  ultimately show ?thesis using t by (intro exI [of _ t]) simp
qed


section \<open>bread and brelse\<close>

text \<open>C4. Cache coherence: when the invariant holds and a buffer can be had, \<^verbatim>\<open>bread\<close> returns a buffer, locked by the caller and
  referenced once more, that holds the contents of block \<open>x\<close> as last written through the cache; the invariant and the
  contents of all blocks are kept, also when another block's buffer is recycled.\<close>

theorem bread_coherent:
  assumes "bst D X L s"
    and "(\<exists>b. caches (bufs s) D x b) \<or> (\<exists>b<NBUF. b_refcnt (bufs s b) = 0)"
    and "\<And>b. caches (bufs s) D x b \<Longrightarrow> b \<notin> L \<and> b_refcnt (bufs s b) + 1 \<noteq> 0"
  shows "\<exists>b t. bread D x s = Ok b t \<and> b \<notin> L \<and> bst D X (insert b L) t \<and> caches (bufs t) D x b \<and>
    b_data (bufs t b) = bval s D x \<and> b_refcnt (bufs t b) = b_refcnt (bufs s b) + 1 \<and>
    bval t D = bval s D \<and> disk t = disk s"
proof -
  obtain b t where t: "bread D x s = Ok b t" "bst D X (insert b L) t" "b < NBUF" "b \<notin> L"
    "b_blockno (bufs t b) = x" "b_refcnt (bufs t b) = b_refcnt (bufs s b) + 1" "bval t D = bval s D" "disk t = disk s"
    by (rule bread_spec [OF assms(1)]) (use assms(2,3) in auto)
  moreover have "caches (bufs t) D x b" using bstD(4) [OF t(2), of b] t(5) by (simp add: caches_def)
  moreover have "b_data (bufs t b) = bval s D x" using bst_val [OF t(2), of b] t(5,7) by simp
  ultimately show ?thesis by blast
qed

text \<open>C23. \<^verbatim>\<open>brelse\<close> implements the least-recently-used order: the buffer goes to the front of the list exactly when its last
  reference is dropped, the others keep their order, and \<^verbatim>\<open>bget\<close> recycles from the end.\<close>

theorem brelse_lru:
  assumes "ready s" "lru (bufs s) xs" "b < NBUF"
    and "sl_locked (sleeplocks s (SlBuf b))" "sl_pid (sleeplocks s (SlBuf b)) = mypid s"
  shows "\<exists>t. brelse b s = Ok () t \<and> lru (bufs t) (if b_refcnt (bufs s b) = 1 then b # remove1 b xs else xs) \<and>
    b_refcnt (bufs t b) = b_refcnt (bufs s b) - 1 \<and> \<not> sl_locked (sleeplocks t (SlBuf b))"
  using brelse_eq [OF assms(1,4,5)] dropped_lru [OF assms(2,3)] by (simp add: sl_free_def)

text \<open>When every buffer is in use and the block is not cached, \<^verbatim>\<open>bread\<close> panics.\<close>

theorem bread_no_buffers:
  assumes "ready s" "lru (bufs s) xs" "\<And>b. b < NBUF \<Longrightarrow> \<not> caches (bufs s) D x b \<and> b_refcnt (bufs s b) \<noteq> 0"
  shows "bread D x s = Panic ''bget: no buffers''"
proof -
  have "hit (bufs s) D x xs = None" using hit_Some [OF _ assms(2)] assms(3) by (cases "hit (bufs s) D x xs") (auto simp: caches_def)
  moreover have "unused (bufs s) xs = None" using unused_Some [OF _ assms(2)] assms(3) by (cases "unused (bufs s) xs") auto
  ultimately show ?thesis using bget_full [OF assms(1,2)] by (simp add: bread_def bind_apply)
qed

end
