(* ===== verification/LogSteps.thy ===== *)
theory LogSteps
  imports CacheOps Log
begin

text \<open>
  One round of each loop of \<^verbatim>\<open>kernel/log.c\<close>, on a state in which the cache invariant holds: which block
  reaches the disk, what the kernel sees of it afterwards and what happens to the reference counts.
\<close>

unbundle bit_operations_syntax

section \<open>Fields of a block\<close>

lemma length_put32 [simp]: "off + 4 \<le> length bs \<Longrightarrow> length (put32 bs off v) = length bs"
  by (simp add: put32_def)

lemma get32_put32_same: "off + 4 \<le> length bs \<Longrightarrow> get32 (put32 bs off v) off = v"
  by (simp add: get32_def put32_def)

lemma get32_put32_other:
  assumes "off + 4 \<le> length bs" "k + 4 \<le> off \<or> off + 4 \<le> k"
  shows "get32 (put32 bs off v) k = get32 bs k"
proof (cases "k + 4 \<le> off")
  case True
  have "take 4 (drop k (put32 bs off v)) = take 4 (drop k bs)"
  proof (rule nth_equalityI)
    show "length (take 4 (drop k (put32 bs off v))) = length (take 4 (drop k bs))" using assms(1) by simp
    fix i assume "i < length (take 4 (drop k (put32 bs off v)))"
    then show "take 4 (drop k (put32 bs off v)) ! i = take 4 (drop k bs) ! i"
      using True assms(1) by (simp add: put32_def nth_append)
  qed
  then show ?thesis by (simp add: get32_def)
next
  case False
  then have o: "off + 4 \<le> k" using assms(2) by simp
  have "drop k (put32 bs off v) = drop k bs"
    using o assms(1) by (simp add: put32_def)
  then show ?thesis by (simp add: get32_def)
qed

text \<open>The header block \<^verbatim>\<open>write_head\<close> builds over the bytes \<open>d\<close>.\<close>

definition head_bytes :: "int \<Rightarrow> (nat \<Rightarrow> u32) \<Rightarrow> u8 list \<Rightarrow> u8 list" where
  "head_bytes n h d = fold (\<lambda>i e. put32 e (4 + 4 * i) (h i)) [0..<nat n] (put32 d 0 (word_of_int n))"

lemma fold_put32:
  assumes "4 + 4 * k \<le> length d"
  shows "length (fold (\<lambda>i e. put32 e (4 + 4 * i) (h i)) [0..<k] d) = length d \<and>
    get32 (fold (\<lambda>i e. put32 e (4 + 4 * i) (h i)) [0..<k] d) 0 = get32 d 0 \<and>
    (\<forall>i<k. get32 (fold (\<lambda>i e. put32 e (4 + 4 * i) (h i)) [0..<k] d) (4 + 4 * i) = h i)"
  using assms
proof (induction k)
  case 0
  then show ?case by simp
next
  case (Suc k)
  let ?e = "fold (\<lambda>i e. put32 e (4 + 4 * i) (h i)) [0..<k] d"
  have e: "length ?e = length d" "get32 ?e 0 = get32 d 0" "\<forall>i<k. get32 ?e (4 + 4 * i) = h i"
    using Suc by simp_all
  have "get32 (put32 ?e (4 + 4 * k) (h k)) (4 + 4 * i) = h i" if "i < Suc k" for i
    using that e Suc.prems get32_put32_same [of "4 + 4 * k" ?e] get32_put32_other [of "4 + 4 * k" ?e "4 + 4 * i"]
    by (cases "i = k") simp_all
  then show ?case
    using e Suc.prems get32_put32_other [of "4 + 4 * k" ?e 0] by simp
qed

lemma head_bytes_read:
  assumes "0 \<le> n" "n \<le> int LOGSIZE" "length d = BSIZE"
  shows "length (head_bytes n h d) = BSIZE" "sint (get32 (head_bytes n h d) 0) = n"
    "\<And>i. i < nat n \<Longrightarrow> get32 (head_bytes n h d) (4 + 4 * i) = h i"
proof -
  have l: "4 + 4 * nat n \<le> length (put32 d 0 (word_of_int n))" using assms by simp
  have s: "sint (word_of_int n :: u32) = n"
    using assms by (simp add: sint_sbintrunc' signed_take_bit_int_eq_self)
  show "length (head_bytes n h d) = BSIZE" "\<And>i. i < nat n \<Longrightarrow> get32 (head_bytes n h d) (4 + 4 * i) = h i"
    using fold_put32 [OF l, of h] assms by (simp_all add: head_bytes_def)
  have "get32 (head_bytes n h d) 0 = word_of_int n"
    using fold_put32 [OF l, of h] assms get32_put32_same [of 0 d] by (simp add: head_bytes_def)
  then show "sint (get32 (head_bytes n h d) 0) = n" using s by simp
qed

section \<open>What the log code leaves alone\<close>

lemma cache_only_log:
  assumes "cache_only s t"
  shows "log_dev t = log_dev s" "log_start t = log_start s" "log_size t = log_size s" "lh_n t = lh_n s" "lh_block t = lh_block s"
    "log_outstanding t = log_outstanding s" "log_committing t = log_committing s"
  using assms by (auto simp: cache_only_def)

abbreviation (input) some_free :: "'z bio_st_scheme \<Rightarrow> bool" where
  "some_free s \<equiv> \<exists>b<NBUF. b_refcnt (bufs s b) = 0"

definition two_free :: "'z bio_st_scheme \<Rightarrow> bool" where
  "two_free s = (\<exists>a<NBUF. \<exists>b<NBUF. a \<noteq> b \<and> b_refcnt (bufs s a) = 0 \<and> b_refcnt (bufs s b) = 0)"

definition small_refs :: "'z bio_st_scheme \<Rightarrow> bool" where
  "small_refs s = (\<forall>b<NBUF. b_refcnt (bufs s b) < 2 ^ 31)"

lemma inc_refs: "(r :: u32) < 2 ^ 31 \<Longrightarrow> r + 1 \<noteq> 0"
proof
  assume "r < 2 ^ 31" "r + 1 = 0"
  then have "- 1 < (2 ^ 31 :: u32)" by (metis eq_neg_iff_add_eq_0)
  then show False by simp
qed

lemma small_refsD: "small_refs s \<Longrightarrow> caches (bufs s) D x b \<Longrightarrow> b_refcnt (bufs s b) + 1 \<noteq> 0"
  by (intro inc_refs) (auto simp: small_refs_def caches_def)

lemma dirty_refs:
  assumes "binv D X s" "x \<in> X" "caches (bufs s) D x b"
  shows "b_refcnt (bufs s b) \<noteq> 0"
  using assms unfolding binv_def by metis

lemma dirty_cached: "binv D X s \<Longrightarrow> x \<in> X \<Longrightarrow> \<exists>b. caches (bufs s) D x b"
  unfolding binv_def by blast

text \<open>Both loops hold two buffers at once: the block \<open>l\<close> of the log and its home \<open>x\<close>.\<close>

lemma two_breads:
  assumes s: "bst D X {} s" and l: "l \<notin> X" "x \<noteq> l" and free: "x \<in> X \<and> some_free s \<or> two_free s" and small: "small_refs s"
  obtains a f s1 t where "bread D l s = Ok a s1" "bread D x s1 = Ok f t" "bst D X {f, a} t" "f \<noteq> a"
    "b_blockno (bufs t a) = l" "b_blockno (bufs t f) = x" "b_data (bufs t a) = bval s D l" "b_data (bufs t f) = bval s D x"
    "\<And>c. b_refcnt (bufs t c) = b_refcnt (bufs s c) + (if c = a \<or> c = f then 1 else 0)" "x \<in> X \<Longrightarrow> b_refcnt (bufs s f) \<noteq> 0"
    "bval t D = bval s D" "disk t = disk s" "dwrites t = dwrites s" "cache_only s s1" "cache_only s t"
proof -
  have fr: "some_free s" using free by (auto simp: two_free_def)
  obtain a s1 where r1: "bread D l s = Ok a s1" and b1: "bst D X {a} s1"
    and n1: "b_blockno (bufs s1 a) = l" "b_refcnt (bufs s1 a) = b_refcnt (bufs s a) + 1"
    and o1: "\<And>c. c \<noteq> a \<Longrightarrow> bufs s1 c = bufs s c"
    and v1: "bval s1 D = bval s D" "disk s1 = disk s" "dwrites s1 = dwrites s" and c1: "cache_only s s1"
    by (rule bread_spec [OF s]) (use fr small_refsD [OF small] in auto)
  note i1 = bstD(2) [OF b1]
  have own: "c \<notin> {a} \<and> b_refcnt (bufs s1 c) + 1 \<noteq> 0" if "caches (bufs s1) D x c" for c
  proof -
    have "c \<noteq> a" using that n1 l(2) by (auto simp: caches_def)
    then show ?thesis using o1 that small_refsD [OF small] by (auto simp: caches_def)
  qed
  have free1: "(\<exists>b. caches (bufs s1) D x b) \<or> (\<exists>b<NBUF. b_refcnt (bufs s1 b) = 0)"
    using free dirty_cached [OF i1] o1 unfolding two_free_def by metis
  obtain f t where r2: "bread D x s1 = Ok f t" and b2: "bst D X {f, a} t" and f: "f \<notin> {a}"
    and n2: "b_blockno (bufs t f) = x" "b_refcnt (bufs t f) = b_refcnt (bufs s1 f) + 1"
    and o2: "\<And>c. c \<noteq> f \<Longrightarrow> bufs t c = bufs s1 c"
    and v2: "bval t D = bval s1 D" "disk t = disk s1" "dwrites t = dwrites s1" and c2: "cache_only s1 t"
    and h2: "caches (bufs s1) D x f \<or> (\<forall>c. \<not> caches (bufs s1) D x c) \<and> b_refcnt (bufs s1 f) = 0"
    by (rule bread_spec [OF b1, of x]) (use free1 own in auto)
  have "b_refcnt (bufs s1 f) \<noteq> 0" if "x \<in> X" using h2 dirty_cached [OF i1 that] dirty_refs [OF i1 that] by blast
  then have rf: "b_refcnt (bufs s f) \<noteq> 0" if "x \<in> X" using o1 [of f] f that by simp
  have na: "b_blockno (bufs t a) = l" using o2 [of a] f n1 by auto
  have d: "b_data (bufs t a) = bval s D l" "b_data (bufs t f) = bval s D x"
    using bst_val [OF b2, of a] bst_val [OF b2, of f] na n2 v1 v2 by simp_all
  have "b_refcnt (bufs t c) = b_refcnt (bufs s c) + (if c = a \<or> c = f then 1 else 0)" for c
    using n1 n2 o1 [of c] o2 [of c] f by auto
  then show ?thesis
    using that r1 r2 b2 f na n2(1) d rf v1 v2 c1 cache_only_trans [OF c1 c2] by simp
qed

section \<open>write_log\<close>

lemma write_log_one_spec:
  fixes s :: "'z log_st_scheme"
  defines "l \<equiv> \<lambda>i. log_start s + of_nat i + 1"
  assumes s: "bst (log_dev s) X {} s" and x: "lh_block s i \<in> X" and l: "l i \<notin> X" and free: "some_free s" and small: "small_refs s"
  obtains t where "write_log_one i s = Ok () t" "bst (log_dev s) X {} t" "cache_only s t" "refs t = refs s"
    "bval t (log_dev s) = (bval s (log_dev s))(l i := bval s (log_dev s) (lh_block s i))"
    "disk t = (disk s)(l i := bval s (log_dev s) (lh_block s i))"
    "dwrites t = dwrites s @ [(l i, bval s (log_dev s) (lh_block s i))]"
proof -
  let ?D = "log_dev s" let ?x = "lh_block s i" let ?v = "bval s ?D ?x"
  have ne: "?x \<noteq> l i" using x l by auto
  obtain a f s1 s2 where r1: "bread ?D (l i) s = Ok a s1" and r2: "bread ?D ?x s1 = Ok f s2" and b2: "bst ?D X {f, a} s2" and f: "f \<noteq> a"
    and n2: "b_blockno (bufs s2 a) = l i" "b_blockno (bufs s2 f) = ?x" "b_data (bufs s2 f) = ?v"
    and rc: "\<And>c. b_refcnt (bufs s2 c) = b_refcnt (bufs s c) + (if c = a \<or> c = f then 1 else 0)" and rf: "b_refcnt (bufs s f) \<noteq> 0"
    and v2: "bval s2 ?D = bval s ?D" "disk s2 = disk s" "dwrites s2 = dwrites s" and c1: "cache_only s s1" and c2: "cache_only s s2"
    by (rule two_breads [OF s l ne]) (use x free small in auto)
  obtain s3 where r3: "bufset a (\<lambda>y. y\<lparr>b_data := ?v\<rparr>) s2 = Ok () s3" and b3: "bst ?D (insert (l i) X) {f, a} s3"
    and B3: "bufs s3 = (bufs s2)(a := (bufs s2 a)\<lparr>b_data := ?v\<rparr>)"
    and v3: "bval s3 ?D = (bval s2 ?D)(l i := ?v)" "disk s3 = disk s2" "dwrites s3 = dwrites s2" and c3: "cache_only s2 s3"
    by (rule setdata_spec [OF b2, of a "\<lambda>_. ?v"]) (auto simp: n2)
  have n3: "b_blockno (bufs s3 a) = l i" "b_data (bufs s3 a) = ?v" using n2 B3 by auto
  obtain s4 where r4: "bwrite a s3 = Ok () s4" and b4: "bst ?D (insert (l i) X - {l i}) {f, a} s4" and B4: "bufs s4 = bufs s3"
    and v4: "bval s4 ?D = bval s3 ?D" "disk s4 = (disk s3)(l i := ?v)" "dwrites s4 = dwrites s3 @ [(l i, ?v)]" and c4: "cache_only s3 s4"
    by (rule bwrite_spec [OF b3, of a]) (auto simp: n3)
  have X4: "insert (l i) X - {l i} = X" using l by simp
  have n4: "b_refcnt (bufs s4 f) \<noteq> 1" "b_blockno (bufs s4 a) = l i" using rc [of f] rf f n3 by (auto simp: B4 B3)
  obtain s5 where r5: "brelse f s4 = Ok () s5" and b5: "bst ?D X ({f, a} - {f}) s5" and B5: "bufs s5 = dropped f (bufs s4)"
    and v5: "bval s5 ?D = bval s4 ?D" "disk s5 = disk s4" "dwrites s5 = dwrites s4" and c5: "cache_only s4 s5"
    by (rule brelse_spec [OF b4 [unfolded X4], of f]) (use n4 in auto)
  have L5: "{f, a} - {f} = {a}" using f by auto
  obtain s6 where r6: "brelse a s5 = Ok () s6" and b6: "bst ?D X ({a} - {a}) s6" and B6: "bufs s6 = dropped a (bufs s5)"
    and v6: "bval s6 ?D = bval s5 ?D" "disk s6 = disk s5" "dwrites s6 = dwrites s5" and c6: "cache_only s5 s6"
    by (rule brelse_spec [OF b5 [unfolded L5], of a]) (use n4 l in \<open>auto simp: B5\<close>)
  have c: "cache_only s s6" using c2 c3 c4 c5 c6 cache_only_trans by metis
  have "write_log_one i s = Ok () s6"
    using r1 r2 r3 r4 r5 r6 cache_only_log [OF c1] by (simp add: write_log_one_def bind_apply bufget_def n2 l_def)
  moreover have "refs s6 = refs s" using f by (auto simp: fun_eq_iff B6 B5 B4 B3 rc)
  ultimately show ?thesis using b6 c v2 v3 v4 v5 v6 by (intro that [of s6]) simp_all
qed

section \<open>install_trans\<close>

text \<open>Reference counts after some blocks have been unpinned.\<close>

definition fewer :: "'z bio_st_scheme \<Rightarrow> 'z bio_st_scheme \<Rightarrow> bool" where
  "fewer s t = (\<forall>b. b_refcnt (bufs t b) \<le> b_refcnt (bufs s b))"

lemma fewer_refl: "refs t = refs s \<Longrightarrow> fewer s t"
  by (simp add: fewer_def fun_eq_iff)

lemma fewer_trans: "fewer s t \<Longrightarrow> fewer t u \<Longrightarrow> fewer s u"
  unfolding fewer_def by (meson order_trans)

lemma fewer_keeps:
  assumes "fewer s t"
  shows "small_refs s \<Longrightarrow> small_refs t" "some_free s \<Longrightarrow> some_free t" "two_free s \<Longrightarrow> two_free t"
proof -
  have z: "b_refcnt (bufs s b) = 0 \<Longrightarrow> b_refcnt (bufs t b) = 0" for b
    using assms unfolding fewer_def by (metis word_le_0_iff)
  show "small_refs s \<Longrightarrow> small_refs t" using assms unfolding small_refs_def fewer_def by (meson order_le_less_trans)
  show "some_free s \<Longrightarrow> some_free t" using z by blast
  show "two_free s \<Longrightarrow> two_free t" unfolding two_free_def using z by blast
qed

lemma word_pred_le: "(r :: u32) \<noteq> 0 \<Longrightarrow> r - 1 \<le> r"
  by (simp add: word_le_nat_alt unat_minus_one)

lemma install_one_spec:
  fixes s :: "'z log_st_scheme"
  defines "l \<equiv> \<lambda>i. log_start s + of_nat i + 1"
  assumes s: "bst (log_dev s) X {} s" and x: "\<not> recovering \<Longrightarrow> lh_block s i \<in> X" and l: "l i \<notin> X" and ne: "lh_block s i \<noteq> l i"
    and free: "lh_block s i \<in> X \<and> some_free s \<or> two_free s" and small: "small_refs s"
  obtains t where "install_one recovering i s = Ok () t" "bst (log_dev s) (X - {lh_block s i}) {} t" "cache_only s t" "fewer s t"
    "bval t (log_dev s) = (bval s (log_dev s))(lh_block s i := bval s (log_dev s) (l i))"
    "disk t = (disk s)(lh_block s i := bval s (log_dev s) (l i))"
    "dwrites t = dwrites s @ [(lh_block s i, bval s (log_dev s) (l i))]"
proof -
  let ?D = "log_dev s" let ?x = "lh_block s i" let ?v = "bval s ?D (l i)"
  obtain a f s1 s2 where r1: "bread ?D (l i) s = Ok a s1" and r2: "bread ?D ?x s1 = Ok f s2" and b2: "bst ?D X {f, a} s2" and f: "f \<noteq> a"
    and n2': "b_blockno (bufs s2 a) = l i" and n2: "b_blockno (bufs s2 f) = ?x" and d2: "b_data (bufs s2 a) = ?v"
    and rc: "\<And>c. b_refcnt (bufs s2 c) = b_refcnt (bufs s c) + (if c = a \<or> c = f then 1 else 0)"
    and rf: "?x \<in> X \<Longrightarrow> b_refcnt (bufs s f) \<noteq> 0"
    and v2: "bval s2 ?D = bval s ?D" "disk s2 = disk s" "dwrites s2 = dwrites s" and c1: "cache_only s s1" and c2: "cache_only s s2"
    by (rule two_breads [OF s l ne free small]) blast
  obtain s3 where r3: "bufset f (\<lambda>y. y\<lparr>b_data := ?v\<rparr>) s2 = Ok () s3" and b3: "bst ?D (insert (b_blockno (bufs s2 f)) X) {f, a} s3"
    and B3: "bufs s3 = (bufs s2)(f := (bufs s2 f)\<lparr>b_data := ?v\<rparr>)"
    and v3: "bval s3 ?D = (bval s2 ?D)(b_blockno (bufs s2 f) := ?v)" "disk s3 = disk s2" "dwrites s3 = dwrites s2" and c3: "cache_only s2 s3"
    by (rule setdata_spec [OF b2, of f "\<lambda>_. ?v"]) auto
  have n3: "b_blockno (bufs s3 f) = ?x" "b_data (bufs s3 f) = ?v" using n2 B3 by auto
  obtain s4 where r4: "bwrite f s3 = Ok () s4" and b4: "bst ?D (insert ?x X - {?x}) {f, a} s4" and B4: "bufs s4 = bufs s3"
    and v4: "bval s4 ?D = bval s3 ?D" "disk s4 = (disk s3)(?x := ?v)" "dwrites s4 = dwrites s3 @ [(?x, ?v)]" and c4: "cache_only s3 s4"
    by (rule bwrite_spec [OF b3, of f]) (auto simp: n3 n2)
  have X4: "insert ?x X - {?x} = X - {?x}" by auto
  obtain s5 where r5: "whenM (\<not> recovering) (bunpin f) s4 = Ok () s5" and b5: "bst ?D (X - {?x}) {f, a} s5"
    and B5: "bufs s5 = (if recovering then bufs s4 else (bufs s4)(f := (bufs s4 f)\<lparr>b_refcnt := b_refcnt (bufs s4 f) - 1\<rparr>))"
    and v5: "bval s5 ?D = bval s4 ?D" "disk s5 = disk s4" "dwrites s5 = dwrites s4" and c5: "cache_only s4 s5"
  proof (cases recovering)
    case True
    then show ?thesis using b4 [unfolded X4] cache_only_refl [of s4] by (intro that [of s4]) (simp_all add: whenM_def)
  next
    case False
    have "b_refcnt (bufs s4 f) \<noteq> 1" using rf [OF x [OF False]] rc [of f] by (auto simp: B4 B3)
    then obtain u where "bunpin f s4 = Ok () u" "bst ?D (X - {?x}) {f, a} u"
      "bufs u = (bufs s4)(f := (bufs s4 f)\<lparr>b_refcnt := b_refcnt (bufs s4 f) - 1\<rparr>)"
      "bval u ?D = bval s4 ?D" "disk u = disk s4" "dwrites u = dwrites s4" "cache_only s4 u"
      by (rule bunpin_spec [OF b4 [unfolded X4], of f, rotated]) auto
    then show ?thesis using False by (intro that [of u]) (simp_all add: whenM_def)
  qed
  have n5: "b_blockno (bufs s5 a) = l i" "b_blockno (bufs s5 f) = ?x"
    "b_refcnt (bufs s5 c) = (if c = f \<and> \<not> recovering then b_refcnt (bufs s2 f) - 1 else b_refcnt (bufs s2 c))" for c
    using n2 n2' f by (cases recovering; auto simp: B5 B4 B3)+
  obtain s6 where r6: "brelse a s5 = Ok () s6" and b6: "bst ?D (X - {?x}) ({f, a} - {a}) s6" and B6: "bufs s6 = dropped a (bufs s5)"
    and v6: "bval s6 ?D = bval s5 ?D" "disk s6 = disk s5" "dwrites s6 = dwrites s5" and c6: "cache_only s5 s6"
    by (rule brelse_spec [OF b5, of a]) (use l n5 in auto)
  have L6: "{f, a} - {a} = {f}" using f by auto
  obtain s7 where r7: "brelse f s6 = Ok () s7" and b7: "bst ?D (X - {?x}) ({f} - {f}) s7" and B7: "bufs s7 = dropped f (bufs s6)"
    and v7: "bval s7 ?D = bval s6 ?D" "disk s7 = disk s6" "dwrites s7 = dwrites s6" and c7: "cache_only s6 s7"
    by (rule brelse_spec [OF b6 [unfolded L6], of f]) (use n5 in \<open>auto simp: B6\<close>)
  have c: "cache_only s s7" using c2 c3 c4 c5 c6 c7 cache_only_trans by metis
  have "install_one recovering i s = Ok () s7"
    using r1 r2 r3 r4 r5 r6 r7 cache_only_log [OF c1]
    by (simp add: install_one_def bind_apply bufget_def d2 l_def)
  moreover have "fewer s s7"
    unfolding fewer_def
  proof
    fix c
    show "b_refcnt (bufs s7 c) \<le> b_refcnt (bufs s c)"
      using f x rf word_pred_le [of "b_refcnt (bufs s f)"] by (cases recovering) (auto simp: B7 B6 n5 rc)
  qed
  ultimately show ?thesis using b7 c v2 v3 v4 v5 v6 v7 n2 by (intro that [of s7]) simp_all
qed

section \<open>The header\<close>

lemma head_loop:
  "forM [0..<k] (\<lambda>i. bind (gets (\<lambda>s. lh_block s i)) (\<lambda>v. bufset b (\<lambda>x. x\<lparr>b_data := put32 (b_data x) (4 + 4 * i) v\<rparr>))) s =
   Ok () (s\<lparr>bufs := (bufs s)(b := (bufs s b)\<lparr>b_data := fold (\<lambda>i e. put32 e (4 + 4 * i) (lh_block s i)) [0..<k] (b_data (bufs s b))\<rparr>)\<rparr>)"
proof (induction k)
  case 0
  then show ?case by simp
next
  case (Suc k)
  then show ?case by (simp add: forM_append bind_apply bufset_def fun_upd_def cong: if_cong)
qed

lemma write_head_spec:
  fixes s :: "'z log_st_scheme"
  assumes s: "bst (log_dev s) X {} s" and x: "log_start s \<notin> X" and free: "some_free s" and small: "small_refs s"
  defines "v \<equiv> head_bytes (lh_n s) (lh_block s) (bval s (log_dev s) (log_start s))"
  obtains t where "write_head s = Ok () t" "bst (log_dev s) X {} t" "cache_only s t" "refs t = refs s"
    "bval t (log_dev s) = (bval s (log_dev s))(log_start s := v)" "disk t = (disk s)(log_start s := v)"
    "dwrites t = dwrites s @ [(log_start s, v)]"
proof -
  let ?D = "log_dev s" let ?l = "log_start s"
  obtain a s1 where r1: "bread ?D ?l s = Ok a s1" and b1: "bst ?D X {a} s1" and a: "a < NBUF"
    and n1: "b_blockno (bufs s1 a) = ?l" "b_refcnt (bufs s1 a) = b_refcnt (bufs s a) + 1"
    and o1: "\<And>c. c \<noteq> a \<Longrightarrow> bufs s1 c = bufs s c"
    and v1: "bval s1 ?D = bval s ?D" "disk s1 = disk s" "dwrites s1 = dwrites s" and c1: "cache_only s s1"
    by (rule bread_spec [OF s, of ?l]) (use free small_refsD [OF small] in auto)
  have d1: "head_bytes (lh_n s) (lh_block s) (b_data (bufs s1 a)) = v"
    using bst_val [OF b1, of a] n1 v1 by (simp add: v_def)
  obtain s2 where r2: "bufset a (\<lambda>x. x\<lparr>b_data := head_bytes (lh_n s) (lh_block s) (b_data x)\<rparr>) s1 = Ok () s2"
    and b2: "bst ?D (insert ?l X) {a} s2" and B2: "bufs s2 = (bufs s1)(a := (bufs s1 a)\<lparr>b_data := v\<rparr>)"
    and v2: "bval s2 ?D = (bval s1 ?D)(?l := v)" "disk s2 = disk s1" "dwrites s2 = dwrites s1" and c2: "cache_only s1 s2"
    by (rule setdata_spec [OF b1, of a "\<lambda>x. head_bytes (lh_n s) (lh_block s) (b_data x)"]) (auto simp: n1 d1)
  have n2: "b_blockno (bufs s2 a) = ?l" "b_data (bufs s2 a) = v" using n1 B2 by simp_all
  obtain s3 where r3: "bwrite a s2 = Ok () s3" and b3: "bst ?D (insert ?l X - {?l}) {a} s3" and B3: "bufs s3 = bufs s2"
    and v3: "bval s3 ?D = bval s2 ?D" "disk s3 = (disk s2)(?l := v)" "dwrites s3 = dwrites s2 @ [(?l, v)]" and c3: "cache_only s2 s3"
    by (rule bwrite_spec [OF b2, of a]) (auto simp: n2)
  have X3: "insert ?l X - {?l} = X" using x by simp
  obtain s4 where r4: "brelse a s3 = Ok () s4" and b4: "bst ?D X ({a} - {a}) s4" and B4: "bufs s4 = dropped a (bufs s3)"
    and v4: "bval s4 ?D = bval s3 ?D" "disk s4 = disk s3" "dwrites s4 = dwrites s3" and c4: "cache_only s3 s4"
    by (rule brelse_spec [OF b3 [unfolded X3], of a]) (use n2 x in \<open>auto simp: B3\<close>)
  have c: "cache_only s s4" using c1 c2 c3 c4 cache_only_trans by metis
  have u: "s2 = s1\<lparr>bufs := (bufs s1)(a := (bufs s1 a)\<lparr>b_data := v\<rparr>)\<rparr>"
    using r2 by (simp add: bufset_def d1)
  have "write_head s = Ok () s4"
    using r1 r3 r4 cache_only_log [OF c1] d1
    by (simp add: write_head_def bind_apply bufset_def [of a "\<lambda>x. x\<lparr>b_data := put32 (b_data x) 0 (word_of_int (lh_n s))\<rparr>"]
      head_loop u [symmetric] head_bytes_def)
  moreover have "refs s4 = refs s"
  proof
    fix c show "refs s4 c = refs s c" using n1 o1 [of c] by (auto simp: B4 B3 B2)
  qed
  ultimately show ?thesis using b4 c v1 v2 v3 v4 by (intro that [of s4]) simp_all
qed

text \<open>Changes of the in-memory header do not concern the cache.\<close>

lemma bst_lh [simp]:
  "bst D X L (s\<lparr>lh_n := n\<rparr>) = bst D X L s" "bst D X L (s\<lparr>lh_block := h\<rparr>) = bst D X L s"
  "bval (s\<lparr>lh_n := n\<rparr>) = bval s" "bval (s\<lparr>lh_block := h\<rparr>) = bval s"
  by (simp_all add: bst_def binv_def ready_def calm_def sie_def unlocked_def me_def mypid_def bval_def fun_eq_iff split: option.split)

lemma read_loop:
  "forM [0..<k] (\<lambda>i. modify (\<lambda>s. s\<lparr>lh_block := (lh_block s)(i := f i)\<rparr>)) s =
   Ok () (s\<lparr>lh_block := (\<lambda>i. if i < k then f i else lh_block s i)\<rparr>)"
proof (induction k)
  case 0
  then show ?case by simp
next
  case (Suc k)
  have "(\<lambda>a. if a = k then f k else if a < k then f a else lh_block s a) = (\<lambda>i. if i < Suc k then f i else lh_block s i)"
    by (auto simp: fun_eq_iff)
  then show ?case using Suc by (simp add: forM_append bind_apply fun_upd_def cong: if_cong)
qed

lemma read_head_spec:
  fixes s :: "'z log_st_scheme"
  assumes s: "bst (log_dev s) {} {} s" and free: "some_free s" and small: "small_refs s"
  obtains t where "read_head s = Ok () t" "bst (log_dev s) {} {} t" "refs t = refs s" "disk t = disk s" "dwrites t = dwrites s"
    "log_dev t = log_dev s" "log_start t = log_start s" "lh_n t = sint (get32 (disk s (log_start s)) 0)"
    "\<And>i. i < nat (lh_n t) \<Longrightarrow> lh_block t i = get32 (disk s (log_start s)) (4 + 4 * i)"
proof -
  let ?D = "log_dev s" let ?l = "log_start s"
  obtain a s1 where r1: "bread ?D ?l s = Ok a s1" and b1: "bst ?D {} {a} s1" and a: "a < NBUF"
    and n1: "b_blockno (bufs s1 a) = ?l" "b_refcnt (bufs s1 a) = b_refcnt (bufs s a) + 1"
    and o1: "\<And>c. c \<noteq> a \<Longrightarrow> bufs s1 c = bufs s c"
    and v1: "bval s1 ?D = bval s ?D" "disk s1 = disk s" "dwrites s1 = dwrites s" and c1: "cache_only s s1"
    by (rule bread_spec [OF s, of ?l]) (use free small_refsD [OF small] in auto)
  have d1: "b_data (bufs s1 a) = disk s ?l"
    using bst_val [OF b1, of a] n1 bval_clean [OF bstD(2) [OF b1]] v1 by simp
  let ?n = "sint (get32 (disk s ?l) 0)"
  let ?h = "\<lambda>i. if i < nat ?n then get32 (disk s ?l) (4 + 4 * i) else lh_block s1 i"
  let ?u = "s1\<lparr>lh_n := ?n, lh_block := ?h\<rparr>"
  have bu: "bst ?D {} {a} ?u" using b1 by simp
  obtain t where r2: "brelse a ?u = Ok () t" and b2: "bst ?D {} ({a} - {a}) t" and B2: "bufs t = dropped a (bufs ?u)"
    and v2: "disk t = disk ?u" "dwrites t = dwrites ?u" and c2: "cache_only ?u t"
    by (rule brelse_spec [OF bu, of a]) auto
  have "read_head s = Ok () t"
    using r1 r2 by (simp add: read_head_def bind_apply bufget_def d1 read_loop cache_only_log [OF c1] cong: if_cong)
  moreover have "refs t = refs s"
  proof
    fix c show "refs t c = refs s c" using n1 o1 [of c] by (auto simp: B2)
  qed
  ultimately show ?thesis
    using b2 v1 v2 cache_only_log [OF c1] cache_only_log [OF c2] by (intro that [of t]) simp_all
qed

end
