(* ===== verification/Crash.thy ===== *)
theory Crash
  imports LogSteps
begin

text \<open>
  Crash recovery.  A disk is a function from block numbers to blocks; \<open>apply_ws d ws\<close> is the disk after the
  writes \<open>ws\<close>.  The writes of \<^verbatim>\<open>commit\<close> are known in closed form, so a crash is a prefix of them, and
  the replay done by \<^verbatim>\<open>recover_from_log\<close> at the next boot is a function of the disk alone.
\<close>

unbundle bit_operations_syntax

type_synonym dimage = "u32 \<Rightarrow> u8 list"

definition apply_ws :: "dimage \<Rightarrow> (u32 \<times> u8 list) list \<Rightarrow> dimage" where
  "apply_ws d ws = foldl (\<lambda>d w. d(fst w := snd w)) d ws"

definition log_area :: "u32 \<Rightarrow> u32 set" where
  "log_area st = (\<lambda>i. st + of_nat i) ` {0..<LOGSIZE}"

definition log_ws :: "u32 \<Rightarrow> dimage \<Rightarrow> nat \<Rightarrow> (nat \<Rightarrow> u32) \<Rightarrow> (u32 \<times> u8 list) list" where
  "log_ws st V n h = map (\<lambda>i. (st + of_nat i + 1, V (h i))) [0..<n]"

definition home_ws :: "u32 \<Rightarrow> dimage \<Rightarrow> nat \<Rightarrow> (nat \<Rightarrow> u32) \<Rightarrow> (u32 \<times> u8 list) list" where
  "home_ws st V n h = map (\<lambda>i. (h i, V (st + of_nat i + 1))) [0..<n]"

text \<open>The log has \<open>LOGSIZE\<close> blocks: the header and at most \<open>LOGSIZE - 1\<close> logged blocks.  The header on a disk, and the disk after replaying its log.\<close>

definition hdr_n :: "u32 \<Rightarrow> dimage \<Rightarrow> nat" where
  "hdr_n st d = nat (sint (get32 (d st) 0))"

definition hdr_blk :: "u32 \<Rightarrow> dimage \<Rightarrow> nat \<Rightarrow> u32" where
  "hdr_blk st d i = get32 (d st) (4 + 4 * i)"

definition replay :: "u32 \<Rightarrow> dimage \<Rightarrow> dimage" where
  "replay st d = apply_ws d (home_ws st d (hdr_n st d) (hdr_blk st d))"

definition valid_log :: "u32 \<Rightarrow> dimage \<Rightarrow> bool" where
  "valid_log st d = (length (d st) = BSIZE \<and> hdr_n st d < LOGSIZE \<and> (\<forall>i<hdr_n st d. hdr_blk st d i \<notin> log_area st))"

lemma apply_ws_simps [simp]:
  "apply_ws d [] = d" "apply_ws d (w # ws) = apply_ws (d(fst w := snd w)) ws"
  "apply_ws d (xs @ ys) = apply_ws (apply_ws d xs) ys"
  by (simp_all add: apply_ws_def)

lemma apply_ws_other: "x \<notin> fst ` set ws \<Longrightarrow> apply_ws d ws x = d x"
  by (induction ws arbitrary: d) auto

lemma apply_ws_cong: "(\<And>x. x \<notin> fst ` set ws \<Longrightarrow> d x = e x) \<Longrightarrow> apply_ws d ws = apply_ws e ws"
proof (induction ws arbitrary: d e)
  case Nil
  then show ?case by (simp add: fun_eq_iff)
next
  case (Cons w ws)
  have "apply_ws (d(fst w := snd w)) ws = apply_ws (e(fst w := snd w)) ws"
    by (rule Cons.IH) (use Cons.prems in auto)
  then show ?case by simp
qed

lemma apply_ws_absorb: "fst ` set vs \<subseteq> fst ` set ws \<Longrightarrow> apply_ws (apply_ws d vs) ws = apply_ws d ws"
  by (rule apply_ws_cong) (auto intro: apply_ws_other)

lemma apply_ws_map: "apply_ws d (map (\<lambda>i. (h i, V (h i))) is) x = (if x \<in> h ` set is then V x else d x)"
  by (induction "is" arbitrary: d) auto

lemma of_nat_u32_inj: "i < 100 \<Longrightarrow> j < 100 \<Longrightarrow> (of_nat i = (of_nat j :: u32)) = (i = j)"
  by (simp add: word_of_nat_eq_iff take_bit_nat_eq_self)

lemma log_blocks:
  assumes "Suc i < LOGSIZE"
  shows "st + of_nat i + 1 \<in> log_area st" "st + of_nat i + 1 \<noteq> st" "st \<in> log_area st"
proof -
  have "st + of_nat (Suc i) \<in> log_area st" unfolding log_area_def by (rule imageI) (use assms in simp)
  then show "st + of_nat i + 1 \<in> log_area st" by (simp add: algebra_simps)
  have "st + of_nat 0 \<in> log_area st" unfolding log_area_def by (rule imageI) simp
  then show "st \<in> log_area st" by simp
  have "of_nat (Suc i) \<noteq> (of_nat 0 :: u32)" using assms of_nat_u32_inj [of "Suc i" 0] by simp
  then show "st + of_nat i + 1 \<noteq> st" by (simp add: algebra_simps)
qed

lemma log_block_inj: "i < LOGSIZE \<Longrightarrow> j < LOGSIZE \<Longrightarrow> (st + of_nat i + 1 = st + of_nat j + (1 :: u32)) = (i = j)"
  using of_nat_u32_inj [of i j] by simp

lemma home_ws_Suc: "home_ws st V (Suc n) h = home_ws st V n h @ [(h n, V (st + of_nat n + 1))]"
  by (simp add: home_ws_def)

lemma log_ws_Suc: "log_ws st V (Suc n) h = log_ws st V n h @ [(st + of_nat n + 1, V (h n))]"
  by (simp add: log_ws_def)

lemma fst_log_ws: "n < LOGSIZE \<Longrightarrow> fst ` set (log_ws st V n h) \<subseteq> log_area st - {st}"
  using log_blocks by (auto simp: log_ws_def)

lemma fst_home_ws: "fst ` set (home_ws st V n h) = h ` {0..<n}"
  by (simp add: home_ws_def image_image)

section \<open>The loops\<close>

lemma write_log_spec:
  fixes s :: "'z log_st_scheme"
  assumes s: "bst (log_dev s) X {} s" and n: "n < LOGSIZE" and x: "\<And>i. i < n \<Longrightarrow> lh_block s i \<in> X"
    and X: "X \<inter> log_area (log_start s) = {}" and free: "some_free s" and small: "small_refs s"
  shows "\<exists>t. forM [0..<n] write_log_one s = Ok () t \<and> bst (log_dev s) X {} t \<and> cache_only s t \<and> refs t = refs s \<and>
    bval t (log_dev s) = apply_ws (bval s (log_dev s)) (log_ws (log_start s) (bval s (log_dev s)) n (lh_block s)) \<and>
    disk t = apply_ws (disk s) (log_ws (log_start s) (bval s (log_dev s)) n (lh_block s)) \<and>
    dwrites t = dwrites s @ log_ws (log_start s) (bval s (log_dev s)) n (lh_block s)"
  using n x
proof (induction n)
  case 0
  then show ?case using s cache_only_refl [of s] by (simp add: log_ws_def)
next
  case (Suc n)
  let ?D = "log_dev s" let ?st = "log_start s" let ?V = "bval s ?D" let ?h = "lh_block s"
  let ?ws = "log_ws ?st ?V n ?h"
  obtain u where r: "forM [0..<n] write_log_one s = Ok () u" and b: "bst ?D X {} u" and c: "cache_only s u" and f: "refs u = refs s"
    and v: "bval u ?D = apply_ws ?V ?ws" "disk u = apply_ws (disk s) ?ws" "dwrites u = dwrites s @ ?ws"
    using Suc by auto
  note cl = cache_only_log [OF c]
  have hn: "?h n \<in> X" "Suc n < LOGSIZE" using Suc.prems by auto
  have ln: "?st + of_nat n + 1 \<notin> X" using log_blocks(1) [OF hn(2)] X by auto
  have "?h n \<notin> log_area ?st" using hn X by auto
  then have vn: "bval u ?D (?h n) = ?V (?h n)" using fst_log_ws [of n ?st ?V ?h] hn(2) by (auto simp: v intro!: apply_ws_other)
  have sm: "small_refs u" "some_free u" using small free fun_cong [OF f] by (auto simp: small_refs_def)
  obtain t where "write_log_one n u = Ok () t" "bst ?D X {} t" "cache_only u t" "refs t = refs u"
    "bval t ?D = (bval u ?D)(?st + of_nat n + 1 := ?V (?h n))" "disk t = (disk u)(?st + of_nat n + 1 := ?V (?h n))"
    "dwrites t = dwrites u @ [(?st + of_nat n + 1, ?V (?h n))]"
    by (rule write_log_one_spec [of u X n, unfolded cl vn]) (use b hn ln sm in auto)
  then show ?case using r c f v cache_only_trans [of s u t] by (simp add: forM_append bind_apply log_ws_Suc fun_upd_def)
qed

lemma install_spec:
  fixes s :: "'z log_st_scheme"
  assumes s: "bst (log_dev s) X {} s" and n: "n < LOGSIZE" and h: "\<And>i. i < n \<Longrightarrow> lh_block s i \<notin> log_area (log_start s)"
    and free: "recovering \<and> two_free s \<or> (\<forall>i<n. lh_block s i \<in> X) \<and> inj_on (lh_block s) {0..<n} \<and> some_free s"
    and X: "X \<inter> log_area (log_start s) = {}" and small: "small_refs s"
  shows "\<exists>t. forM [0..<n] (install_one recovering) s = Ok () t \<and> bst (log_dev s) (X - lh_block s ` {0..<n}) {} t \<and> cache_only s t \<and> fewer s t \<and>
    bval t (log_dev s) = apply_ws (bval s (log_dev s)) (home_ws (log_start s) (bval s (log_dev s)) n (lh_block s)) \<and>
    disk t = apply_ws (disk s) (home_ws (log_start s) (bval s (log_dev s)) n (lh_block s)) \<and>
    dwrites t = dwrites s @ home_ws (log_start s) (bval s (log_dev s)) n (lh_block s)"
  using n h free
proof (induction n)
  case 0
  then show ?case using s cache_only_refl [of s] by (simp add: home_ws_def fewer_def)
next
  case (Suc n)
  let ?D = "log_dev s" let ?st = "log_start s" let ?V = "bval s ?D" let ?h = "lh_block s"
  let ?ws = "home_ws ?st ?V n ?h"
  let ?X = "X - ?h ` {0..<n}"
  have fr: "recovering \<and> two_free s \<or> (\<forall>i<n. ?h i \<in> X) \<and> inj_on ?h {0..<n} \<and> some_free s"
    using Suc.prems(3) by (auto simp: inj_on_def)
  obtain u where r: "forM [0..<n] (install_one recovering) s = Ok () u" and b: "bst ?D ?X {} u" and c: "cache_only s u" and f: "fewer s u"
    and v: "bval u ?D = apply_ws ?V ?ws" "disk u = apply_ws (disk s) ?ws" "dwrites u = dwrites s @ ?ws"
    using Suc.IH [OF _ _ fr] Suc.prems(1,2) by auto
  note cl = cache_only_log [OF c]
  have hn: "Suc n < LOGSIZE" "?h n \<notin> log_area ?st" using Suc.prems(1,2) by auto
  note lb = log_blocks [OF hn(1), of ?st]
  have ln: "?st + of_nat n + 1 \<notin> ?X" "?h n \<noteq> ?st + of_nat n + 1" using lb X hn by auto
  have "?st + of_nat n + 1 \<notin> fst ` set ?ws" using Suc.prems(2) lb by (auto simp: fst_home_ws)
  then have vn: "bval u ?D (?st + of_nat n + 1) = ?V (?st + of_nat n + 1)" by (simp add: v apply_ws_other)
  have sm: "small_refs u" using small fewer_keeps(1) [OF f] by simp
  have m: "?h n \<in> ?X" if "\<not> (recovering \<and> two_free s)"
  proof -
    have i: "inj_on ?h {0..<Suc n}" "?h n \<in> X" using Suc.prems(3) that by auto
    have "?h n \<noteq> ?h j" if "j < n" for j using inj_onD [OF i(1), of n j] that by auto
    then have "?h n \<notin> ?h ` {0..<n}" by (metis atLeastLessThan_iff image_iff)
    then show ?thesis using i(2) by blast
  qed
  have fu: "?h n \<in> ?X \<and> some_free u \<or> two_free u"
  proof (cases "recovering \<and> two_free s")
    case True
    then show ?thesis using fewer_keeps(3) [OF f] by simp
  next
    case False
    then show ?thesis using m fewer_keeps(2) [OF f] Suc.prems(3) by blast
  qed
  obtain t where "install_one recovering n u = Ok () t" "bst ?D (?X - {?h n}) {} t" "cache_only u t" "fewer u t"
    "bval t ?D = (bval u ?D)(?h n := ?V (?st + of_nat n + 1))" "disk t = (disk u)(?h n := ?V (?st + of_nat n + 1))"
    "dwrites t = dwrites u @ [(?h n, ?V (?st + of_nat n + 1))]"
    by (rule install_one_spec [of u ?X recovering n, unfolded cl vn]) (use b ln sm m fu in auto)
  moreover have "?X - {?h n} = X - ?h ` {0..<Suc n}" by (auto simp: less_Suc_eq)
  ultimately show ?case
    using r c f v cache_only_trans [of s u t] fewer_trans [of s u t] by (simp add: forM_append bind_apply home_ws_Suc fun_upd_def)
qed

section \<open>commit\<close>

definition commit_ws :: "u32 \<Rightarrow> dimage \<Rightarrow> nat \<Rightarrow> (nat \<Rightarrow> u32) \<Rightarrow> (u32 \<times> u8 list) list" where
  "commit_ws st V n h =
     log_ws st V n h @ [(st, head_bytes (int n) h (V st))] @ map (\<lambda>i. (h i, V (h i))) [0..<n] @
     [(st, head_bytes 0 h (head_bytes (int n) h (V st)))]"

text \<open>
  What \<^verbatim>\<open>end_op\<close> meets when it calls \<^verbatim>\<open>commit\<close>: the blocks of the transaction are the dirty blocks, they lie outside the
  log, there are at most \<open>LOGSIZE - 1\<close> of them, one buffer is not in use, and the header on the disk is empty.
\<close>

definition commit_pre :: "'z log_st_scheme \<Rightarrow> bool" where
  "commit_pre s =
     (0 < lh_n s \<and> lh_n s < int LOGSIZE \<and> bst (log_dev s) (lh_block s ` {0..<nat (lh_n s)}) {} s \<and>
      inj_on (lh_block s) {0..<nat (lh_n s)} \<and> (\<forall>i<nat (lh_n s). lh_block s i \<notin> log_area (log_start s)) \<and>
      some_free s \<and> small_refs s \<and> length (disk s (log_start s)) = BSIZE \<and> get32 (disk s (log_start s)) 0 = 0)"

lemma log_values:
  assumes "n < LOGSIZE" "i < n"
  shows "apply_ws d (log_ws st V n h) (st + of_nat i + 1) = V (h i)"
  using assms
proof (induction n)
  case 0
  then show ?case by simp
next
  case (Suc n)
  have e: "apply_ws d (log_ws st V (Suc n) h) = (apply_ws d (log_ws st V n h))(st + of_nat n + 1 := V (h n))"
    by (simp add: log_ws_Suc fun_upd_def)
  show ?case
  proof (cases "i = n")
    case True
    then show ?thesis by (simp add: e)
  next
    case False
    then show ?thesis using Suc log_block_inj [of i n st] by (simp add: e)
  qed
qed

lemma commit_spec:
  fixes s :: "'z log_st_scheme"
  assumes pre: "commit_pre s"
  defines "W \<equiv> commit_ws (log_start s) (bval s (log_dev s)) (nat (lh_n s)) (lh_block s)"
  shows "\<exists>t. commit s = Ok () t \<and> bst (log_dev s) {} {} t \<and> lh_n t = 0 \<and> log_outstanding t = log_outstanding s \<and>
    disk t = apply_ws (disk s) W \<and> dwrites t = dwrites s @ W"
proof -
  let ?D = "log_dev s" let ?st = "log_start s" let ?V = "bval s ?D" let ?h = "lh_block s" let ?n = "nat (lh_n s)"
  let ?X = "?h ` {0..<?n}" let ?lw = "log_ws ?st ?V ?n ?h"
  have p: "0 < lh_n s" "lh_n s < int LOGSIZE" "bst ?D ?X {} s" "inj_on ?h {0..<?n}" "\<forall>i<?n. ?h i \<notin> log_area ?st" "some_free s" "small_refs s"
    using pre unfolding commit_pre_def by auto
  have n: "?n < LOGSIZE" using p by simp
  have X: "?X \<inter> log_area ?st = {}" using p(5) by auto
  have st: "?st \<in> log_area ?st" using log_blocks(3) [of 0] by simp
  have stX: "?st \<notin> ?X" using X st by blast
  obtain s1 where r1: "forM [0..<?n] write_log_one s = Ok () s1" and b1: "bst ?D ?X {} s1" and c1: "cache_only s s1" and f1: "refs s1 = refs s"
    and v1: "bval s1 ?D = apply_ws ?V ?lw" "disk s1 = apply_ws (disk s) ?lw" "dwrites s1 = dwrites s @ ?lw"
    using write_log_spec [OF p(3) n _ X p(6,7)] by auto
  note k1 = cache_only_log [OF c1]
  have g1: "some_free s1" "small_refs s1" using p(6,7) fun_cong [OF f1] by (auto simp: small_refs_def)
  have vst: "bval s1 ?D ?st = ?V ?st"
    using fst_log_ws [OF n, of ?st ?V ?h] by (auto simp: v1 intro!: apply_ws_other)
  let ?hb = "head_bytes (lh_n s) ?h (?V ?st)"
  obtain s2 where r2: "write_head s1 = Ok () s2" and b2: "bst ?D ?X {} s2" and c2: "cache_only s1 s2" and f2: "refs s2 = refs s1"
    and v2: "bval s2 ?D = (bval s1 ?D)(?st := ?hb)" "disk s2 = (disk s1)(?st := ?hb)" "dwrites s2 = dwrites s1 @ [(?st, ?hb)]"
    by (rule write_head_spec [of s1 ?X, unfolded k1 vst]) (use b1 stX g1 in auto)
  note k2 = cache_only_log [OF c2, unfolded k1]
  have g2: "some_free s2" "small_refs s2" using g1 fun_cong [OF f2] by (auto simp: small_refs_def)
  have hw: "home_ws ?st (bval s2 ?D) ?n ?h = map (\<lambda>i. (?h i, ?V (?h i))) [0..<?n]"
  proof -
    have "bval s2 ?D (?st + of_nat i + 1) = ?V (?h i)" if "i < ?n" for i
      using that n log_values [OF n that] log_blocks(2) [of i ?st] by (simp add: v1 v2)
    then show ?thesis by (simp add: home_ws_def)
  qed
  let ?hw = "map (\<lambda>i. (?h i, ?V (?h i))) [0..<?n]"
  obtain s3 where r3: "forM [0..<?n] (install_one False) s2 = Ok () s3" and b3: "bst ?D (?X - ?X) {} s3" and c3: "cache_only s2 s3" and f3: "fewer s2 s3"
    and v3: "bval s3 ?D = apply_ws (bval s2 ?D) ?hw" "disk s3 = apply_ws (disk s2) ?hw" "dwrites s3 = dwrites s2 @ ?hw"
    using install_spec [of s2 ?X ?n False, unfolded k2 hw, OF b2 n] p X g2 by auto
  note k3 = cache_only_log [OF c3, unfolded k2]
  have g3: "some_free s3" "small_refs s3" using g2 fewer_keeps [OF f3] by blast+
  have v3st: "bval s3 ?D ?st = ?hb" using stX by (simp add: v3 v2 apply_ws_map [of _ _ ?V])
  let ?u = "s3\<lparr>lh_n := 0\<rparr>"
  let ?hb0 = "head_bytes 0 ?h ?hb"
  obtain t where r4: "write_head ?u = Ok () t" and b4: "bst ?D {} {} t" and c4: "cache_only ?u t"
    and v4: "disk t = (disk ?u)(?st := ?hb0)" "dwrites t = dwrites ?u @ [(?st, ?hb0)]"
    by (rule write_head_spec [of ?u "{}"]) (use b3 g3 in \<open>auto simp: k3 v3st small_refs_def\<close>)
  have "commit s = Ok () t"
    using r1 r2 r3 r4 p(1) by (simp add: commit_def whenM_def write_log_def install_trans_def bind_apply k2)
  moreover have "lh_n t = 0" "log_outstanding t = log_outstanding s" using cache_only_log [OF c4] k3 by simp_all
  ultimately show ?thesis using b4 v1 v2 v3 v4 p(1) by (simp add: W_def commit_ws_def fun_upd_def)
qed

end
