(* ===== verification/Recovery.thy ===== *)
theory Recovery
  imports Crash
begin

text \<open>
  The log makes a transaction atomic: whatever prefix of the writes of \<^verbatim>\<open>commit\<close> has reached the disk, the
  recovery at the next boot leaves the blocks outside the log either as before the transaction or as after
  it, and a crash during the recovery changes nothing.
\<close>

unbundle bit_operations_syntax

text \<open>A machine that has just booted on disk \<open>d\<close>: nothing is dirty or locked, two buffers are not in use.\<close>

definition booted :: "u32 \<Rightarrow> u32 \<Rightarrow> dimage \<Rightarrow> 'z log_st_scheme \<Rightarrow> bool" where
  "booted D st d r =
     (bst D {} {} r \<and> two_free r \<and> small_refs r \<and> disk r = d \<and> log_dev r = D \<and> log_start r = st)"

definition recover_ws :: "u32 \<Rightarrow> dimage \<Rightarrow> (nat \<Rightarrow> u32) \<Rightarrow> (u32 \<times> u8 list) list" where
  "recover_ws st d h = home_ws st d (hdr_n st d) (hdr_blk st d) @ [(st, head_bytes 0 h (d st))]"

lemma home_ws_cong: "(\<And>i. i < n \<Longrightarrow> h i = g i) \<Longrightarrow> home_ws st V n h = home_ws st V n g"
  by (simp add: home_ws_def)

lemma recover_spec:
  fixes r :: "'z log_st_scheme"
  assumes b: "booted D st d r" and v: "valid_log st d"
  shows "\<exists>u h. recover_from_log r = Ok () u \<and> bst D {} {} u \<and> disk u = apply_ws d (recover_ws st d h) \<and>
    dwrites u = dwrites r @ recover_ws st d h"
proof -
  have p: "bst D {} {} r" "two_free r" "small_refs r" "disk r = d" "log_dev r = D" "log_start r = st"
    using b by (auto simp: booted_def)
  have fr: "some_free r" using p(2) by (auto simp: two_free_def)
  obtain s1 where r1: "read_head r = Ok () s1" and b1: "bst D {} {} s1" and f1: "refs s1 = refs r"
    and d1: "disk s1 = d" "dwrites s1 = dwrites r" "log_dev s1 = D" "log_start s1 = st"
    and n1: "lh_n s1 = sint (get32 (d st) 0)" "\<And>i. i < nat (lh_n s1) \<Longrightarrow> lh_block s1 i = get32 (d st) (4 + 4 * i)"
    by (rule read_head_spec [of r, unfolded p(4,5,6)]) (use p(1,3) fr in auto)
  let ?n = "nat (lh_n s1)"
  have n: "?n = hdr_n st d" "\<And>i. i < ?n \<Longrightarrow> lh_block s1 i = hdr_blk st d i"
    using n1 by (simp_all add: hdr_n_def hdr_blk_def)
  have g1: "two_free s1" "small_refs s1"
    using p(2,3) fun_cong [OF f1] by (auto simp: small_refs_def two_free_def)
  have V: "bval s1 D = d" using bval_clean [OF bstD(2) [OF b1]] d1 by (auto simp: fun_eq_iff)
  let ?ws = "home_ws st d ?n (lh_block s1)"
  have nl: "?n < LOGSIZE" using v unfolding n(1) valid_log_def by blast
  have ho: "lh_block s1 i \<notin> log_area st" if "i < ?n" for i
    using v n(2) [OF that] that unfolding n(1) valid_log_def by simp
  obtain s2 where r2: "forM [0..<?n] (install_one True) s1 = Ok () s2" and b2: "bst D ({} - lh_block s1 ` {0..<?n}) {} s2"
    and c2: "cache_only s1 s2" and f2: "fewer s1 s2"
    and v2: "bval s2 D = apply_ws d ?ws" "disk s2 = apply_ws d ?ws" "dwrites s2 = dwrites r @ ?ws"
    using install_spec [of s1 "{}" ?n True, unfolded d1 V, OF b1 nl] ho g1 by auto
  note k2 = cache_only_log [OF c2, unfolded d1]
  have g2: "some_free s2" "small_refs s2" using g1 fewer_keeps [OF f2] by (auto simp: two_free_def)
  have st: "st \<in> log_area st" using log_blocks(3) [of 0] by simp
  have "st \<notin> fst ` set ?ws" using ho st by (auto simp: fst_home_ws)
  then have v2st: "bval s2 D st = d st" by (simp add: v2 apply_ws_other)
  let ?u = "s2\<lparr>lh_n := 0\<rparr>"
  let ?hb = "head_bytes 0 (lh_block s1) (d st)"
  obtain t where r3: "write_head ?u = Ok () t" and b3: "bst D {} {} t"
    and v3: "disk t = (disk ?u)(st := ?hb)" "dwrites t = dwrites ?u @ [(st, ?hb)]"
    by (rule write_head_spec [of ?u "{}"]) (use b2 g2 in \<open>auto simp: k2 v2st small_refs_def\<close>)
  have "recover_from_log r = Ok () t"
    using r1 r2 r3 by (simp add: recover_from_log_def install_trans_def bind_apply)
  moreover have e: "recover_ws st d (lh_block s1) = ?ws @ [(st, ?hb)]"
    using home_ws_cong [of ?n "lh_block s1" "hdr_blk st d" st d] n by (simp add: recover_ws_def)
  moreover have "disk t = apply_ws d (recover_ws st d (lh_block s1))" "dwrites t = dwrites r @ recover_ws st d (lh_block s1)"
    unfolding e by (simp_all add: v2 v3 fun_upd_def)
  ultimately show ?thesis using b3 by blast
qed

text \<open>The result outside the log is the replay.\<close>

lemma recovered_replay:
  assumes "valid_log st d" "x \<notin> log_area st"
  shows "apply_ws d (recover_ws st d h) x = replay st d x"
proof -
  have "x \<noteq> st" using assms(2) log_blocks(3) [of 0 st] by auto
  then show ?thesis by (simp add: recover_ws_def replay_def)
qed

section \<open>A crash in the middle of commit\<close>

lemma replay_empty: "get32 (d st) 0 = 0 \<Longrightarrow> replay st d = d"
  by (simp add: replay_def hdr_n_def home_ws_def)

lemma valid_empty: "length (d st) = BSIZE \<Longrightarrow> get32 (d st) 0 = 0 \<Longrightarrow> valid_log st d"
  by (simp add: valid_log_def hdr_n_def)

lemma take_commit_ws:
  assumes "length (log_ws st V n h) = n"
  shows "take k (commit_ws st V n h) =
    (if k \<le> n then take k (log_ws st V n h)
     else log_ws st V n h @ [(st, head_bytes (int n) h (V st))] @
       take (k - n - 1) (map (\<lambda>i. (h i, V (h i))) [0..<n]) @
       (if k \<le> 2 * n + 1 then [] else [(st, head_bytes 0 h (head_bytes (int n) h (V st)))]))"
  using assms by (auto simp: commit_ws_def not_le take_Cons')

lemma head_zero:
  assumes "length d = BSIZE"
  shows "get32 (head_bytes 0 h d) 0 = 0" "length (head_bytes 0 h d) = BSIZE"
  using assms by (simp_all add: head_bytes_def get32_put32_same)

text \<open>Once the header is on the disk, the replay gives the new contents, however many home blocks have been written.\<close>

lemma replay_committed:
  assumes n: "n < LOGSIZE" and len: "length (V st) = BSIZE" and j: "j \<le> n"
    and h: "\<And>i. i < n \<Longrightarrow> h i \<notin> log_area st" and V: "\<And>x. x \<notin> h ` {0..<n} \<Longrightarrow> V x = od x"
  defines "hb \<equiv> head_bytes (int n) h (V st)"
  defines "d \<equiv> apply_ws ((apply_ws od (log_ws st V n h))(st := hb)) (map (\<lambda>i. (h i, V (h i))) [0..<j])"
  shows "d st = hb" "valid_log st d" "x \<notin> log_area st \<Longrightarrow> replay st d x = V x"
    "x \<notin> log_area st \<Longrightarrow> d x = (if x \<in> h ` {0..<j} then V x else od x)"
proof -
  have st: "st \<in> log_area st" using log_blocks(3) [of 0] by simp
  have hs: "h i \<noteq> st" if "i < n" for i using h [OF that] st by auto
  have hr: "length hb = BSIZE" "sint (get32 hb 0) = int n" "\<And>i. i < n \<Longrightarrow> get32 hb (4 + 4 * i) = h i"
    using head_bytes_read [where n = "int n" and d = "V st" and h = h] n len by (simp_all add: hb_def)
  have dx: "d x = (if x \<in> h ` {0..<j} then V x else ((apply_ws od (log_ws st V n h))(st := hb)) x)" for x
    unfolding d_def by (simp add: apply_ws_map [of _ h V])
  have nst: "st \<notin> h ` {0..<j}" using hs j by (metis atLeastLessThan_iff image_iff order_less_le_trans)
  show dst: "d st = hb" using nst by (simp add: dx)
  have lv: "d (st + of_nat i + 1) = V (h i)" if i: "i < n" for i
  proof -
    have i': "Suc i < LOGSIZE" using i n by simp
    have "st + of_nat i + 1 \<notin> h ` {0..<j}"
      using h j log_blocks(1) [OF i'] by (metis atLeastLessThan_iff image_iff order_less_le_trans)
    then show ?thesis using log_values [OF n i] log_blocks(2) [OF i'] by (simp add: dx)
  qed
  have hn: "hdr_n st d = n" "\<And>i. i < n \<Longrightarrow> hdr_blk st d i = h i"
    using hr by (simp_all add: hdr_n_def hdr_blk_def dst)
  show "valid_log st d" using n h hn hr by (simp add: valid_log_def dst)
  have off: "d x = (if x \<in> h ` {0..<j} then V x else od x)" if x: "x \<notin> log_area st" for x
  proof -
    have "x \<noteq> st" "x \<notin> fst ` set (log_ws st V n h)" using x st fst_log_ws [OF n, of st V h] by blast+
    then show ?thesis by (simp add: dx apply_ws_other)
  qed
  then show "x \<notin> log_area st \<Longrightarrow> d x = (if x \<in> h ` {0..<j} then V x else od x)" .
  have "home_ws st d (hdr_n st d) (hdr_blk st d) = map (\<lambda>i. (h i, V (h i))) [0..<n]"
    using hn lv by (simp add: home_ws_def)
  then have "replay st d x = (if x \<in> h ` {0..<n} then V x else d x)"
    using apply_ws_map [of d h V "[0..<n]" x] by (simp add: replay_def)
  moreover have "h ` {0..<j} \<subseteq> h ` {0..<n}" using j by auto
  ultimately show "x \<notin> log_area st \<Longrightarrow> replay st d x = V x" using off V by auto
qed

lemma crash_replay:
  fixes k :: nat
  assumes n: "n < LOGSIZE" and len: "length (od st) = BSIZE" and z: "get32 (od st) 0 = 0"
    and h: "\<And>i. i < n \<Longrightarrow> h i \<notin> log_area st" and V: "\<And>x. x \<notin> h ` {0..<n} \<Longrightarrow> V x = od x"
  defines "d \<equiv> apply_ws od (take k (commit_ws st V n h))"
  shows "valid_log st d" "x \<notin> log_area st \<Longrightarrow> replay st d x = (if k \<le> n then od x else V x)"
proof -
  have st: "st \<in> log_area st" using log_blocks(3) [of 0] by simp
  have lw: "length (log_ws st V n h) = n" by (simp add: log_ws_def)
  have "st \<notin> h ` {0..<n}" using h st by auto
  then have Vst: "V st = od st" using V by simp
  have "valid_log st d \<and> (x \<notin> log_area st \<longrightarrow> replay st d x = (if k \<le> n then od x else V x))"
  proof (cases "k \<le> n")
    case True
    have "fst ` set (take k (log_ws st V n h)) \<subseteq> log_area st - {st}"
      using fst_log_ws [OF n, of st V h] set_take_subset [of k "log_ws st V n h"] by blast
    then have e: "d y = od y" if "y = st \<or> y \<notin> log_area st" for y
      using that unfolding d_def take_commit_ws [OF lw] using True by (auto intro!: apply_ws_other)
    then show ?thesis using replay_empty [of d st] valid_empty [of d st] len z True by simp
  next
    case False
    let ?j = "min (k - n - 1) n"
    let ?hb = "head_bytes (int n) h (V st)"
    let ?e = "apply_ws ((apply_ws od (log_ws st V n h))(st := ?hb)) (map (\<lambda>i. (h i, V (h i))) [0..<?j])"
    have tk: "take (k - n - 1) (map (\<lambda>i. (h i, V (h i))) [0..<n]) = map (\<lambda>i. (h i, V (h i))) [0..<?j]"
      by (simp add: take_map min_def)
    have c: "valid_log st ?e" "x \<notin> log_area st \<Longrightarrow> replay st ?e x = V x"
      "x \<notin> log_area st \<Longrightarrow> ?e x = (if x \<in> h ` {0..<?j} then V x else od x)"
      by (rule replay_committed [OF n]; (use h V Vst len in simp))+
    have hl: "length (head_bytes (int n) h (od st)) = BSIZE" using head_bytes_read(1) n len by simp
    show ?thesis
    proof (cases "k \<le> 2 * n + 1")
      case True
      then have "d = ?e" unfolding d_def take_commit_ws [OF lw] tk using False by (simp add: Vst fun_upd_def)
      then show ?thesis using c(1,2) False by simp
    next
      case gt: False
      then have j: "?j = n" by simp
      have d: "d = ?e(st := head_bytes 0 h ?hb)"
        unfolding d_def take_commit_ws [OF lw] tk using False gt by (simp add: Vst fun_upd_def)
      have "d st = head_bytes 0 h ?hb" by (simp add: d)
      then have s0: "replay st d = d" "valid_log st d"
        using replay_empty [of d st] valid_empty [of d st] head_zero [OF hl, of h] by (simp_all add: Vst)
      have "d x = V x" if x: "x \<notin> log_area st"
      proof -
        have "x \<noteq> st" using x st by auto
        then have "d x = ?e x" by (simp add: d)
        then show ?thesis using c(3) [OF x] V [of x] unfolding j by auto
      qed
      then show ?thesis using s0 False by simp
    qed
  qed
  then show "valid_log st d" "x \<notin> log_area st \<Longrightarrow> replay st d x = (if k \<le> n then od x else V x)" by simp_all
qed

lemma commit_pre_facts:
  assumes "commit_pre s"
  defines "n \<equiv> nat (lh_n s)"
  shows "n < LOGSIZE" "length (disk s (log_start s)) = BSIZE" "get32 (disk s (log_start s)) 0 = 0"
    "\<And>i. i < n \<Longrightarrow> lh_block s i \<notin> log_area (log_start s)"
    "\<And>x. x \<notin> lh_block s ` {0..<n} \<Longrightarrow> bval s (log_dev s) x = disk s x"
proof -
  note p = assms(1) [unfolded commit_pre_def]
  show "n < LOGSIZE" "length (disk s (log_start s)) = BSIZE" "get32 (disk s (log_start s)) 0 = 0"
    "\<And>i. i < n \<Longrightarrow> lh_block s i \<notin> log_area (log_start s)"
    using p by (auto simp: n_def)
  have "binv (log_dev s) (lh_block s ` {0..<n}) s" using p bstD(2) unfolding n_def by blast
  then show "\<And>x. x \<notin> lh_block s ` {0..<n} \<Longrightarrow> bval s (log_dev s) x = disk s x" by (rule bval_clean)
qed

lemma commit_final:
  assumes "commit_pre s" "x \<notin> log_area (log_start s)"
  shows "apply_ws (disk s) (commit_ws (log_start s) (bval s (log_dev s)) (nat (lh_n s)) (lh_block s)) x = bval s (log_dev s) x"
proof -
  let ?n = "nat (lh_n s)" let ?W = "commit_ws (log_start s) (bval s (log_dev s)) ?n (lh_block s)"
  note f = commit_pre_facts [OF assms(1)]
  have l: "length ?W = 2 * ?n + 2" by (simp add: commit_ws_def log_ws_def)
  have "log_start s \<notin> lh_block s ` {0..<?n}" using f(4) log_blocks(3) [of 0 "log_start s"] by auto
  then have V: "bval s (log_dev s) (log_start s) = disk s (log_start s)" using f(5) by blast
  have hl: "length (head_bytes (int ?n) (lh_block s) (disk s (log_start s))) = BSIZE"
    by (rule head_bytes_read(1)) (use f(1,2) in auto)
  have z: "get32 (apply_ws (disk s) ?W (log_start s)) 0 = 0"
    using head_zero(1) [OF hl, of "lh_block s"] by (simp add: commit_ws_def V)
  have "replay (log_start s) (apply_ws (disk s) (take (length ?W) ?W)) x = bval s (log_dev s) x"
    using crash_replay(2) [where k = "length ?W" and n = "nat (lh_n s)" and st = "log_start s" and od = "disk s" and h = "lh_block s" and V = "bval s (log_dev s)", OF f assms(2)] l by simp
  then show ?thesis using replay_empty [of "apply_ws (disk s) ?W" "log_start s"] z by simp
qed

text \<open>C10. \<^verbatim>\<open>commit\<close> completes when one buffer is not in use: the header in memory is empty again, no block is dirty, and
  outside the log the disk holds what the kernel saw before.\<close>

theorem commit_installs:
  assumes "commit_pre s"
  shows "\<exists>t. commit s = Ok () t \<and> lh_n t = 0 \<and> bst (log_dev s) {} {} t \<and>
    (\<forall>x. x \<in> log_area (log_start s) \<or> disk t x = bval s (log_dev s) x)"
  using commit_spec [OF assms] commit_final [OF assms] by metis

text \<open>C1. Atomicity of a transaction. \<^verbatim>\<open>commit\<close> sends a list of block writes to the disk, and the machine may
  crash after any number \<open>k\<close> of them. A recovery on the resulting disk completes; outside the log it gives the old disk when at
  most \<open>n\<close> writes, the log blocks, were done, and the complete transaction otherwise.\<close>

theorem commit_crash_atomic:
  assumes "commit_pre s"
  shows "\<exists>t W. commit s = Ok () t \<and> dwrites t = dwrites s @ W \<and>
    (\<forall>k r. booted (log_dev s) (log_start s) (apply_ws (disk s) (take k W)) r \<longrightarrow>
      (\<exists>u. recover_from_log r = Ok () u \<and>
        (\<forall>x. x \<in> log_area (log_start s) \<or> disk u x = (if k \<le> nat (lh_n s) then disk s x else bval s (log_dev s) x))))"
proof -
  let ?D = "log_dev s" let ?st = "log_start s" let ?n = "nat (lh_n s)" let ?V = "bval s ?D"
  let ?W = "commit_ws ?st ?V ?n (lh_block s)"
  obtain t where t: "commit s = Ok () t" "dwrites t = dwrites s @ ?W" using commit_spec [OF assms] by blast
  have "\<exists>u. recover_from_log r = Ok () u \<and>
        (\<forall>x. x \<in> log_area ?st \<or> disk u x = (if k \<le> ?n then disk s x else ?V x))"
    if b: "booted ?D ?st (apply_ws (disk s) (take k ?W)) r" for k r
  proof -
    note c = crash_replay [where k = k and n = "nat (lh_n s)" and st = "log_start s" and od = "disk s" and h = "lh_block s" and V = "bval s (log_dev s)", OF commit_pre_facts [OF assms]]
    obtain u h where "recover_from_log r = Ok () u" "disk u = apply_ws (apply_ws (disk s) (take k ?W)) (recover_ws ?st (apply_ws (disk s) (take k ?W)) h)"
      using recover_spec [OF b c(1)] by blast
    then show ?thesis using c(2) recovered_replay [OF c(1)] by metis
  qed
  then show ?thesis using t by blast
qed

section \<open>A crash during the recovery\<close>

lemma replay_again:
  assumes v: "valid_log st d"
  defines "ws \<equiv> home_ws st d (hdr_n st d) (hdr_blk st d)"
  shows "valid_log st (apply_ws d (take k ws))" "replay st (apply_ws d (take k ws)) = replay st d"
proof -
  let ?e = "apply_ws d (take k ws)"
  have hb: "hdr_blk st d i \<notin> log_area st" if "i < hdr_n st d" for i using v that by (simp add: valid_log_def)
  have f: "fst ` set (take k ws) \<subseteq> fst ` set ws" using set_take_subset [of k ws] by blast
  have w: "fst ` set ws = hdr_blk st d ` {0..<hdr_n st d}" by (simp add: ws_def fst_home_ws)
  have keep: "?e y = d y" if "y \<in> log_area st" for y
    using that f w hb by (intro apply_ws_other) auto
  have st: "?e st = d st" using keep log_blocks(3) [of 0 st] by simp
  have hn: "hdr_n st ?e = hdr_n st d" "hdr_blk st ?e = hdr_blk st d"
    by (simp_all add: hdr_n_def hdr_blk_def fun_eq_iff st)
  have "?e (st + of_nat i + 1) = d (st + of_nat i + 1)" if "i < hdr_n st d" for i
    using that v log_blocks(1) [of i st] keep by (simp add: valid_log_def)
  then have again: "home_ws st ?e (hdr_n st ?e) (hdr_blk st ?e) = ws"
    unfolding hn by (simp add: home_ws_def ws_def)
  have "replay st ?e = apply_ws ?e ws" unfolding replay_def again ..
  also have "\<dots> = apply_ws d ws" by (rule apply_ws_absorb [OF f])
  also have "\<dots> = replay st d" unfolding replay_def ws_def ..
  finally show "replay st ?e = replay st d" .
  show "valid_log st ?e" using v by (simp add: valid_log_def hn st)
qed

text \<open>C2. Recovery is idempotent under crashes. Take any disk with a well-formed log; when the machine crashes after \<open>k\<close> of the
  writes of a recovery and recovers again, the result outside the log is that of a recovery without a crash.\<close>

theorem recovery_crash_idempotent:
  assumes "booted D st d r" "valid_log st d"
  shows "\<exists>u W. recover_from_log r = Ok () u \<and> dwrites u = dwrites r @ W \<and>
    (\<forall>k r'. booted D st (apply_ws d (take k W)) r' \<longrightarrow>
      (\<exists>u'. recover_from_log r' = Ok () u' \<and> (\<forall>x. x \<in> log_area st \<or> disk u' x = disk u x)))"
proof -
  obtain u h where u: "recover_from_log r = Ok () u" "disk u = apply_ws d (recover_ws st d h)" "dwrites u = dwrites r @ recover_ws st d h"
    using recover_spec [OF assms] by blast
  let ?ws = "home_ws st d (hdr_n st d) (hdr_blk st d)" let ?W = "recover_ws st d h"
  have ux: "disk u x = replay st d x" if "x \<notin> log_area st" for x using recovered_replay [OF assms(2) that] u by simp
  have e: "valid_log st (apply_ws d (take k ?W)) \<and> (\<forall>x. x \<in> log_area st \<or> replay st (apply_ws d (take k ?W)) x = replay st d x)" for k
  proof (cases "k \<le> length ?ws")
    case True
    then have "take k ?W = take k ?ws" by (simp add: recover_ws_def)
    then show ?thesis using replay_again [OF assms(2), of k] by simp
  next
    case False
    let ?e = "apply_ws d ?W"
    have tk: "take k ?W = ?W" using False by (simp add: recover_ws_def)
    have "length (d st) = BSIZE" using assms(2) by (simp add: valid_log_def)
    then have "get32 (?e st) 0 = 0" "length (?e st) = BSIZE" using head_zero [of "d st" h] by (simp_all add: recover_ws_def)
    then have "replay st ?e = ?e" "valid_log st ?e" by (simp_all add: replay_empty valid_empty)
    then show ?thesis using recovered_replay [OF assms(2)] unfolding tk by metis
  qed
  have "\<exists>u'. recover_from_log r' = Ok () u' \<and> (\<forall>x. x \<in> log_area st \<or> disk u' x = disk u x)"
    if b: "booted D st (apply_ws d (take k ?W)) r'" for k r'
  proof -
    let ?e = "apply_ws d (take k ?W)"
    obtain u' h' where "recover_from_log r' = Ok () u'" "disk u' = apply_ws ?e (recover_ws st ?e h')"
      using recover_spec [OF b] e by blast
    then show ?thesis using recovered_replay [of st ?e] e ux by metis
  qed
  then show ?thesis using u by blast
qed

end
