(* ===== verification/LogProps.thy ===== *)
theory LogProps
  imports Recovery
begin

text \<open>
  The transaction interface of \<^verbatim>\<open>kernel/log.c\<close>: \<^verbatim>\<open>begin_op\<close> reserves space or sleeps, \<^verbatim>\<open>log_write\<close> records a
  modified block once and pins its buffer, and the last \<^verbatim>\<open>end_op\<close> commits.
\<close>

unbundle bit_operations_syntax

abbreviation (input) homes :: "'z log_st_scheme \<Rightarrow> u32 set" where
  "homes s \<equiv> lh_block s ` {0..<nat (lh_n s)}"

lemma held_log [simp]:
  "lh_n (held l s) = lh_n s" "lh_block (held l s) = lh_block s" "log_size (held l s) = log_size s"
  "log_outstanding (held l s) = log_outstanding s" "log_committing (held l s) = log_committing s"
  by (simp_all add: held_def pushed_def set_sie_def)

lemma held_log_update:
  "held l (s\<lparr>lh_n := n\<rparr>) = (held l s)\<lparr>lh_n := n\<rparr>" "held l (s\<lparr>lh_block := h\<rparr>) = (held l s)\<lparr>lh_block := h\<rparr>"
  "held l (s\<lparr>log_outstanding := k\<rparr>) = (held l s)\<lparr>log_outstanding := k\<rparr>"
  "held l (s\<lparr>log_committing := c\<rparr>) = (held l s)\<lparr>log_committing := c\<rparr>"
  by (simp_all add: held_def pushed_def set_sie_def)

lemma ready_log [simp]:
  "ready (s\<lparr>lh_n := n\<rparr>) = ready s" "ready (s\<lparr>lh_block := h\<rparr>) = ready s"
  "ready (s\<lparr>log_outstanding := k\<rparr>) = ready s" "ready (s\<lparr>log_committing := c\<rparr>) = ready s"
  by (simp_all add: ready_def calm_def sie_def unlocked_def me_def)

lemma bst_log [simp]:
  "bst D X L (s\<lparr>log_outstanding := k\<rparr>) = bst D X L s" "bst D X L (s\<lparr>log_committing := c\<rparr>) = bst D X L s"
  "bval (s\<lparr>log_outstanding := k\<rparr>) = bval s" "bval (s\<lparr>log_committing := c\<rparr>) = bval s"
  by (simp_all add: bst_def binv_def mypid_def me_def bval_def fun_eq_iff split: option.split)

lemma quiet_log:
  assumes "quiet s t"
  shows "lh_n t = lh_n s" "log_outstanding t = log_outstanding s" "log_committing t = log_committing s"
  using assms by (auto simp: quiet_def)

section \<open>begin_op\<close>

lemma begin_op_grants:
  assumes "ready s" "\<not> log_committing s" "lh_n s + (log_outstanding s + 1) * int MAXOPBLOCKS \<le> int LOGSIZE"
  shows "begin_op s = Ok () (s\<lparr>log_outstanding := log_outstanding s + 1\<rparr>)"
proof -
  let ?t = "s\<lparr>log_outstanding := log_outstanding s + 1\<rparr>"
  have "release LLog (held LLog ?t) = Ok () ?t" using assms(1) by (intro release_ready) simp
  then show ?thesis
    using assms by (simp add: begin_op_def begin_op_loop_def bind_apply readyD held_log_update)
qed


section \<open>log_write\<close>

lemma log_index_found: "bno \<in> h ` {0..<n} \<Longrightarrow> log_index h bno n < n \<and> h (log_index h bno n) = bno"
proof -
  assume "bno \<in> h ` {0..<n}"
  then have "filter (\<lambda>i. h i = bno) [0..<n] \<noteq> []" by (auto simp: filter_empty_conv)
  then obtain i js where f: "filter (\<lambda>i. h i = bno) [0..<n] = i # js" by (cases "filter (\<lambda>i. h i = bno) [0..<n]") auto
  have "i \<in> set (filter (\<lambda>i. h i = bno) [0..<n])" unfolding f by simp
  then have "i < n" "h i = bno" by auto
  then show ?thesis using f by (simp add: log_index_def)
qed

lemma log_index_new: "bno \<notin> h ` {0..<n} \<Longrightarrow> log_index h bno n = n"
proof -
  assume "bno \<notin> h ` {0..<n}"
  then have "filter (\<lambda>i. h i = bno) [0..<n] = []" by (auto simp: filter_empty_conv)
  then show ?thesis by (simp add: log_index_def)
qed

lemma bpin_calm:
  assumes "calm s" "unlocked LBcache s"
  shows "bpin b s = Ok () (s\<lparr>bufs := (bufs s)(b := (bufs s b)\<lparr>b_refcnt := b_refcnt (bufs s b) + 1\<rparr>)\<rparr>)"
proof -
  let ?t = "s\<lparr>bufs := (bufs s)(b := (bufs s b)\<lparr>b_refcnt := b_refcnt (bufs s b) + 1\<rparr>)\<rparr>"
  have "release LBcache (held LBcache ?t) = Ok () ?t"
    using assms by (intro release_held) (auto simp: calm_def sie_def unlocked_def Let_def)
  then show ?thesis using assms by (simp add: bpin_def bind_apply bufset_def held_bufs_update)
qed

definition may_log :: "'z log_st_scheme \<Rightarrow> bool" where
  "may_log s = (0 \<le> lh_n s \<and> lh_n s < int LOGSIZE \<and> lh_n s < sint (log_size s) - 1 \<and> 1 \<le> log_outstanding s)"

lemma log_write_absorbed:
  assumes "ready s" "may_log s" "b_blockno (bufs s b) \<in> homes s"
  shows "log_write b s = Ok () s"
proof -
  let ?i = "log_index (lh_block s) (b_blockno (bufs s b)) (nat (lh_n s))"
  have i: "?i < nat (lh_n s)" "lh_block s ?i = b_blockno (bufs s b)" using log_index_found [OF assms(3)] by simp_all
  have u: "(lh_block s)(?i := b_blockno (bufs s b)) = lh_block s" using i(2) by (simp add: fun_eq_iff)
  have n: "int ?i \<noteq> lh_n s" using i(1) by linarith
  have "release LLog ((held LLog s)\<lparr>lh_block := lh_block s\<rparr>) = Ok () s"
    unfolding held_log_update(2) [symmetric] using release_ready [OF assms(1), of LLog] by simp
  then show ?thesis
    using assms(1,2) u n
    by (simp add: log_write_def bind_apply readyD may_log_def bufget_def whenM_def)
qed

lemma log_write_new:
  assumes "ready s" "may_log s" "b_blockno (bufs s b) \<notin> homes s"
  shows "log_write b s = Ok () (s\<lparr>lh_block := (lh_block s)(nat (lh_n s) := b_blockno (bufs s b)),
    bufs := (bufs s)(b := (bufs s b)\<lparr>b_refcnt := b_refcnt (bufs s b) + 1\<rparr>), lh_n := lh_n s + 1\<rparr>)"
proof -
  let ?h = "(lh_block s)(nat (lh_n s) := b_blockno (bufs s b))"
  let ?B = "(bufs s)(b := (bufs s b)\<lparr>b_refcnt := b_refcnt (bufs s b) + 1\<rparr>)"
  let ?t = "s\<lparr>lh_block := ?h, bufs := ?B, lh_n := lh_n s + 1\<rparr>"
  have r: "release LLog (held LLog ?t) = Ok () ?t" using assms(1) by (intro release_ready) simp
  have p: "bpin b (held LLog (s\<lparr>lh_block := ?h\<rparr>)) = Ok () ((held LLog (s\<lparr>lh_block := ?h\<rparr>))\<lparr>bufs := ?B\<rparr>)"
    using bpin_calm [of "held LLog (s\<lparr>lh_block := ?h\<rparr>)" b] readyD [of "s\<lparr>lh_block := ?h\<rparr>"] assms(1) by simp
  show ?thesis
    using assms(1,2) log_index_new [OF assms(3)] r p
    by (simp add: log_write_def bind_apply readyD may_log_def bufget_def whenM_def held_log_update held_bufs_update)
qed

lemma log_write_spec:
  assumes "bst D X L s" "b \<in> L" "may_log s" "inj_on (lh_block s) {0..<nat (lh_n s)}"
    and "X \<subseteq> insert (b_blockno (bufs s b)) (homes s)" "b_refcnt (bufs s b) + 1 \<noteq> 0"
  obtains t where "log_write b s = Ok () t" "bst D X L t" "bval t D = bval s D"
    "inj_on (lh_block t) {0..<nat (lh_n t)}" "homes t = insert (b_blockno (bufs s b)) (homes s)"
    "bufs t = (if b_blockno (bufs s b) \<in> homes s then bufs s else (bufs s)(b := (bufs s b)\<lparr>b_refcnt := b_refcnt (bufs s b) + 1\<rparr>))"
    "lh_n t = (if b_blockno (bufs s b) \<in> homes s then lh_n s else lh_n s + 1)"
    "b_blockno (bufs s b) \<in> homes s \<Longrightarrow> t = s" "t = s\<lparr>lh_block := lh_block t, bufs := bufs t, lh_n := lh_n t\<rparr>"
proof (cases "b_blockno (bufs s b) \<in> homes s")
  case True
  then have "homes s = insert (b_blockno (bufs s b)) (homes s)" by blast
  then show ?thesis by (rule that [OF log_write_absorbed [OF bstD(1) [OF assms(1)] assms(3) True] assms(1) refl assms(4)]) (simp_all add: True)
next
  case False
  let ?bno = "b_blockno (bufs s b)" let ?n = "nat (lh_n s)"
  let ?B = "(bufs s)(b := (bufs s b)\<lparr>b_refcnt := b_refcnt (bufs s b) + 1\<rparr>)"
  let ?t = "s\<lparr>lh_block := (lh_block s)(?n := ?bno), bufs := ?B, lh_n := lh_n s + 1\<rparr>"
  obtain u where "bpin b s = Ok () u" "bst D X L u" "bval u D = bval s D"
    by (rule bpin_spec [OF assms(1,6)])
  then have "bst D X L (s\<lparr>bufs := ?B\<rparr>)" "bval (s\<lparr>bufs := ?B\<rparr>) D = bval s D"
    using bpin_eq [OF bstD(1) [OF assms(1)], of b] by simp_all
  moreover have e: "?t = (s\<lparr>bufs := ?B\<rparr>)\<lparr>lh_block := (lh_block s)(?n := ?bno), lh_n := lh_n s + 1\<rparr>" by simp
  ultimately have t: "bst D X L ?t" "bval ?t D = bval s D" unfolding e by simp_all
  have n: "nat (lh_n ?t) = Suc ?n" using assms(3) by (auto simp: may_log_def nat_add_distrib)
  have im: "homes ?t = insert ?bno (homes s)"
    unfolding n by (auto simp: less_Suc_eq)
  have fresh: "lh_block s i \<noteq> ?bno" if "i < ?n" for i
    using False that by (metis atLeastLessThan_iff image_eqI le0)
  have inj: "inj_on (lh_block ?t) {0..<nat (lh_n ?t)}"
    unfolding n using assms(4) by (auto simp: inj_on_def less_Suc_eq fresh fresh [symmetric])
  show ?thesis
    by (rule that [OF log_write_new [OF bstD(1) [OF assms(1)] assms(3) False] t inj im]) (simp_all add: False)
qed

text \<open>C8. \<^verbatim>\<open>log_write\<close> keeps a transaction together: each block is recorded once and a newly recorded buffer is pinned. When
  every dirty block but the one of \<open>b\<close> is already recorded, all of them are afterwards, so they are what \<^verbatim>\<open>commit\<close> writes;
  nothing changes when the block was recorded before.\<close>

theorem log_write_records:
  assumes "bst D X L s" "b \<in> L" "may_log s" "inj_on (lh_block s) {0..<nat (lh_n s)}"
    and "X \<subseteq> insert (b_blockno (bufs s b)) (homes s)" "b_refcnt (bufs s b) + 1 \<noteq> 0"
  shows "\<exists>t. log_write b s = Ok () t \<and> bst D X L t \<and> bval t D = bval s D \<and>
    inj_on (lh_block t) {0..<nat (lh_n t)} \<and> homes t = insert (b_blockno (bufs s b)) (homes s) \<and> X \<subseteq> homes t \<and>
    (if b_blockno (bufs s b) \<in> homes s then t = s
     else lh_n t = lh_n s + 1 \<and> b_refcnt (bufs t b) = b_refcnt (bufs s b) + 1)"
proof -
  obtain t where "log_write b s = Ok () t" "bst D X L t" "bval t D = bval s D" "inj_on (lh_block t) {0..<nat (lh_n t)}"
    "homes t = insert (b_blockno (bufs s b)) (homes s)"
    "bufs t = (if b_blockno (bufs s b) \<in> homes s then bufs s else (bufs s)(b := (bufs s b)\<lparr>b_refcnt := b_refcnt (bufs s b) + 1\<rparr>))"
    "lh_n t = (if b_blockno (bufs s b) \<in> homes s then lh_n s else lh_n s + 1)" "b_blockno (bufs s b) \<in> homes s \<Longrightarrow> t = s"
    by (rule log_write_spec [OF assms]) blast
  then show ?thesis using assms(5) by (intro exI [of _ t]) (auto split: if_splits)
qed


section \<open>end_op\<close>

lemma commit_pre_log [simp]:
  "commit_pre (s\<lparr>log_outstanding := k\<rparr>) = commit_pre s" "commit_pre (s\<lparr>log_committing := c\<rparr>) = commit_pre s"
  by (simp_all add: commit_pre_def small_refs_def)

text \<open>C9. The last \<^verbatim>\<open>end_op\<close> of a transaction commits it: no process is left sleeping for log space, the log is empty and open for new
  operations, and outside the log the disk holds the new contents.\<close>

theorem end_op_commits:
  assumes pre: "commit_pre s" and out: "log_outstanding s = 1" and c: "\<not> log_committing s"
  shows "\<exists>t. end_op s = Ok () t \<and> lh_n t = 0 \<and> log_outstanding t = 0 \<and> \<not> log_committing t \<and>
    (\<forall>x. x \<in> log_area (log_start s) \<or> disk t x = bval s (log_dev s) x) \<and>
    (\<forall>p<NPROC. me t = Some p \<or> p_state (procs t p) \<noteq> SLEEPING \<or> p_chan (procs t p) \<noteq> ChLog)"
proof -
  have rdy: "ready s" using pre bstD(1) unfolding commit_pre_def by blast
  let ?u = "s\<lparr>log_outstanding := 0, log_committing := True\<rparr>"
  have r1: "release LLog (held LLog ?u) = Ok () ?u" using rdy by (intro release_ready) simp
  obtain t where t: "commit ?u = Ok () t" "bst (log_dev s) {} {} t" "lh_n t = 0" "log_outstanding t = 0"
    "disk t = apply_ws (disk s) (commit_ws (log_start s) (bval s (log_dev s)) (nat (lh_n s)) (lh_block s))"
    using commit_spec [of ?u] pre by auto
  let ?v = "t\<lparr>log_committing := False\<rparr>"
  have rv: "ready ?v" using bstD(1) [OF t(2)] by simp
  have w: "wakeup ChLog (held LLog ?v) = Ok () ((held LLog ?v)\<lparr>procs := woken_all ChLog (held LLog ?v)\<rparr>)"
    using rv by (intro wakeup_ready) (simp_all add: ready_def)
  have wv: "woken_all ChLog (held LLog ?v) = woken_all ChLog t"
    by (simp add: woken_all_def fun_eq_iff me_def)
  let ?w = "?v\<lparr>procs := woken_all ChLog t\<rparr>"
  have r2: "release LLog (held LLog ?w) = Ok () ?w" using rv by (intro release_ready) simp
  have "end_op s = Ok () ?w"
    using rdy r1 t(1) w r2 out c readyD [OF bstD(1) [OF t(2)]]
    by (simp add: end_op_def bind_apply readyD whenM_def held_log_update held_procs_update wv [unfolded held_log_update])
  moreover have "\<forall>x. x \<in> log_area (log_start s) \<or> disk ?w x = bval s (log_dev s) x"
    using commit_final [OF pre] t(5) by auto
  moreover have "\<forall>p<NPROC. me ?w = Some p \<or> p_state (procs ?w p) \<noteq> SLEEPING \<or> p_chan (procs ?w p) \<noteq> ChLog"
    by (auto simp: woken_all_def woken_def me_def)
  ultimately show ?thesis using t(3,4) by (intro exI [of _ ?w]) simp
qed

end
