(* ===== verification/FsBlocks.thy ===== *)
theory FsBlocks
  imports LogProps DiskLayout
begin

text \<open>
  Blocks of the file system inside a transaction: reading a block through the cache, changing it and giving it to \<^verbatim>\<open>log_write\<close>,
  the pattern of \<^verbatim>\<open>bzero\<close>, \<^verbatim>\<open>balloc\<close> and \<^verbatim>\<open>bfree\<close> of \<^verbatim>\<open>kernel/fs.c\<close>, and the allocation of a block on top of it.
\<close>

unbundle bit_operations_syntax

section \<open>Transactions\<close>

text \<open>The dirty blocks are those recorded in the log, and no buffer has \<open>k\<close> or more references.\<close>

definition txn :: "u32 \<Rightarrow> nat \<Rightarrow> 'z log_st_scheme \<Rightarrow> bool" where
  "txn D k s \<longleftrightarrow> bst D (homes s) {} s \<and> inj_on (lh_block s) {0..<nat (lh_n s)} \<and> (\<forall>b<NBUF. unat (b_refcnt (bufs s b)) < k)"

text \<open>Only the cache and the log change.\<close>

definition log_only :: "'z log_st_scheme \<Rightarrow> 'z log_st_scheme \<Rightarrow> bool" where
  "log_only s t \<longleftrightarrow> (\<exists>p k B d w n h. t = s\<lparr>procs := p, sleeplocks := k, bufs := B, disk := d, dwrites := w, lh_n := n, lh_block := h\<rparr>)"

lemma log_only_trans: "log_only s t \<Longrightarrow> log_only t u \<Longrightarrow> log_only s u"
  unfolding log_only_def by (elim exE) (simp, blast)

lemma cache_log_only: "cache_only s t \<Longrightarrow> log_only s t"
  unfolding cache_only_def log_only_def
proof (elim exE)
  fix k p B d w assume "t = s\<lparr>procs := p, sleeplocks := k, bufs := B, disk := d, dwrites := w\<rparr>"
  then have "t = s\<lparr>procs := p, sleeplocks := k, bufs := B, disk := d, dwrites := w, lh_n := lh_n s, lh_block := lh_block s\<rparr>" by simp
  then show "\<exists>p k B d w n h. t = s\<lparr>procs := p, sleeplocks := k, bufs := B, disk := d, dwrites := w, lh_n := n, lh_block := h\<rparr>" by blast
qed

lemma log_only_fields:
  "log_only s t \<Longrightarrow> log_size t = log_size s" "log_only s t \<Longrightarrow> log_outstanding t = log_outstanding s"
  by (auto simp: log_only_def)

lemma log_only_sb: "log_only s t \<Longrightarrow> sb t = sb s"
  by (auto simp: log_only_def)

lemma cache_only_fields: "cache_only s t \<Longrightarrow> lh_n t = lh_n s" "cache_only s t \<Longrightarrow> lh_block t = lh_block s"
  by (auto simp: cache_only_def)

lemma unat_inc: "unat (r :: u32) < 2 ^ 31 \<Longrightarrow> unat (r + 1) = Suc (unat r)"
  by (simp add: unat_word_ariths)

section \<open>Reading a block\<close>

text \<open>A block read in a transaction: its buffer has one more reference, and was in use before if the block is dirty.\<close>

lemma txn_bread:
  assumes "txn D k s" "k < 2 ^ 31" "some_free s"
  obtains b u where "bread D x s = Ok b u" "bst D (homes s) {b} u" "b < NBUF" "b_blockno (bufs u b) = x"
    "b_data (bufs u b) = bval s D x" "bval u D = bval s D" "disk u = disk s" "dwrites u = dwrites s" "cache_only s u"
    "unat (b_refcnt (bufs u b)) = Suc (unat (b_refcnt (bufs s b)))" "\<And>c. c \<noteq> b \<Longrightarrow> b_refcnt (bufs u c) = b_refcnt (bufs s c)"
    "x \<in> homes s \<Longrightarrow> b_refcnt (bufs s b) \<noteq> 0"
proof -
  have s: "bst D (homes s) {} s" and r: "\<forall>b<NBUF. unat (b_refcnt (bufs s b)) < k" using assms(1) by (auto simp: txn_def)
  have inc: "unat (b_refcnt (bufs s b) + 1) = Suc (unat (b_refcnt (bufs s b)))" if "b < NBUF" for b
    using r that assms(2) by (intro unat_inc) (meson less_trans)
  have own: "b \<notin> {} \<and> b_refcnt (bufs s b) + 1 \<noteq> 0" if "caches (bufs s) D x b" for b
    using inc [of b] that by (auto simp: caches_def)
  obtain b u where b: "bread D x s = Ok b u" "bst D (homes s) (insert b {}) u" "b < NBUF" "b \<notin> {}"
      "b_blockno (bufs u b) = x" "b_refcnt (bufs u b) = b_refcnt (bufs s b) + 1"
      "\<And>c. c \<noteq> b \<Longrightarrow> bufs u c = bufs s c" "bval u D = bval s D" "disk u = disk s" "dwrites u = dwrites s" "cache_only s u"
      "caches (bufs s) D x b \<or> (\<forall>c. \<not> caches (bufs s) D x c) \<and> b_refcnt (bufs s b) = 0"
    by (rule bread_spec [OF s, of x]) (use assms(3) own in auto)
  have data: "b_data (bufs u b) = bval s D x" using bst_val [OF b(2), of b] b(5,8) by simp
  have "b_refcnt (bufs s b) \<noteq> 0" if x: "x \<in> homes s"
  proof -
    obtain a where a: "caches (bufs s) D x a" "b_refcnt (bufs s a) \<noteq> 0" using bstD(2) [OF s] x unfolding binv_def by blast
    moreover have "\<forall>b c x. caches (bufs s) D x b \<and> caches (bufs s) D x c \<longrightarrow> b = c" using bstD(2) [OF s] unfolding binv_def by blast
    ultimately show ?thesis using b(12) by blast
  qed
  then show ?thesis
    using that [OF b(1) _ b(3,5) data b(8-11)] b(2,6,7) inc [OF b(3)] by simp
qed

section \<open>Changing a block\<close>

text \<open>The buffer of a block, locked and changed, is recorded and released.\<close>

lemma txn_log_release:
  assumes "bst D (homes s) {b} u" "cache_only s u" "b_blockno (bufs u b) = x" "may_log s" "inj_on (lh_block s) {0..<nat (lh_n s)}"
    and "unat (b_refcnt (bufs u b)) = Suc r" "Suc r < 2 ^ 31" "x \<in> homes s \<Longrightarrow> 0 < r"
  obtains v w t where "bufset b (\<lambda>y. y\<lparr>b_data := f (b_data y)\<rparr>) u = Ok () v" "log_write b v = Ok () w" "brelse b w = Ok () t"
    "bst D (homes t) {} t" "homes t = insert x (homes s)" "inj_on (lh_block t) {0..<nat (lh_n t)}" "log_only u t"
    "bval t D = (bval u D)(x := f (b_data (bufs u b)))" "disk t = disk u" "dwrites t = dwrites u"
    "lh_n s \<le> lh_n t" "lh_n t \<le> lh_n s + 1" "\<And>c. c \<noteq> b \<Longrightarrow> b_refcnt (bufs t c) = b_refcnt (bufs u c)"
    "unat (b_refcnt (bufs t b)) \<le> Suc r"
proof -
  let ?X = "insert x (homes s)"
  have lh: "homes v = homes s" "may_log v = may_log s" "lh_n v = lh_n s" "lh_block v = lh_block s" if "cache_only s v" for v
    using cache_only_fields [OF that] log_only_fields [OF cache_log_only [OF that]] by (simp_all add: may_log_def)
  obtain v where v: "bufset b (\<lambda>y. y\<lparr>b_data := f (b_data y)\<rparr>) u = Ok () v" "bst D ?X {b} v"
      "bufs v = (bufs u)(b := (bufs u b)\<lparr>b_data := f (b_data (bufs u b))\<rparr>)" "bval v D = (bval u D)(x := f (b_data (bufs u b)))"
      "disk v = disk u" "dwrites v = dwrites u" "cache_only u v"
    using setdata_spec [OF assms(1) singletonI, of "\<lambda>y. f (b_data y)"] unfolding assms(3) by blast
  note lv = lh [OF cache_only_trans [OF assms(2) v(7)]]
  have rv: "unat (b_refcnt (bufs v b)) = Suc r" "b_blockno (bufs v b) = x" using v(3) assms(3,6) by simp_all
  have i: "unat (b_refcnt (bufs v b) + 1) = Suc (Suc r)" using rv(1) assms(7) by (subst unat_inc) simp_all
  have m: "may_log v" "inj_on (lh_block v) {0..<nat (lh_n v)}" "?X \<subseteq> insert (b_blockno (bufs v b)) (homes v)"
      "b_refcnt (bufs v b) + 1 \<noteq> 0"
    using assms(4,5) lv rv(2) i by auto
  obtain w where w0: "log_write b v = Ok () w" "bst D ?X {b} w" "bval w D = bval v D" "inj_on (lh_block w) {0..<nat (lh_n w)}"
      "homes w = insert (b_blockno (bufs v b)) (homes v)"
      "bufs w = (if b_blockno (bufs v b) \<in> homes v then bufs v else (bufs v)(b := (bufs v b)\<lparr>b_refcnt := b_refcnt (bufs v b) + 1\<rparr>))"
      "lh_n w = (if b_blockno (bufs v b) \<in> homes v then lh_n v else lh_n v + 1)"
      "w = v\<lparr>lh_block := lh_block w, bufs := bufs w, lh_n := lh_n w\<rparr>"
    by (rule log_write_spec [OF v(2) singletonI m]) blast
  note w = w0 [unfolded rv(2) lv(3,4)]
  have rw: "unat (b_refcnt (bufs w b)) = (if x \<in> homes s then Suc r else Suc (Suc r))" using w(6) rv(1) i by simp
  have "b_refcnt (bufs w b) \<noteq> 1" using rw assms(8) by (auto split: if_splits)
  then obtain t where t: "brelse b w = Ok () t" "bst D ?X ({b} - {b}) t" "bufs t = dropped b (bufs w)" "bval t D = bval w D"
      "disk t = disk w" "dwrites t = dwrites w" "cache_only w t"
    using brelse_spec [OF w(2) singletonI] by metis
  have d: "disk w = disk v" "dwrites w = dwrites v" by (subst w(8), simp)+
  have "log_only v w" unfolding log_only_def
    by (rule exI [of _ "procs v"], rule exI [of _ "sleeplocks v"], rule exI [of _ "bufs w"], rule exI [of _ "disk v"],
        rule exI [of _ "dwrites v"], rule exI [of _ "lh_n w"], rule exI [of _ "lh_block w"], subst w(8), simp)
  then have lo: "log_only u t" using cache_log_only [OF v(7)] cache_log_only [OF t(7)] log_only_trans by blast
  have ht: "homes t = ?X" "lh_n t = lh_n w" "lh_block t = lh_block w" using cache_only_fields [OF t(7)] w(5) by simp_all
  have rt: "unat (b_refcnt (bufs t b)) \<le> Suc r"
  proof -
    have "b_refcnt (bufs t b) = b_refcnt (bufs w b) - 1" using t(3) by simp
    moreover have "b_refcnt (bufs w b) \<noteq> 0" using rw by (auto split: if_splits)
    ultimately have "unat (b_refcnt (bufs t b)) = unat (b_refcnt (bufs w b)) - 1" by (simp add: unat_minus_one)
    then show ?thesis using rw by simp
  qed
  have oc: "b_refcnt (bufs t c) = b_refcnt (bufs u c)" if "c \<noteq> b" for c using that t(3) w(6) v(3) by simp
  show ?thesis
    by (rule that [OF v(1) w(1) t(1) _ ht(1) _ lo _ _ _ _ _ oc rt])
      (use t(2,4,5,6) w(3,4,7) v(4,5,6) ht d in \<open>auto split: if_splits\<close>)
qed

text \<open>Read, change, record, release: one block of the transaction has new contents, and nothing has been written to the disk.\<close>

lemma txn_update:
  assumes "txn D k s" "Suc k < 2 ^ 31" "some_free s" "may_log s"
  obtains b u v w t where "bread D x s = Ok b u" "b_data (bufs u b) = bval s D x"
    "bufset b (\<lambda>y. y\<lparr>b_data := f (b_data y)\<rparr>) u = Ok () v" "log_write b v = Ok () w" "brelse b w = Ok () t"
    "txn D (Suc k) t" "homes t = insert x (homes s)" "bval t D = (bval s D)(x := f (bval s D x))" "disk t = disk s"
    "dwrites t = dwrites s" "log_only s t" "lh_n s \<le> lh_n t" "lh_n t \<le> lh_n s + 1"
    "\<And>c. c \<noteq> b \<Longrightarrow> b_refcnt (bufs t c) = b_refcnt (bufs s c)"
proof -
  have inj: "inj_on (lh_block s) {0..<nat (lh_n s)}" and rk: "\<forall>b<NBUF. unat (b_refcnt (bufs s b)) < k"
    using assms(1) by (auto simp: txn_def)
  have k: "k < 2 ^ 31" using assms(2) by simp
  obtain b u where b: "bread D x s = Ok b u" "bst D (homes s) {b} u" "b < NBUF" "b_blockno (bufs u b) = x"
      "b_data (bufs u b) = bval s D x" "bval u D = bval s D" "disk u = disk s" "dwrites u = dwrites s" "cache_only s u"
      "unat (b_refcnt (bufs u b)) = Suc (unat (b_refcnt (bufs s b)))" "\<And>c. c \<noteq> b \<Longrightarrow> b_refcnt (bufs u c) = b_refcnt (bufs s c)"
      "x \<in> homes s \<Longrightarrow> b_refcnt (bufs s b) \<noteq> 0"
    by (rule txn_bread [OF assms(1) k assms(3), of x]) auto
  have r: "Suc (unat (b_refcnt (bufs s b))) < 2 ^ 31" "x \<in> homes s \<Longrightarrow> 0 < unat (b_refcnt (bufs s b))"
    using rk b(3,12) k by (auto simp: unat_gt_0)
  obtain v w t where t: "bufset b (\<lambda>y. y\<lparr>b_data := f (b_data y)\<rparr>) u = Ok () v" "log_write b v = Ok () w" "brelse b w = Ok () t"
      "bst D (homes t) {} t" "homes t = insert x (homes s)" "inj_on (lh_block t) {0..<nat (lh_n t)}" "log_only u t"
      "bval t D = (bval u D)(x := f (b_data (bufs u b)))" "disk t = disk u" "dwrites t = dwrites u"
      "lh_n s \<le> lh_n t" "lh_n t \<le> lh_n s + 1" "\<And>c. c \<noteq> b \<Longrightarrow> b_refcnt (bufs t c) = b_refcnt (bufs u c)"
      "unat (b_refcnt (bufs t b)) \<le> Suc (unat (b_refcnt (bufs s b)))"
    by (rule txn_log_release [OF b(2,9,4) assms(4) inj b(10) r, of f]) auto
  have "unat (b_refcnt (bufs t c)) < Suc k" if "c < NBUF" for c
    using rk that t(13,14) b(11) by (cases "c = b") (auto simp: less_Suc_eq le_less_trans intro: le_less_trans)
  then have "txn D (Suc k) t" using t(4,6) by (simp add: txn_def)
  then show ?thesis
    using that [OF b(1,5) t(1-3) _ t(5)] t(8-13) b(5-8,11) log_only_trans [OF cache_log_only [OF b(9)] t(7)] by simp
qed

lemma bzero_txn:
  assumes "txn D k s" "Suc k < 2 ^ 31" "some_free s" "may_log s"
  obtains t where "bzero D x s = Ok () t" "txn D (Suc k) t" "homes t = insert x (homes s)"
    "bval t D = (bval s D)(x := replicate BSIZE 0)" "disk t = disk s" "dwrites t = dwrites s" "log_only s t"
proof -
  obtain b u v w t where t: "bread D x s = Ok b u" "bufset b (\<lambda>y. y\<lparr>b_data := replicate BSIZE 0\<rparr>) u = Ok () v"
      "log_write b v = Ok () w" "brelse b w = Ok () t" "txn D (Suc k) t" "homes t = insert x (homes s)"
      "bval t D = (bval s D)(x := replicate BSIZE 0)" "disk t = disk s" "dwrites t = dwrites s" "log_only s t"
    by (rule txn_update [OF assms, of x "\<lambda>_. replicate BSIZE 0"]) auto
  then have "bzero D x s = Ok () t" by (simp add: bzero_def mon_simps)
  then show ?thesis by (rule that [OF _ t(5-10)])
qed

section \<open>Allocating a block\<close>

lemma balloc_found:
  assumes "txn D k s" "Suc (Suc k) < 2 ^ 31" "two_free s" "may_log s" "may_log (s\<lparr>lh_n := lh_n s + 1\<rparr>)"
    and "unat (sb_size (sb s)) \<le> 8192" "free_bit (bval s D (BBLOCK 0 (sb s))) (unat (sb_size (sb s))) = Some bi"
  shows "\<exists>t. balloc D s = Ok (of_nat bi) t \<and> txn D (Suc (Suc k)) t \<and> homes t = {of_nat bi, BBLOCK 0 (sb s)} \<union> homes s \<and>
    bval t D = (bval s D)(BBLOCK 0 (sb s) := set_bitmap (bval s D (BBLOCK 0 (sb s))) bi, of_nat bi := replicate BSIZE 0) \<and>
    disk t = disk s \<and> dwrites t = dwrites s"
proof -
  let ?bm = "BBLOCK 0 (sb s)" and ?sz = "unat (sb_size (sb s))"
  have sz: "0 < ?sz" using assms(7) by (cases "?sz = 0") (simp_all add: free_bit_def)
  have free: "some_free s" using assms(3) by (auto simp: two_free_def)
  have k: "Suc k < 2 ^ 31" using assms(2) by simp
  obtain b u v w t where t: "bread D ?bm s = Ok b u" "b_data (bufs u b) = bval s D ?bm"
      "bufset b (\<lambda>y. y\<lparr>b_data := set_bitmap (b_data y) bi\<rparr>) u = Ok () v" "log_write b v = Ok () w" "brelse b w = Ok () t"
      "txn D (Suc k) t" "homes t = insert ?bm (homes s)" "bval t D = (bval s D)(?bm := set_bitmap (bval s D ?bm) bi)"
      "disk t = disk s" "dwrites t = dwrites s" "log_only s t" "lh_n s \<le> lh_n t" "lh_n t \<le> lh_n s + 1"
      "\<And>c. c \<noteq> b \<Longrightarrow> b_refcnt (bufs t c) = b_refcnt (bufs s c)"
    by (rule txn_update [OF assms(1) k free assms(4), of ?bm "\<lambda>d. set_bitmap d bi"]) auto
  have "may_log t" using assms(4,5) t(12,13) log_only_fields [OF t(11)] by (auto simp: may_log_def)
  moreover have "some_free t" using assms(3) t(14) unfolding two_free_def by metis
  ultimately obtain z where z: "bzero D (of_nat bi) t = Ok () z" "txn D (Suc (Suc k)) z" "homes z = insert (of_nat bi) (homes t)"
      "bval z D = (bval t D)(of_nat bi := replicate BSIZE 0)" "disk z = disk t" "dwrites z = dwrites t"
    using bzero_txn [OF t(6) assms(2), of "of_nat bi"] by metis
  have "balloc_loop D ?sz 0 s = Ok (of_nat bi) z"
    using sz assms(6,7) t(1-5) z(1)
    by (subst balloc_loop.simps) (simp add: mon_simps bufget_def min_absorb2)
  then show ?thesis using z t(7-10) by (simp add: balloc_def mon_simps)
qed

lemma balloc_full:
  assumes "txn D k s" "k < 2 ^ 31" "some_free s"
    and "unat (sb_size (sb s)) \<le> 8192" "free_bit (bval s D (BBLOCK 0 (sb s))) (unat (sb_size (sb s))) = None"
  shows "balloc D s = Panic ''balloc: out of blocks''"
proof -
  let ?bm = "BBLOCK 0 (sb s)" and ?sz = "unat (sb_size (sb s))"
  obtain b u where b: "bread D ?bm s = Ok b u" "bst D (homes s) {b} u" "b_blockno (bufs u b) = ?bm"
      "b_data (bufs u b) = bval s D ?bm" "unat (b_refcnt (bufs u b)) = Suc (unat (b_refcnt (bufs s b)))"
      "?bm \<in> homes s \<Longrightarrow> b_refcnt (bufs s b) \<noteq> 0"
    by (rule txn_bread [OF assms(1-3), of ?bm]) auto
  have "b_refcnt (bufs u b) \<noteq> 1" if "b_blockno (bufs u b) \<in> homes s" using that b(3,5,6) by (auto simp: word_unat_eq_iff)
  then obtain t where t: "brelse b u = Ok () t" using brelse_spec [OF b(2) singletonI] by metis
  have stop: "balloc_loop D ?sz 8192 t = Panic ''balloc: out of blocks''"
    using assms(4) by (subst balloc_loop.simps) simp
  have "balloc_loop D ?sz 0 s = Panic ''balloc: out of blocks''"
    using assms(4,5) b(1,4) t stop by (subst balloc_loop.simps) (simp add: mon_simps bufget_def min_absorb2)
  then show ?thesis by (simp add: balloc_def mon_simps)
qed

text \<open>
  C40. \<^verbatim>\<open>balloc\<close> inside a transaction, through the cache and the log.  It returns the least block the bitmap has free, which is then marked in
  the bitmap and zeroed as the kernel sees the blocks; both blocks are recorded in the log and every other block is unchanged; nothing
  has been written to the disk.  When no block is free it panics.
\<close>

theorem balloc_allocates:
  assumes "txn D k s" "Suc (Suc k) < 2 ^ 31" "two_free s" "may_log s" "may_log (s\<lparr>lh_n := lh_n s + 1\<rparr>)" "unat (sb_size (sb s)) \<le> 8192"
  shows "case free_bit (bval s D (BBLOCK 0 (sb s))) (unat (sb_size (sb s))) of
      None \<Rightarrow> balloc D s = Panic ''balloc: out of blocks''
    | Some bi \<Rightarrow> \<exists>t. balloc D s = Ok (of_nat bi) t \<and> txn D (Suc (Suc k)) t \<and> homes t = {of_nat bi, BBLOCK 0 (sb s)} \<union> homes s \<and>
        bval t D = (bval s D)(BBLOCK 0 (sb s) := set_bitmap (bval s D (BBLOCK 0 (sb s))) bi, of_nat bi := replicate BSIZE 0) \<and>
        disk t = disk s \<and> dwrites t = dwrites s"
proof (cases "free_bit (bval s D (BBLOCK 0 (sb s))) (unat (sb_size (sb s)))")
  case None
  have "some_free s" "k < 2 ^ 31" using assms(2,3) by (auto simp: two_free_def)
  then show ?thesis using balloc_full [OF assms(1) _ _ assms(6) None] None by simp
next
  case (Some bi)
  then show ?thesis using balloc_found [OF assms Some] by simp
qed

end
