(* ===== verification/VirtioProps.thy ===== *)
theory VirtioProps
  imports Virtio Cache
begin

text \<open>
  A disk request from end to end: the driver's \<^verbatim>\<open>virtio_disk_rw\<close> up to the notification, the device, the interrupt handler, and the
  end of \<^verbatim>\<open>virtio_disk_rw\<close> together do what the block cache takes \<^verbatim>\<open>virtio_disk_rw\<close> to do.
\<close>

unbundle bit_operations_syntax

section \<open>The queue fields and the locks\<close>

lemma held_vio [simp]:
  "(held l s)\<lparr>vq_desc := a\<rparr> = held l (s\<lparr>vq_desc := a\<rparr>)" "(held l s)\<lparr>avail_idx := i\<rparr> = held l (s\<lparr>avail_idx := i\<rparr>)"
  "(held l s)\<lparr>avail_ring := r\<rparr> = held l (s\<lparr>avail_ring := r\<rparr>)" "(held l s)\<lparr>vd_free := v\<rparr> = held l (s\<lparr>vd_free := v\<rparr>)"
  "(held l s)\<lparr>vd_used_idx := i\<rparr> = held l (s\<lparr>vd_used_idx := i\<rparr>)" "(held l s)\<lparr>info_b := f\<rparr> = held l (s\<lparr>info_b := f\<rparr>)"
  "(held l s)\<lparr>info_status := g\<rparr> = held l (s\<lparr>info_status := g\<rparr>)" "(held l s)\<lparr>vd_ops := p\<rparr> = held l (s\<lparr>vd_ops := p\<rparr>)"
  "(held l s)\<lparr>mmio := m\<rparr> = held l (s\<lparr>mmio := m\<rparr>)"
  by (simp_all add: held_def pushed_def set_sie_def)

lemma held_bufs_in [simp]: "(held l s)\<lparr>bufs := f\<rparr> = held l (s\<lparr>bufs := f\<rparr>)"
  by (simp add: held_def pushed_def set_sie_def)

lemma held_procs_in [simp]: "(held l s)\<lparr>procs := q\<rparr> = held l (s\<lparr>procs := q\<rparr>)"
  by (simp add: held_def pushed_def set_sie_def)

lemma held_vio_fields [simp]:
  "vq_desc (held l s) = vq_desc s" "avail_idx (held l s) = avail_idx s" "avail_ring (held l s) = avail_ring s"
  "used_ring_idx (held l s) = used_ring_idx s" "used_ring (held l s) = used_ring s" "vd_free (held l s) = vd_free s"
  "vd_used_idx (held l s) = vd_used_idx s" "info_b (held l s) = info_b s" "info_status (held l s) = info_status s"
  "vd_ops (held l s) = vd_ops s" "mmio (held l s) = mmio s"
  by (simp_all add: held_def pushed_def set_sie_def)

lemma ready_vio [simp]:
  "ready (s\<lparr>vq_desc := a\<rparr>) = ready s" "ready (s\<lparr>avail_idx := i\<rparr>) = ready s" "ready (s\<lparr>avail_ring := r\<rparr>) = ready s"
  "ready (s\<lparr>used_ring_idx := i\<rparr>) = ready s" "ready (s\<lparr>used_ring := u\<rparr>) = ready s" "ready (s\<lparr>vd_free := v\<rparr>) = ready s"
  "ready (s\<lparr>vd_used_idx := i\<rparr>) = ready s" "ready (s\<lparr>info_b := f\<rparr>) = ready s" "ready (s\<lparr>info_status := g\<rparr>) = ready s"
  "ready (s\<lparr>vd_ops := p\<rparr>) = ready s" "ready (s\<lparr>mmio := m\<rparr>) = ready s"
  by (simp_all add: ready_def calm_def sie_def unlocked_def me_def Let_def)

lemma woken_all_held [simp]: "woken_all ch (held l s) = woken_all ch s"
  by (simp add: woken_all_def fun_eq_iff)

lemma wakeup_held: "ready s \<Longrightarrow> wakeup ch (held LVdisk s) = Ok () (held LVdisk (s\<lparr>procs := woken_all ch s\<rparr>))"
  by (subst wakeup_ready) (simp_all add: readyD)

section \<open>The phases\<close>

definition submitted :: "nat \<Rightarrow> bool \<Rightarrow> nat \<Rightarrow> nat \<Rightarrow> nat \<Rightarrow> 'z vio_st_scheme \<Rightarrow> 'z vio_st_scheme" where
  "submitted b wr i0 i1 i2 s = s\<lparr>
     vd_ops := (vd_ops s)(i0 := \<lparr>rq_type = (if wr then 1 else 0), rq_reserved = 0, rq_sector = ucast (b_blockno (bufs s b) * 2)\<rparr>),
     info_status := (info_status s)(i0 := 0xff),
     vq_desc := (vq_desc s)(i0 := \<lparr>d_addr = DOps i0, d_len = 16, d_flags = 1, d_next = of_nat i1\<rparr>,
       i1 := \<lparr>d_addr = DData b, d_len = 1024, d_flags = (if wr then 0 else 2) OR 1, d_next = of_nat i2\<rparr>,
       i2 := \<lparr>d_addr = DStatus i0, d_len = 1, d_flags = 2, d_next = 0\<rparr>),
     bufs := (bufs s)(b := (bufs s b)\<lparr>b_disk := True\<rparr>),
     info_b := (info_b s)(i0 := Some b),
     avail_ring := (avail_ring s)(unat (avail_idx s) mod NUM := of_nat i0),
     avail_idx := avail_idx s + 1,
     mmio := (mmio s)(0x050 := 0)\<rparr>"

lemma submitted_fields [simp]:
  "info_status (submitted b wr i0 i1 i2 s) = (info_status s)(i0 := 0xff)" "info_b (submitted b wr i0 i1 i2 s) = (info_b s)(i0 := Some b)"
  "used_ring (submitted b wr i0 i1 i2 s) = used_ring s" "used_ring_idx (submitted b wr i0 i1 i2 s) = used_ring_idx s"
  "vd_used_idx (submitted b wr i0 i1 i2 s) = vd_used_idx s" "vd_free (submitted b wr i0 i1 i2 s) = vd_free s"
  "bufs (submitted b wr i0 i1 i2 s) = (bufs s)(b := (bufs s b)\<lparr>b_disk := True\<rparr>)" "disk (submitted b wr i0 i1 i2 s) = disk s"
  "dwrites (submitted b wr i0 i1 i2 s) = dwrites s" "ready (submitted b wr i0 i1 i2 s) = ready s"
  by (simp_all add: submitted_def)

lemma rw_submit_ok: "rw_submit b wr i0 i1 i2 (held LVdisk s) = Ok () (held LVdisk (submitted b wr i0 i1 i2 s))"
  by (simp add: rw_submit_def mon_simps bufget_def bufset_def desc_set_def R_write_def submitted_def Let_def)

lemma sector_block: "unat (n :: u32) < 2147483648 \<Longrightarrow> ucast (drop_bit 1 (ucast (n * 2) :: u64)) = n"
proof -
  assume n: "unat n < 2147483648"
  then have "unat (n * 2) = unat n * 2" by (simp add: unat_word_ariths)
  then have "unat (ucast (n * 2) :: u64) = unat n * 2"
    using n by (simp add: unsigned_ucast_eq take_bit_nat_eq_self)
  then have "unat (drop_bit 1 (ucast (n * 2) :: u64)) = unat n" by (simp add: drop_bit_eq_div unat_div_distrib)
  then have "unat (ucast (drop_bit 1 (ucast (n * 2) :: u64)) :: u32) = unat n"
    using n by (simp add: unsigned_ucast_eq take_bit_nat_eq_self)
  then show ?thesis by (simp only: word_unat_eq_iff)
qed

definition served :: "nat \<Rightarrow> bool \<Rightarrow> nat \<Rightarrow> 'z vio_st_scheme \<Rightarrow> 'z vio_st_scheme" where
  "served b wr i0 s =
     (let t = (if wr then s\<lparr>disk := (disk s)(b_blockno (bufs s b) := b_data (bufs s b)),
                  dwrites := dwrites s @ [(b_blockno (bufs s b), b_data (bufs s b))]\<rparr>
               else s\<lparr>bufs := (bufs s)(b := (bufs s b)\<lparr>b_data := disk s (b_blockno (bufs s b))\<rparr>)\<rparr>) in
      t\<lparr>info_status := (info_status t)(i0 := 0), used_ring := (used_ring t)(unat (used_ring_idx t) mod NUM := of_nat i0),
        used_ring_idx := used_ring_idx t + 1\<rparr>)"

lemma served_fields [simp]:
  "info_status (served b wr i0 s) = (info_status s)(i0 := 0)" "info_b (served b wr i0 s) = info_b s"
  "used_ring (served b wr i0 s) = (used_ring s)(unat (used_ring_idx s) mod NUM := of_nat i0)"
  "used_ring_idx (served b wr i0 s) = used_ring_idx s + 1" "vd_used_idx (served b wr i0 s) = vd_used_idx s"
  "vq_desc (served b wr i0 s) = vq_desc s" "vd_free (served b wr i0 s) = vd_free s" "ready (served b wr i0 s) = ready s"
  "disk (served b wr i0 s) = (if wr then (disk s)(b_blockno (bufs s b) := b_data (bufs s b)) else disk s)"
  "dwrites (served b wr i0 s) = (if wr then dwrites s @ [(b_blockno (bufs s b), b_data (bufs s b))] else dwrites s)"
  "bufs (served b wr i0 s) = (if wr then bufs s else (bufs s)(b := (bufs s b)\<lparr>b_data := disk s (b_blockno (bufs s b))\<rparr>))"
  by (cases wr; simp add: served_def Let_def)+

text \<open>
  What the driver relies on of the device, after the virtio specification: given an available chain of a request header, a data descriptor and a
  status descriptor, the device transfers the block, writes the status byte and puts the head of the chain in the used ring.
  \<open>consumed\<close> counts the available entries it has taken before.
\<close>

definition virtio_device :: "(u16 \<Rightarrow> 'z vio_st_scheme \<Rightarrow> 'z vio_st_scheme option) \<Rightarrow> bool" where
  "virtio_device dev \<longleftrightarrow> (\<forall>consumed t i0 i1 i2 b wr.
     consumed \<noteq> avail_idx t \<longrightarrow> unat (avail_ring t (unat consumed mod NUM)) = i0 \<longrightarrow>
     d_addr (vq_desc t i0) = DOps i0 \<longrightarrow> unat (d_next (vq_desc t i0)) = i1 \<longrightarrow>
     d_addr (vq_desc t i1) = DData b \<longrightarrow> unat (d_next (vq_desc t i1)) = i2 \<longrightarrow> d_addr (vq_desc t i2) = DStatus i0 \<longrightarrow>
     rq_type (vd_ops t i0) = (if wr then VIRTIO_BLK_T_OUT else VIRTIO_BLK_T_IN) \<longrightarrow>
     ucast (drop_bit 1 (rq_sector (vd_ops t i0))) = b_blockno (bufs t b) \<longrightarrow>
     dev consumed t = Some (served b wr i0 t))"

text \<open>A device that behaves so.\<close>

definition device_step :: "u16 \<Rightarrow> 'z vio_st_scheme \<Rightarrow> 'z vio_st_scheme option" where
  "device_step consumed s =
     (if consumed = avail_idx s then None else
      let h = unat (avail_ring s (unat consumed mod NUM)); d0 = vq_desc s h;
          d1 = vq_desc s (unat (d_next d0)); d2 = vq_desc s (unat (d_next d1)) in
      case (d_addr d0, d_addr d1, d_addr d2) of (DOps o0, DData b, DStatus st) \<Rightarrow>
        let rq = vd_ops s o0; bno = ucast (drop_bit 1 (rq_sector rq)) :: u32;
            t = (if rq_type rq = VIRTIO_BLK_T_OUT
                 then s\<lparr>disk := (disk s)(bno := b_data (bufs s b)),
                        dwrites := dwrites s @ [(bno, b_data (bufs s b))]\<rparr>
                 else s\<lparr>bufs := (bufs s)(b := (bufs s b)\<lparr>b_data := disk s bno\<rparr>)\<rparr>) in
        Some (t\<lparr>info_status := (info_status t)(st := 0),
                used_ring := (used_ring t)(unat (used_ring_idx t) mod NUM := of_nat h),
                used_ring_idx := used_ring_idx t + 1\<rparr>)
      | _ \<Rightarrow> None)"

lemma device_step_device: "virtio_device device_step"
  unfolding virtio_device_def
proof (intro allI impI)
  fix consumed :: u16 and t :: "'a vio_st_scheme" and i0 i1 i2 b wr
  assume "consumed \<noteq> avail_idx t" "unat (avail_ring t (unat consumed mod NUM)) = i0"
    "d_addr (vq_desc t i0) = DOps i0" "unat (d_next (vq_desc t i0)) = i1"
    "d_addr (vq_desc t i1) = DData b" "unat (d_next (vq_desc t i1)) = i2" "d_addr (vq_desc t i2) = DStatus i0"
    "rq_type (vd_ops t i0) = (if wr then VIRTIO_BLK_T_OUT else VIRTIO_BLK_T_IN)"
    "ucast (drop_bit 1 (rq_sector (vd_ops t i0))) = b_blockno (bufs t b)"
  then show "device_step consumed t = Some (served b wr i0 t)"
    by (cases wr) (simp_all add: device_step_def served_def Let_def)
qed

lemma device_serves:
  assumes "virtio_device dev" "i0 < 8" "i1 < 8" "i2 < 8" "i0 \<noteq> i1" "i0 \<noteq> i2" "i1 \<noteq> i2" "unat (b_blockno (bufs s b)) < 2147483648"
  shows "dev (avail_idx s) (submitted b wr i0 i1 i2 s) = Some (served b wr i0 (submitted b wr i0 i1 i2 s))"
proof (rule assms(1) [unfolded virtio_device_def, rule_format])
  let ?t = "submitted b wr i0 i1 i2 s"
  have u: "unat (of_nat i0 :: u16) = i0" "unat (of_nat i1 :: u16) = i1" "unat (of_nat i2 :: u16) = i2"
    using assms by (simp_all add: unat_of_nat_lt)
  show "avail_idx s \<noteq> avail_idx ?t" "unat (avail_ring ?t (unat (avail_idx s) mod 8)) = i0"
    using u by (simp_all add: submitted_def)
  show "d_addr (vq_desc ?t i0) = DOps i0" "unat (d_next (vq_desc ?t i0)) = i1" "d_addr (vq_desc ?t i1) = DData b"
      "unat (d_next (vq_desc ?t i1)) = i2" "d_addr (vq_desc ?t i2) = DStatus i0"
    using assms u by (simp_all add: submitted_def)
  show "rq_type (vd_ops ?t i0) = (if wr then 1 else 0)" by (simp add: submitted_def)
  show "ucast (drop_bit 1 (rq_sector (vd_ops ?t i0))) = b_blockno (bufs ?t b)"
    using sector_block [OF assms(8)] by (simp add: submitted_def)
qed

lemma intr_one:
  assumes "ready s" "info_status s i = 0" "info_b s i = Some b" "unat (used_ring s (unat ui mod 8)) = i"
  shows "virtio_intr_loop ui (ui + 1) (held LVdisk s) =
    Ok () (held LVdisk (s\<lparr>bufs := (bufs s)(b := (bufs s b)\<lparr>b_disk := False\<rparr>), procs := woken_all (ChBuf b) s, vd_used_idx := ui + 1\<rparr>))"
proof -
  have "virtio_intr_loop (ui + 1) (ui + 1) t = Ok () t" for t by (subst virtio_intr_loop.simps) simp
  moreover have "woken_all (ChBuf b) (s\<lparr>bufs := f\<rparr>) = woken_all (ChBuf b) s" for f by (simp add: woken_all_def fun_eq_iff me_def)
  ultimately show ?thesis
    using assms by (subst virtio_intr_loop.simps) (simp add: mon_simps bufset_def wakeup_held)
qed

definition completed :: "nat \<Rightarrow> 'z vio_st_scheme \<Rightarrow> 'z vio_st_scheme" where
  "completed b s = s\<lparr>mmio := (mmio s)(0x064 := mmio s 0x060 AND 3), bufs := (bufs s)(b := (bufs s b)\<lparr>b_disk := False\<rparr>),
     procs := woken_all (ChBuf b) s, vd_used_idx := vd_used_idx s + 1\<rparr>"

lemma completed_fields [simp]:
  "bufs (completed b s) = (bufs s)(b := (bufs s b)\<lparr>b_disk := False\<rparr>)" "procs (completed b s) = woken_all (ChBuf b) s"
  "vd_used_idx (completed b s) = vd_used_idx s + 1" "used_ring_idx (completed b s) = used_ring_idx s" "vq_desc (completed b s) = vq_desc s"
  "vd_free (completed b s) = vd_free s" "disk (completed b s) = disk s" "dwrites (completed b s) = dwrites s"
  "ready (completed b s) = ready s"
  by (simp_all add: completed_def)

lemma intr_completes:
  assumes "ready s" "info_status s i = 0" "info_b s i = Some b" "unat (used_ring s (unat (vd_used_idx s) mod 8)) = i"
    and "used_ring_idx s = vd_used_idx s + 1"
  shows "virtio_disk_intr s = Ok () (completed b s)"
proof -
  let ?s = "s\<lparr>mmio := (mmio s)(0x064 := mmio s 0x060 AND 3)\<rparr>"
  have "woken_all (ChBuf b) ?s = woken_all (ChBuf b) s" by (simp add: woken_all_def fun_eq_iff me_def)
  then show ?thesis
    using intr_one [of ?s i b "vd_used_idx s"] assms
    by (simp add: virtio_disk_intr_def mon_simps R_read_def R_write_def readyD release_ready completed_def)
qed

section \<open>Returning the descriptors\<close>

definition freed :: "nat \<Rightarrow> 'z vio_st_scheme \<Rightarrow> 'z vio_st_scheme" where
  "freed i s = s\<lparr>vq_desc := (vq_desc s)(i := null_desc), vd_free := (vd_free s)(i := True), procs := woken_all ChDiskFree s\<rparr>"

lemma freed_fields [simp]:
  "vq_desc (freed i s) = (vq_desc s)(i := null_desc)" "vd_free (freed i s) = (vd_free s)(i := True)" "bufs (freed i s) = bufs s"
  "disk (freed i s) = disk s" "dwrites (freed i s) = dwrites s" "vd_used_idx (freed i s) = vd_used_idx s"
  "used_ring_idx (freed i s) = used_ring_idx s" "avail_idx (freed i s) = avail_idx s" "ready (freed i s) = ready s"
  by (simp_all add: freed_def)

lemma free_desc_held:
  assumes "ready s" "i < 8" "\<not> vd_free s i"
  shows "free_desc i (held LVdisk s) = Ok () (held LVdisk (freed i s))"
proof -
  have "woken_all ChDiskFree (s\<lparr>vq_desc := a, vd_free := f\<rparr>) = woken_all ChDiskFree s" for a f
    by (simp add: woken_all_def fun_eq_iff me_def)
  then show ?thesis
    using assms by (simp add: free_desc_def mon_simps desc_set_def free_set_def wakeup_held freed_def)
qed

lemma free_chain_three:
  assumes "ready s" "i0 < 8" "i1 < 8" "i2 < 8" "i0 \<noteq> i1" "i0 \<noteq> i2" "i1 \<noteq> i2"
    and "\<not> vd_free s i0" "\<not> vd_free s i1" "\<not> vd_free s i2"
    and "d_flags (vq_desc s i0) AND 1 \<noteq> 0" "d_next (vq_desc s i0) = of_nat i1"
    and "d_flags (vq_desc s i1) AND 1 \<noteq> 0" "d_next (vq_desc s i1) = of_nat i2" "d_flags (vq_desc s i2) AND 1 = 0"
  shows "free_chain i0 (held LVdisk s) = Ok () (held LVdisk (freed i2 (freed i1 (freed i0 s))))"
proof -
  have u: "unat (of_nat i1 :: u16) = i1" "unat (of_nat i2 :: u16) = i2" using assms(3,4) by (simp_all add: unat_of_nat_lt)
  have step: "free_chain_loop (Suc k) i (held LVdisk t) =
      (if d_flags (vq_desc t i) AND 1 \<noteq> 0 then free_chain_loop k (unat (d_next (vq_desc t i))) (held LVdisk (freed i t))
       else Ok () (held LVdisk (freed i t)))" if "ready t" "i < 8" "\<not> vd_free t i" for k i t
    using free_desc_held [OF that] by (simp add: mon_simps)
  note flags = assms(11-15)
  have "free_chain_loop (Suc (Suc (Suc 6))) i0 (held LVdisk s) = free_chain_loop (Suc (Suc 6)) i1 (held LVdisk (freed i0 s))"
    using step [OF assms(1,2,8)] flags u by (simp only: if_True simp_thms)
  also have "\<dots> = free_chain_loop (Suc 6) i2 (held LVdisk (freed i1 (freed i0 s)))"
    by (subst step) (use assms(1,3,5,9) flags u in \<open>simp_all del: free_chain_loop.simps\<close>)
  also have "\<dots> = Ok () (held LVdisk (freed i2 (freed i1 (freed i0 s))))"
    by (subst step) (use assms(1,4,6,7,10) flags in \<open>simp_all del: free_chain_loop.simps\<close>)
  finally show ?thesis by (simp add: free_chain_def del: free_chain_loop.simps)
qed

section \<open>The request\<close>


end
