(* ===== verification/LogWitness.thy ===== *)
theory LogWitness
  imports Zero CacheProps LogProps FsBlocks VirtioProps
begin

text \<open>
  Concrete states for the theorems on the cache and the log: a machine with a freshly linked cache whose disk has an
  empty log at block 2, and the same machine in the middle of a transaction that has modified block 45.
\<close>

unbundle bit_operations_syntax

definition linked :: "nat \<Rightarrow> buf" where
  "linked b = zero_buf\<lparr>b_next := (if b = 0 then bhead else b - 1), b_prev := (if b = bhead then 0 else b + 1)\<rparr>"

lemma linked_lseg: "n \<le> bhead \<Longrightarrow> lseg (nexts linked) (prevs linked) (n # rev [0..<n] @ [bhead])"
proof (induction n)
  case 0
  then show ?case by (simp add: linked_def)
next
  case (Suc n)
  then have "lseg (nexts linked) (prevs linked) (n # rev [0..<n] @ [bhead])" by simp
  moreover have "rev [0..<Suc n] @ [bhead] = n # rev [0..<n] @ [bhead]" by simp
  moreover have "b_next (linked (Suc n)) = n" "b_prev (linked n) = Suc n" using Suc.prems by (simp_all add: linked_def)
  ultimately show ?case by simp
qed

lemma linked_lru: "lru linked (rev [0..<NBUF])"
  using linked_lseg [of bhead] by (simp add: lru_def ring_def del: lseg.simps)

lemma le_word_zeros [simp]: "le_word (replicate n 0) = 0"
  by (induction n) simp_all

text \<open>All blocks are zero, which is an empty header.\<close>

definition fresh_cache :: boot_st where
  "fresh_cache = running_state\<lparr>bufs := linked, disk := (\<lambda>_. replicate BSIZE 0), log_start := 2, log_size := 30, log_dev := 1\<rparr>"

lemma running_ready: "ready running_state"
  using running_state_calm by (simp add: ready_def running_state_def) (simp add: zero_state_def zero_mach_def unlocked_def zero_lock_def)

lemma fresh_ready: "ready fresh_cache" "log_dev fresh_cache = 1" "log_start fresh_cache = 2" "bufs fresh_cache = linked"
  using running_ready by (auto simp: fresh_cache_def ready_def calm_def sie_def unlocked_def me_def Let_def)

lemma linked_fields [simp]: "\<not> b_valid (linked b)" "b_dev (linked b) = 0" "b_refcnt (linked b) = 0"
  by (simp_all add: linked_def zero_buf_def)

lemma fresh_sleeplocks: "sleeplocks fresh_cache k = \<lparr>sl_locked = False, sl_name = [], sl_pid = 0\<rparr>"
  by (simp add: fresh_cache_def running_state_def zero_state_def)

lemma fresh_bst: "bst 1 {} {} (fresh_cache\<lparr>disk := d\<rparr>)"
  using linked_lru fresh_ready fresh_sleeplocks by (auto simp: bst_def binv_def caches_def)

lemma fresh_booted: "booted 1 2 d (fresh_cache\<lparr>disk := d\<rparr>)"
proof -
  have "two_free (fresh_cache\<lparr>disk := d\<rparr>)"
    unfolding two_free_def by (rule exI [of _ 0], simp add: fresh_ready, rule exI [of _ 1], simp)
  then show ?thesis using fresh_bst fresh_ready by (simp add: booted_def small_refs_def)
qed

text \<open>Buffer 0 holds the new contents of block 45 and is pinned.\<close>

definition dirty_buf :: buf where
  "dirty_buf = (linked 0)\<lparr>b_valid := True, b_dev := 1, b_blockno := 45, b_refcnt := 1, b_data := replicate BSIZE 7\<rparr>"

definition mid_txn :: boot_st where
  "mid_txn = fresh_cache\<lparr>bufs := linked(0 := dirty_buf), lh_n := 1, lh_block := (\<lambda>_. 45), log_outstanding := 1\<rparr>"

lemma mid_simps: "log_dev mid_txn = 1" "log_start mid_txn = 2" "lh_n mid_txn = 1" "lh_block mid_txn i = 45" "log_size mid_txn = 30"
    "bufs mid_txn = linked(0 := dirty_buf)" "disk mid_txn = (\<lambda>_. replicate BSIZE 0)" "sleeplocks mid_txn = sleeplocks fresh_cache"
    "log_outstanding mid_txn = 1" "log_committing mid_txn = False" "ready mid_txn"
  using fresh_ready(1)
  by (simp_all add: mid_txn_def) (simp_all add: fresh_cache_def running_state_def zero_state_def)

lemma mid_lru: "lru (bufs mid_txn) (rev [0..<NBUF])"
  unfolding mid_simps using linked_lru by (subst lru_cong [of _ linked]) (simp_all add: dirty_buf_def)

lemma mid_bst: "bst 1 {45} {} mid_txn"
proof -
  have "caches (linked(0 := dirty_buf)) 1 x b = (b = 0 \<and> x = 45)" for x b
    by (auto simp: caches_def dirty_buf_def)
  then have "binv 1 {45} mid_txn"
    using mid_lru by (auto simp: binv_def mid_simps dirty_buf_def)
  then show ?thesis by (simp add: bst_def mid_simps fresh_sleeplocks)
qed

lemma mid_commit_pre: "commit_pre mid_txn"
proof -
  have "45 \<notin> log_area 2" by (simp add: log_area_def) code_simp
  moreover have "some_free mid_txn" by (intro exI [of _ 1]) (simp add: mid_simps)
  moreover have "small_refs mid_txn" by (simp add: small_refs_def mid_simps dirty_buf_def)
  moreover have "get32 (replicate BSIZE 0) 0 = 0" by (simp add: get32_def)
  ultimately show ?thesis using mid_bst by (simp add: commit_pre_def mid_simps)
qed

lemma mid_bval: "bval mid_txn 1 45 = replicate BSIZE 7"
  using bval_cached [OF bstD(2) [OF mid_bst], of 45 0] by (simp add: mid_simps caches_def dirty_buf_def)

text \<open>A transaction that has just begun; the bitmap in block 45 has the first eight blocks in use.\<close>

definition begun_txn :: boot_st where
  "begun_txn = fresh_cache\<lparr>disk := (\<lambda>_. replicate BSIZE 0)(45 := 255 # replicate 1023 0), log_outstanding := 1,
    sb := (sb fresh_cache)\<lparr>sb_size := 1000, sb_bmapstart := 45\<rparr>\<rparr>"

lemma begun_simps: "lh_n begun_txn = 0" "log_size begun_txn = 30" "log_outstanding begun_txn = 1" "bufs begun_txn = linked"
    "disk begun_txn = (\<lambda>_. replicate BSIZE 0)(45 := 255 # replicate 1023 0)" "sleeplocks begun_txn = sleeplocks fresh_cache"
    "sb_size (sb begun_txn) = 1000" "BBLOCK 0 (sb begun_txn) = 45"
  by (simp_all add: begun_txn_def BBLOCK_def) (simp_all add: fresh_cache_def running_state_def zero_state_def)

lemma begun_ready: "ready begun_txn"
  using fresh_ready(1) by (auto simp: begun_txn_def ready_def calm_def sie_def unlocked_def me_def Let_def)

lemma begun_bst: "bst 1 {} {} begun_txn"
  using linked_lru begun_ready by (auto simp: bst_def binv_def caches_def begun_simps fresh_sleeplocks)

lemma begun_bitmap: "bval begun_txn 1 45 = 255 # replicate 1023 0"
  using bval_clean [OF bstD(2) [OF begun_bst], of 45] by (simp add: begun_simps)

lemma begun_free: "free_bit (255 # replicate 1023 0) 1000 = Some 8"
proof -
  have "bit_of (255 # r) j" if "j < 8" for r j
  proof -
    have "list_all (\<lambda>j. (255 :: u8) AND push_bit j 1 \<noteq> 0) [0..<8]" by code_simp
    then show ?thesis using that by (simp add: bit_of_def list_all_iff)
  qed
  moreover have "\<not> bit_of (255 # replicate 1023 0) 8" by (simp add: bit_of_def)
  ultimately show ?thesis unfolding free_bit_def find_Some_iff by (intro exI [of _ 8]) simp
qed

section \<open>Witnesses\<close>

theorem balloc_allocates_witness:
  "\<exists>t. balloc 1 begun_txn = Ok 8 t \<and> homes t = {8, 45} \<and> bval t 1 45 = set_bitmap (255 # replicate 1023 0) 8 \<and> disk t = disk begun_txn"
proof -
  have h: "homes begun_txn = {}" by (simp add: begun_simps)
  have "txn 1 1 begun_txn" using begun_bst by (simp add: txn_def begun_simps)
  moreover have "two_free begun_txn"
    unfolding two_free_def by (rule exI [of _ 0], simp add: begun_simps, rule exI [of _ 1], simp)
  moreover have "may_log begun_txn" "may_log (begun_txn\<lparr>lh_n := lh_n begun_txn + 1\<rparr>)" by (simp_all add: may_log_def begun_simps)
  ultimately obtain t where "balloc 1 begun_txn = Ok 8 t" "homes t = {8, 45} \<union> homes begun_txn" "disk t = disk begun_txn"
    "bval t 1 = (bval begun_txn 1)(45 := set_bitmap (255 # replicate 1023 0) 8, 8 := replicate BSIZE 0)"
    using balloc_allocates [of 1 1 begun_txn] by (auto simp: begun_simps(7,8) begun_bitmap begun_free)
  then show ?thesis using h by auto
qed

theorem commit_installs_witness: "\<exists>t. commit mid_txn = Ok () t \<and> lh_n t = 0 \<and> disk t 45 = replicate BSIZE 7"
proof -
  have "45 \<notin> log_area 2" by (simp add: log_area_def) code_simp
  then show ?thesis using commit_installs [OF mid_commit_pre] mid_bval by (auto simp: mid_simps)
qed

theorem commit_crash_atomic_witness:
  "\<exists>t W. commit mid_txn = Ok () t \<and> dwrites t = dwrites mid_txn @ W \<and>
    (\<exists>u. recover_from_log (fresh_cache\<lparr>disk := apply_ws (disk mid_txn) (take 2 W)\<rparr>) = Ok () u \<and> disk u 45 = replicate BSIZE 7)"
proof -
  have "45 \<notin> log_area 2" by (simp add: log_area_def) code_simp
  moreover obtain t W where t: "commit mid_txn = Ok () t" "dwrites t = dwrites mid_txn @ W"
    and r: "\<forall>k (r :: boot_st). booted 1 2 (apply_ws (disk mid_txn) (take k W)) r \<longrightarrow>
      (\<exists>u. recover_from_log r = Ok () u \<and>
        (\<forall>x. x \<in> log_area 2 \<or> disk u x = (if k \<le> nat 1 then disk mid_txn x else bval mid_txn 1 x)))"
    using commit_crash_atomic [OF mid_commit_pre] unfolding mid_simps by blast
  ultimately show ?thesis using r [rule_format, OF fresh_booted, of 2] mid_bval by fastforce
qed

theorem recovery_crash_idempotent_witness:
  "booted 1 2 (disk fresh_cache) fresh_cache \<and> valid_log 2 (disk fresh_cache) \<and> (\<exists>u. recover_from_log fresh_cache = Ok () u)"
proof -
  have b: "booted 1 2 (disk fresh_cache) fresh_cache" using fresh_booted [of "disk fresh_cache"] by simp
  moreover have v: "valid_log 2 (disk fresh_cache)"
    by (simp add: valid_log_def hdr_n_def fresh_cache_def get32_def)
  ultimately show ?thesis using recovery_crash_idempotent [OF b v] by blast
qed


theorem bread_coherent_witness:
  "bst 1 {45} {} mid_txn \<and> (\<exists>b t. bread 1 45 mid_txn = Ok b t \<and> b_data (bufs t b) = replicate BSIZE 7)"
proof -
  have "\<exists>b. caches (bufs mid_txn) 1 45 b" by (intro exI [of _ 0]) (simp add: mid_simps caches_def dirty_buf_def)
  moreover have "b_refcnt (bufs mid_txn b) + 1 \<noteq> 0" for b by (simp add: mid_simps dirty_buf_def)
  ultimately show ?thesis using bread_coherent [OF mid_bst, of 45] mid_bst mid_bval by auto
qed

text \<open>The same transaction with the buffer locked by process 0, which is running.\<close>

definition writing_txn :: boot_st where
  "writing_txn = mid_txn\<lparr>sleeplocks := (sleeplocks mid_txn)(SlBuf 0 := \<lparr>sl_locked = True, sl_name = [], sl_pid = mypid mid_txn\<rparr>), lh_n := 0\<rparr>"

lemma writing_simps: "ready writing_txn" "bufs writing_txn = bufs mid_txn" "lh_n writing_txn = 0" "lh_block writing_txn = lh_block mid_txn"
    "log_size writing_txn = 30" "log_outstanding writing_txn = 1" "mypid writing_txn = mypid mid_txn"
    "sleeplocks writing_txn (SlBuf b) = (if b = 0 then \<lparr>sl_locked = True, sl_name = [], sl_pid = mypid mid_txn\<rparr> else sleeplocks mid_txn (SlBuf b))"
  using mid_simps by (simp_all add: writing_txn_def mypid_def me_def)

lemma writing_bst: "bst 1 {45} {0} writing_txn"
proof -
  have "binv 1 {45} writing_txn" using bstD(2) [OF mid_bst] by (simp add: binv_def writing_txn_def)
  then show ?thesis
    by (simp add: bst_def writing_simps mid_simps fresh_sleeplocks dirty_buf_def)
qed

theorem brelse_lru_witness:
  "lru (bufs writing_txn) (rev [0..<NBUF]) \<and> (\<exists>t. brelse 0 writing_txn = Ok () t \<and> lru (bufs t) (0 # remove1 0 (rev [0..<NBUF])))"
proof -
  have "b_refcnt (bufs writing_txn 0) = 1" by (simp add: writing_simps mid_simps dirty_buf_def)
  then show ?thesis
    using brelse_lru [of writing_txn "rev [0..<NBUF]" 0] mid_lru by (simp add: writing_simps del: upt_rec_numeral remove1.simps) blast
qed


theorem log_write_records_witness:
  "bst 1 {45} {0} writing_txn \<and> may_log writing_txn \<and> (\<exists>t. log_write 0 writing_txn = Ok () t \<and> lh_n t = 1 \<and> homes t = {45})"
proof -
  have m: "may_log writing_txn" by (simp add: may_log_def writing_simps)
  have "b_blockno (bufs writing_txn 0) = 45" "b_refcnt (bufs writing_txn 0) + 1 \<noteq> 0"
    by (simp_all add: writing_simps mid_simps dirty_buf_def)
  then show ?thesis
    using log_write_records [OF writing_bst _ m, of 0] writing_bst m by (auto simp: writing_simps)
qed


theorem end_op_commits_witness: "\<exists>t. end_op mid_txn = Ok () t \<and> log_outstanding t = 0 \<and> disk t 45 = replicate BSIZE 7"
proof -
  have "45 \<notin> log_area 2" by (simp add: log_area_def) code_simp
  then show ?thesis using end_op_commits [OF mid_commit_pre] mid_bval by (auto simp: mid_simps)
qed


end
