(* ===== verification/Ulib.thy ===== *)
theory Ulib
  imports Console
begin

text \<open>
  The C library of the user programs, \<^verbatim>\<open>user/ulib.c\<close> and \<^verbatim>\<open>user/printf.c\<close>, and the pattern matcher
  of \<^verbatim>\<open>user/grep.c\<close>.  A C string is the list of its characters before the terminating NUL, so reading
  \<^verbatim>\<open>*s\<close> at the end of the list gives 0.
\<close>

unbundle bit_operations_syntax

definition ch0 :: "u8 list \<Rightarrow> u8" where
  "ch0 s = (case s of [] \<Rightarrow> 0 | c # cs \<Rightarrow> c)"

lemma ch0_simps [simp]: "ch0 [] = 0" "ch0 (c # cs) = c"
  by (simp_all add: ch0_def)

section \<open>Strings (ulib.c)\<close>

text \<open>\<^verbatim>\<open>strcpy\<close> stores the characters and the NUL at the destination.\<close>

definition ustrcpy :: "memory \<Rightarrow> u64 \<Rightarrow> u8 list \<Rightarrow> memory" where
  "ustrcpy m dst t = write_bytes m dst (t @ [0])"

fun ustrcmp :: "u8 list \<Rightarrow> u8 list \<Rightarrow> int" where
  "ustrcmp p q =
     (if p \<noteq> [] \<and> ch0 p \<noteq> 0 \<and> ch0 p = ch0 q then ustrcmp (tl p) (tl q)
      else uint (ch0 p) - uint (ch0 q))"

declare ustrcmp.simps [simp del]

definition ustrlen :: "u8 list \<Rightarrow> nat" where
  "ustrlen s = length (takeWhile (\<lambda>c. c \<noteq> 0) s)"

text \<open>The suffix starting at the first \<open>c\<close>, or None for the null pointer.\<close>

fun ustrchr :: "u8 list \<Rightarrow> u8 \<Rightarrow> u8 list option" where
  "ustrchr [] c = None"
| "ustrchr (d # ds) c = (if d = 0 then None else if d = c then Some (d # ds) else ustrchr ds c)"

text \<open>\<^verbatim>\<open>n\<close> is an \<^verbatim>\<open>int\<close>; its arithmetic is modelled modulo \<open>2^32\<close>.\<close>

fun atoi_loop :: "u32 \<Rightarrow> u8 list \<Rightarrow> u32" where
  "atoi_loop n [] = n"
| "atoi_loop n (c # cs) = (if 48 \<le> c \<and> c \<le> 57 then atoi_loop (n * 10 + ucast c - 48) cs else n)"

definition atoi :: "u8 list \<Rightarrow> u32" where
  "atoi s = atoi_loop 0 s"

text \<open>
  \<^verbatim>\<open>gets\<close> reads single bytes from the input until the buffer is full, the input ends, or a line
  ends.  The result is what is stored before the NUL, and the rest of the input.
\<close>

fun ugets_loop :: "nat \<Rightarrow> u8 list \<Rightarrow> u8 list \<times> u8 list" where
  "ugets_loop 0 inp = ([], inp)"
| "ugets_loop (Suc k) inp = (case inp of [] \<Rightarrow> ([], [])
     | c # cs \<Rightarrow> if c = 10 \<or> c = 13 then ([c], cs)
         else (let (b, rest) = ugets_loop k cs in (c # b, rest)))"

definition ugets :: "int \<Rightarrow> u8 list \<Rightarrow> u8 list \<times> u8 list" where
  "ugets mx inp = ugets_loop (nat (mx - 1)) inp"

text \<open>The memory routines, with the loops of the kernel's; \<^verbatim>\<open>memmove\<close> chooses its direction by the addresses alone.\<close>

definition umemset :: "memory \<Rightarrow> u64 \<Rightarrow> int \<Rightarrow> u32 \<Rightarrow> memory" where
  "umemset m dst c n = memset_loop m dst (word_of_int c) 0 (unat n)"

definition umemmove :: "memory \<Rightarrow> u64 \<Rightarrow> u64 \<Rightarrow> int \<Rightarrow> memory" where
  "umemmove m dst src n =
     (if src > dst then copy_up m dst src (nat n)
      else copy_down m (dst + word_of_int n) (src + word_of_int n) (nat n))"

definition umemcmp :: "memory \<Rightarrow> u64 \<Rightarrow> u64 \<Rightarrow> u32 \<Rightarrow> int" where
  "umemcmp m s1 s2 n = memcmp_loop m s1 s2 (unat n)"

definition umemcpy :: "memory \<Rightarrow> u64 \<Rightarrow> u64 \<Rightarrow> u32 \<Rightarrow> memory" where
  "umemcpy m dst src n = umemmove m dst src (sint n)"

section \<open>Formatted output (printf.c)\<close>

definition udigits :: "nat \<Rightarrow> u8" where
  "udigits d = (if d < 10 then of_nat (48 + d) else of_nat (55 + d))"

function udigit_loop :: "nat \<Rightarrow> nat \<Rightarrow> u8 list" where
  "udigit_loop x base =
     (if base \<le> 1 then [udigits 0]
      else udigits (x mod base) # (if x div base \<noteq> 0 then udigit_loop (x div base) base else []))"
  by pat_completeness auto
termination
proof (relation "measure (\<lambda>(x, base). x)", goal_cases)
  case (2 x base)
  then show ?case by (cases "x = 0") (auto intro: div_less_dividend)
qed simp

declare udigit_loop.simps [simp del]

definition uprintint :: "u32 \<Rightarrow> nat \<Rightarrow> bool \<Rightarrow> u8 list" where
  "uprintint xx base sg =
     (let neg = (sg \<and> sint xx < 0); x = (if neg then - xx else xx) in
      rev (udigit_loop (unat x) base @ (if neg then [45] else [])))"

definition uprintptr :: "u64 \<Rightarrow> u8 list" where
  "uprintptr x = [48, 120] @ map (\<lambda>i. udigits (unat (drop_bit 60 (push_bit (4 * i) x)))) [0..<16]"

text \<open>
  The conversions of \<^verbatim>\<open>vprintf\<close> that take an argument.  The arguments are those of the kernel's
  \<^verbatim>\<open>printf\<close>; \<^verbatim>\<open>%l\<close> passes an \<^verbatim>\<open>uint64\<close> to an \<^verbatim>\<open>int\<close> parameter and \<^verbatim>\<open>%c\<close> takes the low byte.
\<close>

definition uconv :: "u8 \<Rightarrow> parg \<Rightarrow> u8 list option" where
  "uconv c a =
     (if c = 100 then Some (uprintint (arg_int a) 10 True)
      else if c = 108 then Some (uprintint (ucast (arg_ptr a)) 10 False)
      else if c = 120 then Some (uprintint (arg_int a) 16 False)
      else if c = 112 then Some (uprintptr (arg_ptr a))
      else if c = 115 then Some (arg_str a)
      else if c = 99 then Some [ucast (arg_int a)]
      else None)"

text \<open>
  \<^verbatim>\<open>vprintf\<close> with its two states; the argument \<open>pc\<close> says that the last character was \<^verbatim>\<open>%\<close>.  A
  conversion without an argument is undefined in C; here it is printed as it stands.
\<close>

primrec vprintf :: "u8 list \<Rightarrow> bool \<Rightarrow> parg list \<Rightarrow> u8 list" where
  "vprintf [] pc args = []"
| "vprintf (c # cs) pc args =
     (if \<not> pc then (if c = 37 then vprintf cs True args else c # vprintf cs False args)
      else (case args of
          a # as \<Rightarrow> (case uconv c a of
              Some out \<Rightarrow> out @ vprintf cs False as
            | None \<Rightarrow> (if c = 37 then [37] else [37, c]) @ vprintf cs False args)
        | [] \<Rightarrow> (if c = 37 then [37] else [37, c]) @ vprintf cs False args))"

section \<open>The pattern matcher (grep.c)\<close>

text \<open>
  \<^verbatim>\<open>matchhere\<close> and \<^verbatim>\<open>matchstar\<close> call each other; the loop of \<^verbatim>\<open>matchstar\<close> runs over the text.  Patterns
  and texts contain no NUL.
\<close>

function matchhere :: "u8 list \<Rightarrow> u8 list \<Rightarrow> bool" and matchstar :: "u8 \<Rightarrow> u8 list \<Rightarrow> u8 list \<Rightarrow> bool" where
  "matchhere re tx =
     (if re = [] then True
      else if tl re \<noteq> [] \<and> hd (tl re) = 42 then matchstar (hd re) (tl (tl re)) tx
      else if hd re = 36 \<and> tl re = [] then tx = []
      else if tx \<noteq> [] \<and> (hd re = 46 \<or> hd re = hd tx) then matchhere (tl re) (tl tx)
      else False)"
| "matchstar c re tx =
     (if matchhere re tx then True
      else if tx \<noteq> [] \<and> (hd tx = c \<or> c = 46) then matchstar c re (tl tx)
      else False)"
  by pat_completeness auto
termination
  by (relation "measure (\<lambda>x. case x of Inl (re, tx) \<Rightarrow> length re + length tx
        | Inr (c, re, tx) \<Rightarrow> Suc (length re + length tx))")
     (auto simp flip: length_greater_0_conv)

declare matchhere.simps [simp del] matchstar.simps [simp del]

fun match_loop :: "u8 list \<Rightarrow> u8 list \<Rightarrow> bool" where
  "match_loop re [] = matchhere re []"
| "match_loop re (c # cs) = (matchhere re (c # cs) \<or> match_loop re cs)"

definition match :: "u8 list \<Rightarrow> u8 list \<Rightarrow> bool" where
  "match re tx = (if re \<noteq> [] \<and> hd re = 94 then matchhere (tl re) tx else match_loop re tx)"

text \<open>
  One round of \<^verbatim>\<open>grep\<close> on the buffered bytes: the complete lines that match, each with its newline,
  and the rest after the last newline, which stays in the buffer.
\<close>

fun grep_lines :: "u8 list \<Rightarrow> u8 list \<Rightarrow> u8 list \<Rightarrow> u8 list \<times> u8 list" where
  "grep_lines pat line [] = ([], line)"
| "grep_lines pat line (c # cs) =
     (if c = 10 then (let (out, rest) = grep_lines pat [] cs in ((if match pat line then line @ [10] else []) @ out, rest))
      else grep_lines pat (line @ [c]) cs)"

text \<open>\<^verbatim>\<open>grep\<close> over the successive results of \<^verbatim>\<open>read\<close>; output is what it writes to descriptor 1.\<close>

fun grep :: "u8 list \<Rightarrow> u8 list \<Rightarrow> u8 list list \<Rightarrow> u8 list" where
  "grep pat left [] = []"
| "grep pat left (r # rs) =
     (if r = [] then [] else let (out, rest) = grep_lines pat [] (left @ r) in out @ grep pat rest rs)"

section \<open>What a pattern means\<close>

text \<open>
  A pattern is a sequence of atoms, each a character (\<^verbatim>\<open>.\<close> for any) or a starred character, with
  \<^verbatim>\<open>$\<close> at the very end anchoring it.  \<open>lang\<close> is the set of texts the atoms denote.
\<close>

datatype atom = One u8 | Star u8

fun parse_re :: "u8 list \<Rightarrow> atom list \<times> bool" where
  "parse_re [] = ([], False)"
| "parse_re [c] = (if c = 36 then ([], True) else ([One c], False))"
| "parse_re (c # d # re) =
     (if d = 42 then (case parse_re re of (as, anch) \<Rightarrow> (Star c # as, anch))
      else (case parse_re (d # re) of (as, anch) \<Rightarrow> (One c # as, anch)))"

definition okc :: "u8 \<Rightarrow> u8 \<Rightarrow> bool" where
  "okc c d = (c = 46 \<or> c = d)"

fun lang :: "atom list \<Rightarrow> u8 list set" where
  "lang [] = {[]}"
| "lang (One c # as) = {d # w | d w. okc c d \<and> w \<in> lang as}"
| "lang (Star c # as) = {u @ w | u w. (\<forall>d \<in> set u. okc c d) \<and> w \<in> lang as}"

definition accepts_prefix :: "u8 list \<Rightarrow> u8 list \<Rightarrow> bool" where
  "accepts_prefix re tx = (\<exists>u v. tx = u @ v \<and> u \<in> lang (fst (parse_re re)) \<and> (snd (parse_re re) \<longrightarrow> v = []))"

definition accepts :: "u8 list \<Rightarrow> u8 list \<Rightarrow> bool" where
  "accepts re tx =
     (if re \<noteq> [] \<and> hd re = 94 then accepts_prefix (tl re) tx else \<exists>p t. tx = p @ t \<and> accepts_prefix re t)"

lemma accepts_prefix_Nil: "accepts_prefix [] tx"
  by (simp add: accepts_prefix_def)

lemma accepts_prefix_end: "accepts_prefix [36] tx \<longleftrightarrow> tx = []"
  by (auto simp: accepts_prefix_def)

lemma accepts_prefix_one:
  assumes "re \<noteq> [36]" "tl re = [] \<or> hd (tl re) \<noteq> 42" "re \<noteq> []"
  shows "accepts_prefix re tx \<longleftrightarrow> tx \<noteq> [] \<and> okc (hd re) (hd tx) \<and> accepts_prefix (tl re) (tl tx)"
proof -
  obtain c r where re: "re = c # r" using assms(3) by (auto simp: neq_Nil_conv)
  have p: "parse_re re = (One c # fst (parse_re r), snd (parse_re r))"
  proof (cases r)
    case Nil
    then show ?thesis using assms(1) re by simp
  next
    case (Cons d ds)
    then have "d \<noteq> 42" using assms(2) re by simp
    then show ?thesis using Cons re by (simp split: prod.split)
  qed
  show ?thesis (is "?L \<longleftrightarrow> ?R")
  proof
    assume ?L
    then obtain e w v where "tx = (e # w) @ v" "okc c e" "w \<in> lang (fst (parse_re r))" "snd (parse_re r) \<longrightarrow> v = []"
      unfolding accepts_prefix_def p fst_conv snd_conv lang.simps by blast
    then show ?R unfolding accepts_prefix_def re list.sel by auto
  next
    assume ?R
    then obtain w v where "tx \<noteq> []" "okc c (hd tx)" "tl tx = w @ v" "w \<in> lang (fst (parse_re r))" "snd (parse_re r) \<longrightarrow> v = []"
      unfolding accepts_prefix_def re list.sel by blast
    then have "tx = (hd tx # w) @ v" "hd tx # w \<in> lang (fst (parse_re re))" "snd (parse_re re) \<longrightarrow> v = []"
      unfolding p fst_conv snd_conv lang.simps by (auto simp: neq_Nil_conv)
    then show ?L unfolding accepts_prefix_def by blast
  qed
qed

lemma accepts_prefix_star:
  "accepts_prefix (c # 42 # re) tx \<longleftrightarrow> (\<exists>u v. tx = u @ v \<and> (\<forall>d \<in> set u. okc c d) \<and> accepts_prefix re v)"
proof -
  have p: "fst (parse_re (c # 42 # re)) = Star c # fst (parse_re re)" "snd (parse_re (c # 42 # re)) = snd (parse_re re)"
    by (simp_all split: prod.splits)
  show ?thesis (is "?L \<longleftrightarrow> ?R")
  proof
    assume ?L
    then obtain a w v where "tx = (a @ w) @ v" "\<forall>d \<in> set a. okc c d" "w \<in> lang (fst (parse_re re))"
      "snd (parse_re re) \<longrightarrow> v = []"
      unfolding accepts_prefix_def p lang.simps by blast
    then show ?R unfolding accepts_prefix_def
      by (intro exI [of _ a] exI [of _ "w @ v"] conjI exI [of _ w] exI [of _ v]) simp_all
  next
    assume ?R
    then obtain a w v where "tx = a @ w @ v" "\<forall>d \<in> set a. okc c d" "w \<in> lang (fst (parse_re re))"
      "snd (parse_re re) \<longrightarrow> v = []"
      unfolding accepts_prefix_def by blast
    then show ?L unfolding accepts_prefix_def p
      by (intro exI [of _ "a @ w"] exI [of _ v] conjI) auto
  qed
qed

lemma star_unfold:
  "(\<exists>u v. tx = u @ v \<and> (\<forall>d \<in> set u. okc c d) \<and> P v) \<longleftrightarrow>
     P tx \<or> tx \<noteq> [] \<and> okc c (hd tx) \<and> (\<exists>u v. tl tx = u @ v \<and> (\<forall>d \<in> set u. okc c d) \<and> P v)"
  (is "?L \<longleftrightarrow> ?R")
proof
  assume ?L
  then obtain u v where u: "tx = u @ v" "\<forall>d \<in> set u. okc c d" "P v" by blast
  then show ?R by (cases u) auto
next
  assume ?R
  then show ?L
  proof
    assume "P tx"
    then show ?L by (intro exI [of _ "[]"] exI [of _ tx]) simp
  next
    assume "tx \<noteq> [] \<and> okc c (hd tx) \<and> (\<exists>u v. tl tx = u @ v \<and> (\<forall>d \<in> set u. okc c d) \<and> P v)"
    then obtain u v where "tx \<noteq> []" "okc c (hd tx)" "tl tx = u @ v" "\<forall>d \<in> set u. okc c d" "P v" by blast
    then show ?L by (intro exI [of _ "hd tx # u"] exI [of _ v]) (auto simp: neq_Nil_conv)
  qed
qed

lemma matchhere_accepts:
  "matchhere re tx = accepts_prefix re tx"
  "matchstar c re tx = (\<exists>u v. tx = u @ v \<and> (\<forall>d \<in> set u. okc c d) \<and> accepts_prefix re v)"
proof (induction re tx and c re tx rule: matchhere_matchstar.induct)
  case (1 re tx)
  consider "re = []" | c r where "re = c # 42 # r" | "re = [36]"
    | "re \<noteq> []" "re \<noteq> [36]" "tl re = [] \<or> hd (tl re) \<noteq> 42"
    by (cases re; cases "tl re"; fastforce)
  then show ?case
  proof cases
    case 1
    then show ?thesis by (simp add: matchhere.simps accepts_prefix_Nil)
  next
    case (2 c r)
    then show ?thesis using 1(1) by (subst matchhere.simps) (simp add: accepts_prefix_star)
  next
    case 3
    then show ?thesis by (simp add: matchhere.simps accepts_prefix_end)
  next
    case 4
    have "\<not> (tl re \<noteq> [] \<and> hd (tl re) = 42)" "\<not> (hd re = 36 \<and> tl re = [])"
      using 4 by (cases re; cases "tl re"; auto)+
    then show ?thesis using 1(2) 4
      by (subst matchhere.simps, subst accepts_prefix_one [OF 4(2,3,1)]) (auto simp: okc_def)
  qed
next
  case (2 c re tx)
  show ?case
    using 2 by (subst matchstar.simps, subst star_unfold) (auto simp: okc_def)
qed

lemma match_loop_accepts: "match_loop re tx \<longleftrightarrow> (\<exists>p t. tx = p @ t \<and> accepts_prefix re t)"
proof (induction tx)
  case Nil
  then show ?case by (simp add: matchhere_accepts)
next
  case (Cons c cs)
  show ?case
    by (simp add: Cons matchhere_accepts Cons_eq_append_conv) blast
qed

text \<open>
  C14: the backtracking matcher of \<^verbatim>\<open>grep\<close> decides exactly the texts its pattern denotes: those with
  a substring in the language of the pattern, at the start after \<^verbatim>\<open>^\<close> and up to the end before \<^verbatim>\<open>$\<close>.
\<close>

theorem match_equiv_regexp: "match re tx = accepts re tx"
  by (simp add: match_def accepts_def matchhere_accepts match_loop_accepts)

section \<open>Numbers\<close>

lemma digit_char:
  assumes "d < 10"
  shows "digits d = of_nat (48 + d)" "udigits d = of_nat (48 + d)" "48 \<le> (of_nat (48 + d) :: u8)" "(of_nat (48 + d) :: u8) \<le> 57"
    "ucast (of_nat (48 + d) :: u8) = (of_nat (48 + d) :: u32)"
proof -
  have u: "unat (of_nat (48 + d) :: u8) = 48 + d"
    using assms by (simp only: unat_of_nat) simp
  show "digits d = of_nat (48 + d)" "udigits d = of_nat (48 + d)" using assms by (simp_all add: digits_def udigits_def)
  show "48 \<le> (of_nat (48 + d) :: u8)" "(of_nat (48 + d) :: u8) \<le> 57"
    using assms u by (simp_all add: word_le_nat_alt del: of_nat_add)
  show "ucast (of_nat (48 + d) :: u8) = (of_nat (48 + d) :: u32)"
    using assms u by (simp add: word_eq_unat unsigned_ucast_eq unat_of_nat take_bit_eq_mod del: of_nat_add)
qed

definition is_digit :: "u8 \<Rightarrow> bool" where
  "is_digit c = (48 \<le> c \<and> c \<le> 57)"

lemma atoi_loop_snoc:
  "\<forall>c \<in> set cs. is_digit c \<Longrightarrow> is_digit d \<Longrightarrow> atoi_loop n (cs @ [d]) = atoi_loop n cs * 10 + ucast d - 48"
  by (induction cs arbitrary: n) (simp_all add: is_digit_def)

lemma digit_loop_atoi:
  "(\<forall>c \<in> set (digit_loop x 10). is_digit c) \<and> atoi_loop 0 (rev (digit_loop x 10)) = of_nat x \<and> udigit_loop x 10 = digit_loop x 10"
proof (induction x rule: less_induct)
  case (less x)
  have d: "x mod 10 < 10" by simp
  note dc = digit_char [OF d]
  have dig: "is_digit (digits (x mod 10))" using dc by (simp add: is_digit_def del: of_nat_add)
  have x: "of_nat (x div 10) * 10 + (of_nat (48 + x mod 10)) - 48 = (of_nat x :: u32)"
  proof -
    have "(of_nat x :: u32) = of_nat (x div 10 * 10 + x mod 10)" by simp
    then show ?thesis by (simp only: of_nat_add of_nat_mult) simp
  qed
  show ?case
  proof (cases "x div 10 = 0")
    case True
    then have eq: "digit_loop x 10 = [digits (x mod 10)]" "udigit_loop x 10 = [udigits (x mod 10)]"
      by (subst digit_loop.simps udigit_loop.simps, simp)+
    show ?thesis using dig dc x True unfolding eq by (simp add: is_digit_def del: of_nat_add)
  next
    case False
    then have lt: "x div 10 < x" by (cases "x = 0") auto
    note ih = less [OF lt]
    have eq: "digit_loop x 10 = digits (x mod 10) # digit_loop (x div 10) 10"
      "udigit_loop x 10 = udigits (x mod 10) # udigit_loop (x div 10) 10"
      using False by (subst digit_loop.simps udigit_loop.simps, simp)+
    have "atoi_loop 0 (rev (digit_loop x 10)) = of_nat (x div 10) * 10 + ucast (digits (x mod 10)) - 48"
      unfolding eq using ih dig by (simp add: atoi_loop_snoc)
    then show ?thesis using dig dc ih x unfolding eq by (simp del: of_nat_add)
  qed
qed


lemma digit_loop_length:
  assumes "2 \<le> base" "x < base ^ Suc k"
  shows "length (digit_loop x base) \<le> Suc k"
  using assms(2)
proof (induction k arbitrary: x)
  case 0
  then show ?case using assms(1) by (subst digit_loop.simps) simp
next
  case (Suc k)
  have "x div base < base ^ Suc k"
    using Suc.prems assms(1) by (simp add: less_mult_imp_div_less mult.commute)
  then show ?case using Suc.IH [of "x div base"] assms(1) by (subst digit_loop.simps) simp
qed

text \<open>
  C32: \<^verbatim>\<open>printint\<close> never writes outside its buffer of 16 characters: at most 11 of them, the sign
  included, in base 10, and at most 9 in base 16.
\<close>

theorem printint_fits:
  "length (printint_chars n 10 sign) \<le> 11 \<and> length (printint_chars n 16 sign) \<le> 9"
proof -
  have u: "unat m < 10 ^ Suc 9" "unat m < 16 ^ Suc 7" for m :: u32
    using unat_lt_u32 [of m] by simp_all
  show ?thesis
    using digit_loop_length [OF _ u(1) [of n]] digit_loop_length [OF _ u(1) [of "- n"]]
      digit_loop_length [OF _ u(2) [of n]] digit_loop_length [OF _ u(2) [of "- n"]]
    by (simp add: printint_chars_def Let_def)
qed

end
