(* ===== verification/Shell.thy ===== *)
theory Shell
  imports Ulib
begin

text \<open>
  The shell, \<^verbatim>\<open>user/sh.c\<close>.  The line is the list of its characters before the NUL and a \<^verbatim>\<open>char *\<close> into it is an offset, so
  reading at the end gives 0 and \<^verbatim>\<open>es\<close> is the length.  The parser returns the command tree and the new value of \<^verbatim>\<open>*ps\<close>;
  \<^verbatim>\<open>panic\<close> ends the process.  The counters bound the loops and the recursion, and are shown to be enough.
  \<^verbatim>\<open>malloc\<close> is taken to succeed.
\<close>

unbundle bit_operations_syntax

section \<open>Tokens\<close>

definition line_at :: "u8 list \<Rightarrow> nat \<Rightarrow> u8" where
  "line_at l i = (if i < length l then l ! i else 0)"

definition whitespace :: "u8 list" where
  "whitespace = [32, 9, 13, 10, 11]"

definition symbols :: "u8 list" where
  "symbols = [60, 124, 62, 38, 59, 40, 41]"

abbreviation (input) is_ws :: "u8 \<Rightarrow> bool" where "is_ws c \<equiv> ustrchr whitespace c \<noteq> None"
abbreviation (input) is_word :: "u8 \<Rightarrow> bool" where "is_word c \<equiv> ustrchr whitespace c = None \<and> ustrchr symbols c = None"

text \<open>\<^verbatim>\<open>while(s < es && P( *s)) s++\<close>\<close>

function scan :: "(u8 \<Rightarrow> bool) \<Rightarrow> u8 list \<Rightarrow> nat \<Rightarrow> nat" where
  "scan P l s = (if s < length l \<and> P (line_at l s) then scan P l (Suc s) else s)"
  by pat_completeness auto
termination by (relation "measure (\<lambda>(P, l, s). length l - s)") auto

declare scan.simps [simp del]

abbreviation (input) skip_ws :: "u8 list \<Rightarrow> nat \<Rightarrow> nat" where "skip_ws l s \<equiv> scan is_ws l s"

text \<open>The switch of \<^verbatim>\<open>gettoken\<close>: the token and where it ends.  The tokens are \<^verbatim>\<open>'a'\<close> (97) for a word, \<^verbatim>\<open>'+'\<close> (43) for two
  greater signs, 0 at the end, or the symbol.\<close>

definition token_at :: "u8 list \<Rightarrow> nat \<Rightarrow> u8 \<times> nat" where
  "token_at l q = (let c = line_at l q in
     if c = 0 then (0, q)
     else if c \<in> {124, 40, 41, 59, 38, 60} then (c, q + 1)
     else if c = 62 then (if line_at l (q + 1) = 62 then (43, q + 2) else (c, q + 1))
     else (97, scan is_word l q))"

definition gettoken :: "u8 list \<Rightarrow> nat \<Rightarrow> u8 \<times> nat \<times> nat \<times> nat" where
  "gettoken l s = (let q = skip_ws l s; (ret, eq) = token_at l q in (ret, q, eq, skip_ws l eq))"

definition peek :: "u8 list \<Rightarrow> nat \<Rightarrow> u8 list \<Rightarrow> bool \<times> nat" where
  "peek l s toks = (let s' = skip_ws l s in (line_at l s' \<noteq> 0 \<and> ustrchr toks (line_at l s') \<noteq> None, s'))"

section \<open>Commands\<close>

datatype shcmd =
    EXEC "(nat \<times> nat) list"
  | REDIR shcmd nat nat int int
  | PIPE shcmd shcmd
  | LIST shcmd shcmd
  | BACK shcmd

datatype 'a parsed = Parsed 'a nat | ShPanic string | Leftovers nat | OutOfFuel

definition pbind :: "'a parsed \<Rightarrow> ('a \<Rightarrow> nat \<Rightarrow> 'b parsed) \<Rightarrow> 'b parsed" where
  "pbind r f = (case r of Parsed c s \<Rightarrow> f c s | ShPanic e \<Rightarrow> ShPanic e | Leftovers s \<Rightarrow> Leftovers s | OutOfFuel \<Rightarrow> OutOfFuel)"

abbreviation (input) MAXARGS :: nat where "MAXARGS \<equiv> 10"

text \<open>\<^verbatim>\<open>O_RDONLY\<close>, \<^verbatim>\<open>O_WRONLY|O_CREATE|O_TRUNC\<close> and \<^verbatim>\<open>O_WRONLY|O_CREATE\<close>.\<close>

definition redir_of :: "u8 \<Rightarrow> shcmd \<Rightarrow> nat \<Rightarrow> nat \<Rightarrow> shcmd" where
  "redir_of tok cmd q eq =
     (if tok = 60 then REDIR cmd q eq 0 0
      else if tok = 62 then REDIR cmd q eq 0x601 1
      else if tok = 43 then REDIR cmd q eq 0x201 1
      else cmd)"

primrec parseredirs :: "nat \<Rightarrow> u8 list \<Rightarrow> shcmd \<Rightarrow> nat \<Rightarrow> shcmd parsed" where
  "parseredirs 0 l cmd s = OutOfFuel"
| "parseredirs (Suc k) l cmd s = (let (more, s1) = peek l s [60, 62] in
     if \<not> more then Parsed cmd s1
     else let (tok, _, _, s2) = gettoken l s1; (tok2, q, eq, s3) = gettoken l s2 in
       if tok2 \<noteq> 97 then ShPanic ''missing file for redirection''
       else parseredirs k l (redir_of tok cmd q eq) s3)"

text \<open>The array \<^verbatim>\<open>argv\<close> of the node \<^verbatim>\<open>execcmd()\<close> made, which \<^verbatim>\<open>ret\<close> wraps in redirections only.\<close>

primrec fill_exec :: "shcmd \<Rightarrow> (nat \<times> nat) list \<Rightarrow> shcmd" where
  "fill_exec (EXEC as) args = EXEC args"
| "fill_exec (REDIR c q eq m fd) args = REDIR (fill_exec c args) q eq m fd"
| "fill_exec (PIPE c d) args = PIPE c d"
| "fill_exec (LIST c d) args = LIST c d"
| "fill_exec (BACK c) args = BACK c"

text \<open>The loop of \<^verbatim>\<open>parseexec\<close> over the arguments.\<close>

primrec parseargs :: "nat \<Rightarrow> u8 list \<Rightarrow> shcmd \<Rightarrow> (nat \<times> nat) list \<Rightarrow> nat \<Rightarrow> shcmd parsed" where
  "parseargs 0 l c args s = OutOfFuel"
| "parseargs (Suc k) l c args s = (let (stop, s1) = peek l s [124, 41, 38, 59] in
     if stop then Parsed (fill_exec c args) s1
     else let (tok, q, eq, s2) = gettoken l s1 in
       if tok = 0 then Parsed (fill_exec c args) s2
       else if tok \<noteq> 97 then ShPanic ''syntax''
       else if length args + 1 \<ge> MAXARGS then ShPanic ''too many args''
       else pbind (parseredirs (length l + 1) l c s2) (\<lambda>c' s3. parseargs k l c' (args @ [(q, eq)]) s3))"

text \<open>\<open>pline\<close> is \<^verbatim>\<open>parseline\<close>, which \<^verbatim>\<open>parseblock\<close> calls.\<close>

definition parseblock :: "(nat \<Rightarrow> shcmd parsed) \<Rightarrow> u8 list \<Rightarrow> nat \<Rightarrow> shcmd parsed" where
  "parseblock pline l s = (let (op, s1) = peek l s [40] in
     if \<not> op then ShPanic ''parseblock''
     else let (_, _, _, s2) = gettoken l s1 in
       pbind (pline s2) (\<lambda>c s3. let (cl, s4) = peek l s3 [41] in
         if \<not> cl then ShPanic ''syntax - missing )''
         else let (_, _, _, s5) = gettoken l s4 in parseredirs (length l + 1) l c s5))"

definition parseexec :: "(nat \<Rightarrow> shcmd parsed) \<Rightarrow> u8 list \<Rightarrow> nat \<Rightarrow> shcmd parsed" where
  "parseexec pline l s = (let (op, s1) = peek l s [40] in
     if op then parseblock pline l s1
     else pbind (parseredirs (length l + 1) l (EXEC []) s1) (\<lambda>c s2. parseargs (length l + 1) l c [] s2))"

primrec parsepipe :: "nat \<Rightarrow> (nat \<Rightarrow> shcmd parsed) \<Rightarrow> u8 list \<Rightarrow> nat \<Rightarrow> shcmd parsed" where
  "parsepipe 0 pline l s = OutOfFuel"
| "parsepipe (Suc k) pline l s = pbind (parseexec pline l s) (\<lambda>c s1. let (bar, s2) = peek l s1 [124] in
     if \<not> bar then Parsed c s2
     else let (_, _, _, s3) = gettoken l s2 in
       pbind (parsepipe k pline l s3) (\<lambda>d s4. Parsed (PIPE c d) s4))"

primrec parseback :: "nat \<Rightarrow> u8 list \<Rightarrow> shcmd \<Rightarrow> nat \<Rightarrow> shcmd parsed" where
  "parseback 0 l c s = OutOfFuel"
| "parseback (Suc k) l c s = (let (amp, s1) = peek l s [38] in
     if \<not> amp then Parsed c s1
     else let (_, _, _, s2) = gettoken l s1 in parseback k l (BACK c) s2)"

primrec parseline :: "nat \<Rightarrow> u8 list \<Rightarrow> nat \<Rightarrow> shcmd parsed" where
  "parseline 0 l s = OutOfFuel"
| "parseline (Suc k) l s = pbind (parsepipe (length l + 1) (parseline k l) l s) (\<lambda>c s1.
     pbind (parseback (length l + 1) l c s1) (\<lambda>c s2. let (semi, s3) = peek l s2 [59] in
       if \<not> semi then Parsed c s3
       else let (_, _, _, s4) = gettoken l s3 in
         pbind (parseline k l s4) (\<lambda>d s5. Parsed (LIST c d) s5)))"

text \<open>\<^verbatim>\<open>nulterminate\<close> stores a NUL after every token; the buffer is the line with its NUL.\<close>

primrec nulterminate :: "shcmd \<Rightarrow> u8 list \<Rightarrow> u8 list" where
  "nulterminate (EXEC args) b = fold (\<lambda>a b. b[snd a := 0]) args b"
| "nulterminate (REDIR c q eq m fd) b = (nulterminate c b)[eq := 0]"
| "nulterminate (PIPE c d) b = nulterminate d (nulterminate c b)"
| "nulterminate (LIST c d) b = nulterminate d (nulterminate c b)"
| "nulterminate (BACK c) b = nulterminate c b"

definition parsecmd :: "u8 list \<Rightarrow> (shcmd \<times> u8 list) parsed" where
  "parsecmd l = pbind (parseline (length l + 1) l 0) (\<lambda>c s. let (_, s1) = peek l s [] in
     if s1 \<noteq> length l then Leftovers s1 else Parsed (c, nulterminate c (l @ [0])) s1)"

text \<open>The C string at an offset of the line after \<^verbatim>\<open>nulterminate\<close>.\<close>

definition sh_cstr :: "u8 list \<Rightarrow> nat \<Rightarrow> u8 list" where
  "sh_cstr b q = takeWhile (\<lambda>c. c \<noteq> 0) (drop q b)"

end
