(* ===== verification/ShellProps.thy ===== *)
theory ShellProps
  imports Shell
begin

text \<open>
  The shell's parser: it ends on every line, the tokens it records are whole words of the line, no command has \<^verbatim>\<open>MAXARGS\<close>
  arguments, and after \<^verbatim>\<open>nulterminate\<close> every argument is the C string of its token.
\<close>

unbundle bit_operations_syntax

section \<open>Tokens\<close>

lemma scan_bounds: "s \<le> length l \<Longrightarrow> s \<le> scan P l s \<and> scan P l s \<le> length l"
proof (induction P l s rule: scan.induct)
  case (1 P l s)
  then show ?case by (subst (1 2) scan.simps) auto
qed

lemma scan_ends: "s \<le> length l \<Longrightarrow> scan P l s < length l \<Longrightarrow> \<not> P (line_at l (scan P l s))"
proof (induction P l s rule: scan.induct)
  case (1 P l s)
  show ?case
  proof (cases "s < length l \<and> P (line_at l s)")
    case True
    then show ?thesis using 1 by (simp add: scan.simps [of P l s])
  next
    case False
    then have "scan P l s = s" by (subst scan.simps) auto
    then show ?thesis using 1 False by simp
  qed
qed

lemma scan_all: "s \<le> i \<Longrightarrow> i < scan P l s \<Longrightarrow> P (line_at l i)"
proof (induction P l s rule: scan.induct)
  case (1 P l s)
  show ?case
  proof (cases "s < length l \<and> P (line_at l s)")
    case True
    then show ?thesis using 1 by (cases "i = s") (simp_all add: scan.simps [of P l s])
  next
    case False
    then have "scan P l s = s" by (subst scan.simps) auto
    then show ?thesis using 1(2,3) by simp
  qed
qed

text \<open>A word of the line: a run of word characters that cannot be extended to the right.\<close>

definition word_tok :: "u8 list \<Rightarrow> nat \<times> nat \<Rightarrow> bool" where
  "word_tok l t = (case t of (q, e) \<Rightarrow> q < e \<and> e \<le> length l \<and> (\<forall>i. q \<le> i \<and> i < e \<longrightarrow> is_word (line_at l i)) \<and> (e < length l \<longrightarrow> \<not> is_word (line_at l e)))"

lemma symbol_chars: "is_word c \<longleftrightarrow> c \<notin> {32, 9, 13, 10, 11} \<and> c \<notin> {60, 124, 62, 38, 59, 40, 41}"
  by (auto simp: whitespace_def symbols_def)

lemma ws_chars: "is_ws c \<longleftrightarrow> c \<in> {32, 9, 13, 10, 11}"
  by (auto simp: whitespace_def)

lemma line_at_nonzero: "line_at l q \<noteq> 0 \<Longrightarrow> q < length l"
  by (simp add: line_at_def split: if_splits)

lemma scan_step: "s < length l \<Longrightarrow> P (line_at l s) \<Longrightarrow> s < scan P l s"
  using scan_bounds [of "Suc s" l P] by (subst scan.simps) simp

lemma token_at_spec:
  assumes q: "q \<le> length l" and ws: "q < length l \<Longrightarrow> \<not> is_ws (line_at l q)" and t: "token_at l q = (tok, e)"
  shows "q \<le> e \<and> e \<le> length l \<and> (tok \<noteq> 0 \<longrightarrow> q < e) \<and> (tok = 97 \<longrightarrow> word_tok l (q, e))"
proof -
  let ?c = "line_at l q"
  consider "?c = 0" | "?c \<in> {124, 40, 41, 59, 38, 60}" | "?c = 62" | "?c \<noteq> 0" "?c \<notin> {124, 40, 41, 59, 38, 60}" "?c \<noteq> 62" by blast
  then show ?thesis
  proof cases
    case 1
    then show ?thesis using q t by (simp add: token_at_def)
  next
    case 2
    then have "q < length l" by (intro line_at_nonzero) auto
    then show ?thesis using 2 t by (auto simp: token_at_def)
  next
    case 3
    then have "q < length l" by (intro line_at_nonzero) auto
    moreover have "line_at l (q + 1) = 62 \<Longrightarrow> q + 1 < length l" by (intro line_at_nonzero) auto
    ultimately show ?thesis using 3 t by (auto simp: token_at_def split: if_splits)
  next
    case 4
    have l: "q < length l" using 4(1) by (rule line_at_nonzero)
    have w: "is_word ?c" using ws [OF l] 4 unfolding symbol_chars ws_chars by auto
    have e: "tok = 97" "e = scan is_word l q" using 4 t by (auto simp: token_at_def)
    have "q < e" unfolding e using l w by (rule scan_step)
    moreover have "word_tok l (q, e)"
      unfolding word_tok_def e(2)
      using scan_step [OF l, of is_word] w scan_bounds [of q l is_word] l scan_all [of q _ is_word l] scan_ends [of q l is_word] by auto
    ultimately show ?thesis using e scan_bounds [of q l is_word] l by auto
  qed
qed

lemma gettoken_spec:
  assumes "s \<le> length l" "gettoken l s = (tok, q, e, s')"
  shows "s \<le> q \<and> q \<le> e \<and> e \<le> s' \<and> s' \<le> length l \<and> (tok \<noteq> 0 \<longrightarrow> q < e) \<and> (tok = 97 \<longrightarrow> word_tok l (q, e))"
proof -
  obtain r e' where t: "token_at l (skip_ws l s) = (r, e')" by fastforce
  then have g: "tok = r" "q = skip_ws l s" "e = e'" "s' = skip_ws l e'" using assms(2) by (auto simp: gettoken_def)
  have q: "s \<le> q" "q \<le> length l" using scan_bounds [OF assms(1)] g by auto
  have "q < length l \<Longrightarrow> \<not> is_ws (line_at l q)" using scan_ends [OF assms(1), of is_ws] g by blast
  then have a: "q \<le> e \<and> e \<le> length l \<and> (tok \<noteq> 0 \<longrightarrow> q < e) \<and> (tok = 97 \<longrightarrow> word_tok l (q, e))"
    using q(2) t g by (intro token_at_spec) auto
  then show ?thesis using q scan_bounds [of e l is_ws] g by auto
qed

lemma peek_spec:
  assumes "s \<le> length l" "peek l s toks = (b, s')"
  shows "s \<le> s' \<and> s' \<le> length l \<and> (b \<longrightarrow> line_at l s' \<noteq> 0)"
  using assms scan_bounds [OF assms(1), of is_ws] by (auto simp: peek_def Let_def)

lemma skip_ws_again: "s \<le> length l \<Longrightarrow> skip_ws l (skip_ws l s) = skip_ws l s"
  using scan_ends [of s l is_ws] by (subst (1) scan.simps) auto

lemma gettoken_after_peek:
  assumes "s \<le> length l" "peek l s toks = (True, s1)" "gettoken l s1 = (tok, q, e, s2)"
  shows "s < s2 \<and> s2 \<le> length l"
proof -
  have p: "s1 = skip_ws l s" "line_at l s1 \<noteq> 0" using assms(2) by (auto simp: peek_def Let_def)
  have s1: "s \<le> s1" "s1 \<le> length l" using scan_bounds [OF assms(1)] p by auto
  have "q = skip_ws l s1" using assms(3) by (auto simp: gettoken_def Let_def split: prod.splits)
  then have "q = s1" using skip_ws_again [OF assms(1)] p by simp
  then have "tok \<noteq> 0"
    using p(2) assms(3) by (auto simp: gettoken_def token_at_def Let_def split: if_splits prod.splits)
  then show ?thesis using gettoken_spec [OF s1(2) assms(3)] s1 by auto
qed

section \<open>The command tree\<close>

primrec wf_cmd :: "u8 list \<Rightarrow> shcmd \<Rightarrow> bool" where
  "wf_cmd l (EXEC args) = (length args < MAXARGS \<and> (\<forall>t\<in>set args. word_tok l t))"
| "wf_cmd l (REDIR c q e m fd) = (wf_cmd l c \<and> word_tok l (q, e))"
| "wf_cmd l (PIPE c d) = (wf_cmd l c \<and> wf_cmd l d)"
| "wf_cmd l (LIST c d) = (wf_cmd l c \<and> wf_cmd l d)"
| "wf_cmd l (BACK c) = wf_cmd l c"

definition good :: "u8 list \<Rightarrow> nat \<Rightarrow> shcmd parsed \<Rightarrow> bool" where
  "good l s r = (case r of Parsed c s' \<Rightarrow> s \<le> s' \<and> s' \<le> length l \<and> wf_cmd l c | ShPanic e \<Rightarrow> True | Leftovers s' \<Rightarrow> False | OutOfFuel \<Rightarrow> False)"

lemma good_simps [simp]:
  "good l s (Parsed c s') = (s \<le> s' \<and> s' \<le> length l \<and> wf_cmd l c)" "good l s (ShPanic e)" "\<not> good l s OutOfFuel"
  by (simp_all add: good_def)

lemma good_pbind:
  assumes "good l s r" "\<And>c s'. r = Parsed c s' \<Longrightarrow> s \<le> s' \<Longrightarrow> s' \<le> length l \<Longrightarrow> wf_cmd l c \<Longrightarrow> good l s (f c s')"
  shows "good l s (pbind r f)"
  using assms by (cases r) (auto simp: pbind_def good_def)

lemma good_mono: "good l s' r \<Longrightarrow> s \<le> s' \<Longrightarrow> good l s r"
  by (auto simp: good_def split: parsed.splits)

lemma parseredirs_good: "s \<le> length l \<Longrightarrow> length l - s < k \<Longrightarrow> wf_cmd l c \<Longrightarrow> good l s (parseredirs k l c s)"
proof (induction k arbitrary: c s)
  case 0
  then show ?case by simp
next
  case (Suc k)
  obtain more s1 where p: "peek l s [60, 62] = (more, s1)" by fastforce
  obtain tok q e s2 where t: "gettoken l s1 = (tok, q, e, s2)" by (metis prod_cases4)
  obtain tok2 q2 e2 s3 where t2: "gettoken l s2 = (tok2, q2, e2, s3)" by (metis prod_cases4)
  note ps = peek_spec [OF Suc.prems(1) p]
  show ?case
  proof (cases "more \<and> tok2 = 97")
    case True
    have s2: "s < s2" "s2 \<le> length l" using gettoken_after_peek [OF Suc.prems(1) _ t] p True by auto
    note g = gettoken_spec [OF s2(2) t2]
    have "good l s3 (parseredirs k l (redir_of tok c q2 e2) s3)"
      using Suc.prems s2 g True by (intro Suc.IH) (auto simp: redir_of_def)
    then show ?thesis using True p t t2 s2 g by (auto intro: good_mono)
  next
    case False
    then show ?thesis using p t t2 ps Suc.prems by auto
  qed
qed

abbreviation (input) wf_args :: "u8 list \<Rightarrow> (nat \<times> nat) list \<Rightarrow> bool" where
  "wf_args l args \<equiv> length args < MAXARGS \<and> (\<forall>t\<in>set args. word_tok l t)"

lemma wf_fill: "wf_cmd l c \<Longrightarrow> wf_args l args \<Longrightarrow> wf_cmd l (fill_exec c args)"
  by (induction c) auto

lemma parseargs_good:
  "s \<le> length l \<Longrightarrow> length l - s < k \<Longrightarrow> wf_cmd l c \<Longrightarrow> wf_args l args \<Longrightarrow> good l s (parseargs k l c args s)"
proof (induction k arbitrary: c s args)
  case 0
  then show ?case by simp
next
  case (Suc k)
  obtain stop s1 where p: "peek l s [124, 41, 38, 59] = (stop, s1)" by fastforce
  obtain tok q e s2 where t: "gettoken l s1 = (tok, q, e, s2)" by (metis prod_cases4)
  have s1: "s \<le> s1" "s1 \<le> length l" using peek_spec [OF Suc.prems(1) p] by auto
  note g = gettoken_spec [OF s1(2) t]
  have f: "wf_cmd l (fill_exec c args)" using Suc.prems(3,4) by (rule wf_fill)
  show ?case
  proof (cases "\<not> stop \<and> tok = 97 \<and> length args + 1 < MAXARGS")
    case True
    have s2: "s < s2" "s2 \<le> length l" using g s1 True by auto
    have "good l s2 (parseredirs (length l + 1) l c s2)" using s2 Suc.prems(3) by (intro parseredirs_good) auto
    then have "good l s2 (pbind (parseredirs (length l + 1) l c s2) (\<lambda>c' s3. parseargs k l c' (args @ [(q, e)]) s3))"
    proof (rule good_pbind)
      fix c' s3 assume a: "s2 \<le> s3" "s3 \<le> length l" "wf_cmd l c'"
      have "good l s3 (parseargs k l c' (args @ [(q, e)]) s3)"
        by (rule Suc.IH) (use a s2 g True Suc.prems in auto)
      then show "good l s2 (parseargs k l c' (args @ [(q, e)]) s3)" using a(1) by (rule good_mono)
    qed
    then show ?thesis using True p t s2 by (auto intro: good_mono)
  next
    case False
    then show ?thesis using p t f g s1 by auto
  qed
qed

lemma parseblock_good:
  assumes "s \<le> length l" "\<And>s'. s < s' \<Longrightarrow> s' \<le> length l \<Longrightarrow> good l s' (pline s')"
  shows "good l s (parseblock pline l s)"
proof -
  obtain op s1 where p: "peek l s [40] = (op, s1)" by fastforce
  obtain t1 q1 e1 s2 where t: "gettoken l s1 = (t1, q1, e1, s2)" by (metis prod_cases4)
  show ?thesis
  proof (cases op)
    case True
    have s2: "s < s2" "s2 \<le> length l" using gettoken_after_peek [OF assms(1) _ t] p True by auto
    have "good l s (pbind (pline s2) (\<lambda>c s3. let (cl, s4) = peek l s3 [41] in
         if \<not> cl then ShPanic ''syntax - missing )''
         else let (_, _, _, s5) = gettoken l s4 in parseredirs (length l + 1) l c s5))"
    proof (rule good_pbind)
      show "good l s (pline s2)" using assms(2) [OF s2] s2(1) by (auto intro: good_mono)
      fix c s3 assume a: "s \<le> s3" "s3 \<le> length l" "wf_cmd l c"
      obtain cl s4 where p2: "peek l s3 [41] = (cl, s4)" by fastforce
      obtain t2 q2 e2 s5 where t2: "gettoken l s4 = (t2, q2, e2, s5)" by (metis prod_cases4)
      show "good l s (let (cl, s4) = peek l s3 [41] in if \<not> cl then ShPanic ''syntax - missing )''
         else let (_, _, _, s5) = gettoken l s4 in parseredirs (length l + 1) l c s5)"
      proof (cases cl)
        case True
        have s5: "s3 < s5" "s5 \<le> length l" using gettoken_after_peek [OF a(2) _ t2] p2 True by auto
        have "good l s5 (parseredirs (length l + 1) l c s5)" using s5 a(3) by (intro parseredirs_good) auto
        then show ?thesis using True p2 t2 s5 a by (auto intro: good_mono)
      next
        case False
        then show ?thesis using p2 by simp
      qed
    qed
    then show ?thesis using True p t by (simp add: parseblock_def)
  next
    case False
    then show ?thesis using p by (simp add: parseblock_def)
  qed
qed

lemma parseexec_good:
  assumes "s \<le> length l" "\<And>s'. s < s' \<Longrightarrow> s' \<le> length l \<Longrightarrow> good l s' (pline s')"
  shows "good l s (parseexec pline l s)"
proof -
  obtain op s1 where p: "peek l s [40] = (op, s1)" by fastforce
  have s1: "s \<le> s1" "s1 \<le> length l" using peek_spec [OF assms(1) p] by auto
  have b: "good l s1 (parseblock pline l s1)" using s1 assms(2) by (intro parseblock_good) auto
  have "good l s1 (pbind (parseredirs (length l + 1) l (EXEC []) s1) (\<lambda>c s2. parseargs (length l + 1) l c [] s2))"
  proof (rule good_pbind)
    show "good l s1 (parseredirs (length l + 1) l (EXEC []) s1)" using s1 by (intro parseredirs_good) auto
    fix c s2 assume a: "s1 \<le> s2" "s2 \<le> length l" "wf_cmd l c"
    then have "good l s2 (parseargs (length l + 1) l c [] s2)" by (intro parseargs_good) auto
    then show "good l s1 (parseargs (length l + 1) l c [] s2)" using a(1) by (rule good_mono)
  qed
  then have "good l s (pbind (parseredirs (length l + 1) l (EXEC []) s1) (\<lambda>c s2. parseargs (length l + 1) l c [] s2))"
    "good l s (parseblock pline l s1)" using b s1(1) good_mono by blast+
  then show ?thesis using p by (simp add: parseexec_def del: parseredirs.simps parseargs.simps)
qed

lemma parsepipe_good:
  assumes "s \<le> length l" "length l - s < k" "\<And>s'. s < s' \<Longrightarrow> s' \<le> length l \<Longrightarrow> good l s' (pline s')"
  shows "good l s (parsepipe k pline l s)"
  using assms
proof (induction k arbitrary: s)
  case 0
  then show ?case by simp
next
  case (Suc k)
  show ?case
    unfolding parsepipe.simps
  proof (rule good_pbind)
    show "good l s (parseexec pline l s)" using Suc.prems by (intro parseexec_good) auto
    fix c s1 assume a: "s \<le> s1" "s1 \<le> length l" "wf_cmd l c"
    obtain bar s2 where p: "peek l s1 [124] = (bar, s2)" by fastforce
    obtain t1 q1 e1 s3 where t: "gettoken l s2 = (t1, q1, e1, s3)" by (metis prod_cases4)
    show "good l s (let (bar, s2) = peek l s1 [124] in if \<not> bar then Parsed c s2
      else let (_, _, _, s3) = gettoken l s2 in pbind (parsepipe k pline l s3) (\<lambda>d s4. Parsed (PIPE c d) s4))"
    proof (cases bar)
      case True
      have s3: "s1 < s3" "s3 \<le> length l" using gettoken_after_peek [OF a(2) _ t] p True by auto
      have "good l s3 (parsepipe k pline l s3)" using s3 a Suc.prems by (intro Suc.IH) auto
      then have "good l s3 (pbind (parsepipe k pline l s3) (\<lambda>d s4. Parsed (PIPE c d) s4))"
        by (rule good_pbind) (use a in auto)
      then show ?thesis using True p t s3 a by (auto intro: good_mono)
    next
      case False
      then show ?thesis using p a peek_spec [OF a(2) p] by auto
    qed
  qed
qed

lemma parseback_good: "s \<le> length l \<Longrightarrow> length l - s < k \<Longrightarrow> wf_cmd l c \<Longrightarrow> good l s (parseback k l c s)"
proof (induction k arbitrary: c s)
  case 0
  then show ?case by simp
next
  case (Suc k)
  obtain amp s1 where p: "peek l s [38] = (amp, s1)" by fastforce
  obtain t1 q1 e1 s2 where t: "gettoken l s1 = (t1, q1, e1, s2)" by (metis prod_cases4)
  show ?case
  proof (cases amp)
    case True
    have s2: "s < s2" "s2 \<le> length l" using gettoken_after_peek [OF Suc.prems(1) _ t] p True by auto
    have "good l s2 (parseback k l (BACK c) s2)" using s2 Suc.prems by (intro Suc.IH) auto
    then show ?thesis using True p t s2 by (auto intro: good_mono)
  next
    case False
    then show ?thesis using p Suc.prems peek_spec [OF Suc.prems(1) p] by auto
  qed
qed

lemma parseline_good: "s \<le> length l \<Longrightarrow> length l - s < k \<Longrightarrow> good l s (parseline k l s)"
proof (induction k arbitrary: s)
  case 0
  then show ?case by simp
next
  case (Suc k)
  have pl: "good l s' (parseline k l s')" if "s < s'" "s' \<le> length l" for s'
    using Suc.prems that by (intro Suc.IH) auto
  show ?case
    unfolding parseline.simps
  proof (rule good_pbind)
    show "good l s (parsepipe (length l + 1) (parseline k l) l s)" using Suc.prems pl by (intro parsepipe_good) auto
    fix c s1 assume a: "s \<le> s1" "s1 \<le> length l" "wf_cmd l c"
    have "good l s1 (pbind (parseback (length l + 1) l c s1) (\<lambda>c s2. let (semi, s3) = peek l s2 [59] in
       if \<not> semi then Parsed c s3
       else let (_, _, _, s4) = gettoken l s3 in pbind (parseline k l s4) (\<lambda>d s5. Parsed (LIST c d) s5)))"
    proof (rule good_pbind)
      show "good l s1 (parseback (length l + 1) l c s1)" using a by (intro parseback_good) auto
      fix c' s2 assume b: "s1 \<le> s2" "s2 \<le> length l" "wf_cmd l c'"
      obtain semi s3 where p: "peek l s2 [59] = (semi, s3)" by fastforce
      obtain t1 q1 e1 s4 where t: "gettoken l s3 = (t1, q1, e1, s4)" by (metis prod_cases4)
      show "good l s1 (let (semi, s3) = peek l s2 [59] in if \<not> semi then Parsed c' s3
         else let (_, _, _, s4) = gettoken l s3 in pbind (parseline k l s4) (\<lambda>d s5. Parsed (LIST c' d) s5))"
      proof (cases semi)
        case True
        have s4: "s2 < s4" "s4 \<le> length l" using gettoken_after_peek [OF b(2) _ t] p True by auto
        have "good l s4 (pbind (parseline k l s4) (\<lambda>d s5. Parsed (LIST c' d) s5))"
          by (rule good_pbind) (use pl [of s4] s4 a b in auto)
        then show ?thesis using True p t s4 b by (auto intro: good_mono)
      next
        case False
        then show ?thesis using p b peek_spec [OF b(2) p] by auto
      qed
    qed
    then show "good l s (pbind (parseback (length l + 1) l c s1) (\<lambda>c s2. let (semi, s3) = peek l s2 [59] in
       if \<not> semi then Parsed c s3
       else let (_, _, _, s4) = gettoken l s3 in pbind (parseline k l s4) (\<lambda>d s5. Parsed (LIST c d) s5)))"
      using a(1) by (rule good_mono)
  qed
qed

section \<open>The whole line\<close>

text \<open>C20. The parser of the shell returns on every line: it yields a command or ends in one of its panics.\<close>

theorem parsecmd_total: "parsecmd l \<noteq> OutOfFuel"
proof -
  have "good l 0 (parseline (length l + 1) l 0)" by (rule parseline_good) simp_all
  then show ?thesis
    by (cases "parseline (length l + 1) l 0") (auto simp: parsecmd_def pbind_def peek_def Let_def simp del: parseline.simps)
qed

lemma parsecmd_good:
  assumes "parsecmd l = Parsed (c, b) s"
  shows "wf_cmd l c" "s = length l" "b = nulterminate c (l @ [0])"
proof -
  have "good l 0 (parseline (length l + 1) l 0)" by (rule parseline_good) simp_all
  then show "wf_cmd l c" "s = length l" "b = nulterminate c (l @ [0])"
    using assms by (cases "parseline (length l + 1) l 0";
      auto simp: parsecmd_def pbind_def peek_def Let_def simp del: parseline.simps split: if_splits)+
qed


primrec tokens :: "shcmd \<Rightarrow> (nat \<times> nat) set" where
  "tokens (EXEC args) = set args"
| "tokens (REDIR c q e m fd) = insert (q, e) (tokens c)"
| "tokens (PIPE c d) = tokens c \<union> tokens d"
| "tokens (LIST c d) = tokens c \<union> tokens d"
| "tokens (BACK c) = tokens c"

lemma wf_tokens: "wf_cmd l c \<Longrightarrow> t \<in> tokens c \<Longrightarrow> word_tok l t"
  by (induction c) auto

lemma fold_nul:
  "length (fold (\<lambda>a b. b[snd a := 0]) args b) = length b \<and>
   (i < length b \<longrightarrow> fold (\<lambda>a b. b[snd a := (0 :: u8)]) args b ! i = (if i \<in> snd ` set args then 0 else b ! i))"
  by (induction args arbitrary: b) (auto simp: nth_list_update)

lemma nulterminate_nth:
  "length (nulterminate c b) = length b \<and>
   (i < length b \<longrightarrow> nulterminate c b ! i = (if i \<in> snd ` tokens c then 0 else b ! i))"
proof (induction c arbitrary: b)
  case (EXEC args)
  show ?case unfolding nulterminate.simps tokens.simps by (rule fold_nul)
next
  case (REDIR c q e m fd)
  show ?case using REDIR [of b] by (cases "i = e") (simp_all add: nth_list_update)
next
  case (PIPE c d)
  show ?case using PIPE(1) [of b] PIPE(2) [of "nulterminate c b"] by (simp add: image_Un)
next
  case (LIST c d)
  show ?case using LIST(1) [of b] LIST(2) [of "nulterminate c b"] by (simp add: image_Un)
next
  case (BACK c)
  then show ?case by simp
qed

text \<open>C18. After \<^verbatim>\<open>nulterminate\<close> every word and file name of the command, read as a C string from where its pointer points, is exactly
  the token in the line: terminating one token never cuts another.\<close>

theorem tokens_terminated:
  assumes p: "parsecmd l = Parsed (c, b) s" and t: "(q, e) \<in> tokens c" and nz: "0 \<notin> set l"
  shows "sh_cstr b q = take (e - q) (drop q l)"
proof -
  note g = parsecmd_good [OF p]
  have w: "q < e" "e \<le> length l" "\<And>i. q \<le> i \<Longrightarrow> i < e \<Longrightarrow> is_word (line_at l i)"
    using wf_tokens [OF g(1) t] by (auto simp: word_tok_def)
  have len: "length b = length l + 1" using nulterminate_nth [of c "l @ [0]"] g(3) by simp
  have n: "b ! i = (if i \<in> snd ` tokens c then 0 else (l @ [0]) ! i)" if "i \<le> length l" for i
    using nulterminate_nth [of c "l @ [0]" i] g(3) that by simp
  have keep: "b ! i = l ! i" if i: "q \<le> i" "i < e" for i
  proof -
    have "i \<notin> snd ` tokens c"
    proof
      assume "i \<in> snd ` tokens c"
      then obtain q' where "(q', i) \<in> tokens c" by auto
      then have "i < length l \<longrightarrow> \<not> is_word (line_at l i)" using wf_tokens [OF g(1)] by (auto simp: word_tok_def)
      then show False using w i by auto
    qed
    then show ?thesis using n [of i] i w(2) by (simp add: nth_append)
  qed
  have "e \<in> snd ` tokens c" using t by force
  then have be: "b ! e = 0" using n [of e] w(2) by simp
  have "takeWhile (\<lambda>x. x \<noteq> 0) (drop q b) = take (e - q) (drop q b)"
  proof (rule takeWhile_eq_take_P_nth)
    fix i assume "i < e - q" "i < length (drop q b)"
    then have "drop q b ! i = l ! (q + i)" "q + i < length l" using keep [of "q + i"] w len by simp_all
    then show "drop q b ! i \<noteq> 0" using nz nth_mem by metis
  next
    assume "e - q < length (drop q b)"
    then show "\<not> drop q b ! (e - q) \<noteq> 0" using be w len by simp
  qed
  also have "\<dots> = take (e - q) (drop q l)"
    by (rule nth_equalityI) (use keep w len in auto)
  finally show ?thesis by (simp add: sh_cstr_def)
qed


theorem tokens_terminated_witness:
  "parsecmd [97, 62, 98] = Parsed (REDIR (EXEC [(0, 1)]) 2 3 0x601 1, [97, 0, 98, 0]) 3 \<and> sh_cstr [97, 0, 98, 0] 2 = [98]"
proof -
  have p: "parsecmd [97, 62, 98] = Parsed (REDIR (EXEC [(0, 1)]) 2 3 0x601 1, [97, 0, 98, 0]) 3" by code_simp
  then show ?thesis using tokens_terminated [OF p, of 2 3] by simp
qed

end
