(* ===== verification/Uproc.thy ===== *)
theory Uproc
  imports Ulib
begin

text \<open>
  User programs over the system calls.  A program is a tree: a system call and what follows for each of its results, up to an
  \<^verbatim>\<open>exit\<close>, a return from \<^verbatim>\<open>main\<close>, or the head of a loop.  The loop heads of a program are its labels, with the values of the
  variables that live there; the program maps each label to the tree of what runs from there.  Loops that never end need no
  bound this way.  The kernel's answers are arbitrary results.
\<close>

unbundle bit_operations_syntax

section \<open>System calls and programs\<close>

datatype ucall =
    UFork | UWait | UKill int | USleep int | UPipe | UExec "u8 list" "u8 list list"
  | UOpen "u8 list" int | UMknod "u8 list" int int | UDup int | UClose int | URead int nat | UWrite int "u8 list"
  | UFstat int | ULink "u8 list" "u8 list" | UUnlink "u8 list" | UMkdir "u8 list" | UChdir "u8 list"

record ures =
  rv :: int
  rdata :: "u8 list"
  rstat :: stat
  rfds :: "int \<times> int"

datatype 'l uprog = Call ucall "ures \<Rightarrow> 'l uprog" | Exit int | Return int | Goto 'l

text \<open>The executions of a program: its calls with their results, and what is left of it.\<close>

inductive utrace :: "('l \<Rightarrow> 'l uprog) \<Rightarrow> 'l uprog \<Rightarrow> (ucall \<times> ures) list \<Rightarrow> 'l uprog \<Rightarrow> bool" for P where
  here: "utrace P p [] p"
| call: "utrace P (k r) tr q \<Longrightarrow> utrace P (Call c k) ((c, r) # tr) q"
| goto: "utrace P (P l) tr q \<Longrightarrow> utrace P (Goto l) tr q"

section \<open>Library routines that make calls\<close>

definition str :: "string \<Rightarrow> u8 list" where
  "str s = map of_char s"

text \<open>\<^verbatim>\<open>putc\<close> writes one character at a time.\<close>

primrec put :: "int \<Rightarrow> u8 list \<Rightarrow> 'l uprog \<Rightarrow> 'l uprog" where
  "put fd [] k = k"
| "put fd (c # cs) k = Call (UWrite fd [c]) (\<lambda>_. put fd cs k)"

definition ufprintf :: "int \<Rightarrow> string \<Rightarrow> parg list \<Rightarrow> 'l uprog \<Rightarrow> 'l uprog" where
  "ufprintf fd fmt args k = put fd (vprintf (str fmt) False args) k"

definition uprintf :: "string \<Rightarrow> parg list \<Rightarrow> 'l uprog \<Rightarrow> 'l uprog" where
  "uprintf fmt args k = put 1 (vprintf (str fmt) False args) k"

definition pstr :: "u8 list \<Rightarrow> parg" where
  "pstr s = PStr (Some s)"

text \<open>\<^verbatim>\<open>stat\<close>; the continuation gets the structure when the result is not negative.\<close>

definition ustat :: "u8 list \<Rightarrow> (stat option \<Rightarrow> 'l uprog) \<Rightarrow> 'l uprog" where
  "ustat n k = Call (UOpen n 0) (\<lambda>r.
     if rv r < 0 then k None
     else Call (UFstat (rv r)) (\<lambda>s. Call (UClose (rv r)) (\<lambda>_. k (if rv s < 0 then None else Some (rstat s)))))"

text \<open>\<^verbatim>\<open>gets\<close> with the calls it makes; \<open>n\<close> is \<^verbatim>\<open>max - 1 - i\<close>.\<close>

primrec gets_calls :: "nat \<Rightarrow> u8 list \<Rightarrow> (u8 list \<Rightarrow> 'l uprog) \<Rightarrow> 'l uprog" where
  "gets_calls 0 buf k = k buf"
| "gets_calls (Suc n) buf k = Call (URead 0 1) (\<lambda>r.
     if rv r < 1 then k buf
     else let c = ch0 (rdata r); buf = buf @ [c] in
       if c = 10 \<or> c = 13 then k buf else gets_calls n buf k)"

section \<open>Descriptors\<close>

text \<open>
  The change a call makes to the number of open descriptors, for programs that close only what they have open.  A program keeps
  its books if on every path each label is reached with the number of descriptors that label stands for, and the program ends
  with none.
\<close>

fun opened :: "ucall \<Rightarrow> ures \<Rightarrow> int" where
  "opened (UOpen n m) r = (if rv r < 0 then 0 else 1)"
| "opened (UClose fd) r = -1"
| "opened _ r = 0"

primrec books :: "('l \<Rightarrow> int) \<Rightarrow> int \<Rightarrow> 'l uprog \<Rightarrow> bool" where
  "books D n (Call c k) = (\<forall>r. books D (n + opened c r) (k r))"
| "books D n (Exit e) = (n = 0)"
| "books D n (Return e) = (n = 0)"
| "books D n (Goto l) = (n = D l)"

lemma books_put [simp]: "books D n (put fd cs k) = books D n k"
  by (induction cs) simp_all

lemma books_printf [simp]: "books D n (ufprintf fd fmt args k) = books D n k" "books D n (uprintf fmt args k) = books D n k"
  by (simp_all add: ufprintf_def uprintf_def)

lemma books_ustat: "(\<And>st. books D n (k st)) \<Longrightarrow> books D n (ustat p k)"
  by (simp add: ustat_def)

locale bookkeeping =
  fixes P :: "'l \<Rightarrow> 'l uprog" and D :: "'l \<Rightarrow> int"
  assumes blocks: "books D (D l) (P l)"
begin

lemma trace_books:
  assumes "utrace P p tr q" "books D n p"
  shows "books D (n + sum_list (map (\<lambda>(c, r). opened c r) tr)) q"
  using assms
proof (induction arbitrary: n rule: utrace.induct)
  case (call k r tr q c)
  then show ?case using call.IH [of "n + opened c r"] by (simp add: add.assoc)
next
  case (goto l tr q)
  then show ?case using blocks by simp
qed simp

lemma exit_closes:
  assumes "utrace P (Goto l) tr (Exit e)" shows "sum_list (map (\<lambda>(c, r). opened c r) tr) = - D l"
  using trace_books [OF assms, of "D l"] by simp

end

section \<open>Programs that stay\<close>

text \<open>No path on which every call is answered well, in the sense of \<open>G\<close>, ends the program.\<close>

primrec stays :: "(ucall \<Rightarrow> ures \<Rightarrow> bool) \<Rightarrow> 'l uprog \<Rightarrow> bool" where
  "stays G (Call c k) = (\<forall>r. G c r \<longrightarrow> stays G (k r))"
| "stays G (Exit e) = False"
| "stays G (Return e) = False"
| "stays G (Goto l) = True"

lemma stays_printf [simp]:
  "stays G k \<Longrightarrow> stays G (put fd cs k)" "stays G k \<Longrightarrow> stays G (ufprintf fd fmt args k)" "stays G k \<Longrightarrow> stays G (uprintf fmt args k)"
proof -
  show p: "stays G k \<Longrightarrow> stays G (put fd cs k)" for fd and cs :: "u8 list" by (induction cs) simp_all
  show "stays G k \<Longrightarrow> stays G (ufprintf fd fmt args k)" "stays G k \<Longrightarrow> stays G (uprintf fmt args k)"
    by (simp_all add: ufprintf_def uprintf_def p)
qed

locale server =
  fixes P :: "'l \<Rightarrow> 'l uprog" and G :: "ucall \<Rightarrow> ures \<Rightarrow> bool"
  assumes rounds: "stays G (P l)"
begin

lemma trace_stays: "utrace P p tr q \<Longrightarrow> stays G p \<Longrightarrow> (\<forall>(c, r)\<in>set tr. G c r) \<Longrightarrow> stays G q"
proof (induction rule: utrace.induct)
  case (goto l tr q)
  then show ?case using rounds by simp
qed auto

lemma exit_cause:
  assumes "utrace P (Goto l) tr (Exit e)" shows "\<exists>(c, r)\<in>set tr. \<not> G c r"
proof (rule ccontr)
  assume "\<not> (\<exists>(c, r)\<in>set tr. \<not> G c r)"
  then have "\<forall>(c, r)\<in>set tr. G c r" by auto
  then show False using trace_stays [OF assms] by simp
qed

end

end
