(* ===== verification/ShellRun.thy ===== *)
theory ShellRun
  imports ShellProps Uproc
begin

text \<open>
  Running commands in the shell, \<^verbatim>\<open>user/sh.c\<close>: \<^verbatim>\<open>runcmd\<close> and the main loop as trees of system calls, and the descriptors of the
  processes of a pipeline.
\<close>

unbundle bit_operations_syntax

section \<open>Running a command\<close>

definition sh_panic :: "u8 list \<Rightarrow> 'l uprog" where
  "sh_panic e = ufprintf 2 ''%s\<newline>'' [pstr e] (Exit 1)"

definition fork1 :: "(int \<Rightarrow> 'l uprog) \<Rightarrow> 'l uprog" where
  "fork1 k = Call UFork (\<lambda>r. if rv r = -1 then sh_panic (str ''fork'') else k (rv r))"

primrec runcmd :: "u8 list \<Rightarrow> shcmd \<Rightarrow> 'l uprog" where
  "runcmd b (EXEC args) = (case args of [] \<Rightarrow> Exit 1
     | (q, eq) # _ \<Rightarrow> Call (UExec (sh_cstr b q) (map (\<lambda>(q, eq). sh_cstr b q) args)) (\<lambda>_.
         ufprintf 2 ''exec %s failed\<newline>'' [pstr (sh_cstr b q)] (Exit 0)))"
| "runcmd b (REDIR c q eq mode fd) =
     Call (UClose fd) (\<lambda>_. Call (UOpen (sh_cstr b q) mode) (\<lambda>r.
       if rv r < 0 then ufprintf 2 ''open %s failed\<newline>'' [pstr (sh_cstr b q)] (Exit 1)
       else runcmd b c))"
| "runcmd b (LIST c d) = fork1 (\<lambda>pid. if pid = 0 then runcmd b c else Call UWait (\<lambda>_. runcmd b d))"
| "runcmd b (PIPE c d) = Call UPipe (\<lambda>r. let p0 = fst (rfds r); p1 = snd (rfds r) in
     if rv r < 0 then sh_panic (str ''pipe'')
     else fork1 (\<lambda>pid.
       if pid = 0 then Call (UClose 1) (\<lambda>_. Call (UDup p1) (\<lambda>_. Call (UClose p0) (\<lambda>_. Call (UClose p1) (\<lambda>_. runcmd b c))))
       else fork1 (\<lambda>pid2.
         if pid2 = 0 then Call (UClose 0) (\<lambda>_. Call (UDup p0) (\<lambda>_. Call (UClose p0) (\<lambda>_. Call (UClose p1) (\<lambda>_. runcmd b d))))
         else Call (UClose p0) (\<lambda>_. Call (UClose p1) (\<lambda>_. Call UWait (\<lambda>_. Call UWait (\<lambda>_. Exit 0)))))))"
| "runcmd b (BACK c) = fork1 (\<lambda>pid. if pid = 0 then runcmd b c else Exit 0)"

section \<open>The main loop\<close>

text \<open>\<^verbatim>\<open>getcmd\<close>; the line is the C string in \<^verbatim>\<open>buf\<close>.\<close>

definition getcmd :: "(u8 list \<Rightarrow> 'l uprog) \<Rightarrow> 'l uprog" where
  "getcmd k = ufprintf 2 ''$ '' [] (gets_calls 99 [] (\<lambda>buf. k (takeWhile (\<lambda>c. c \<noteq> 0) buf)))"

text \<open>One round of the loop of \<^verbatim>\<open>main\<close> on the line \<open>l\<close>, up to the next \<^verbatim>\<open>getcmd\<close> (\<open>next\<close>).\<close>

definition sh_line :: "u8 list \<Rightarrow> 'l uprog \<Rightarrow> 'l uprog" where
  "sh_line l next =
     (if line_at l 0 = 99 \<and> line_at l 1 = 100 \<and> line_at l 2 = 32 then
        let dir = drop 3 (butlast l) in
        Call (UChdir dir) (\<lambda>r. if rv r < 0 then ufprintf 2 ''cannot cd %s\<newline>'' [pstr dir] next else next)
      else fork1 (\<lambda>pid. if pid = 0 then
          (case parsecmd l of Parsed (c, b) _ \<Rightarrow> runcmd b c | ShPanic e \<Rightarrow> sh_panic (str e)
           | Leftovers s \<Rightarrow> ufprintf 2 ''leftovers: %s\<newline>'' [pstr (drop s l)] (sh_panic (str ''syntax''))
           | OutOfFuel \<Rightarrow> sh_panic [])
        else Call UWait (\<lambda>_. next)))"

datatype sh_at = ShOpen | ShLoop

fun sh_main :: "sh_at \<Rightarrow> sh_at uprog" where
  "sh_main ShOpen = Call (UOpen (str ''console'') 2) (\<lambda>r.
     if rv r \<ge> 0 then (if rv r \<ge> 3 then Call (UClose (rv r)) (\<lambda>_. Goto ShLoop) else Goto ShOpen)
     else Goto ShLoop)"
| "sh_main ShLoop = getcmd (\<lambda>l. if l = [] then Exit 0 else sh_line l (Goto ShLoop))"

section \<open>The descriptors of a pipeline\<close>

datatype fobj = PipeRead | PipeWrite | OtherFile nat

type_synonym fdtab = "int \<Rightarrow> fobj option"

text \<open>What the calls do to the descriptor table of the process, and what the kernel promises of their results.\<close>

fun fd_effect :: "ucall \<Rightarrow> ures \<Rightarrow> fdtab \<Rightarrow> fdtab" where
  "fd_effect UPipe r T = (if rv r < 0 then T else T(fst (rfds r) := Some PipeRead, snd (rfds r) := Some PipeWrite))"
| "fd_effect (UDup fd) r T = (if rv r < 0 then T else T(rv r := T fd))"
| "fd_effect (UClose fd) r T = T(fd := None)"
| "fd_effect _ r T = T"

definition lowest_free :: "fdtab \<Rightarrow> int \<Rightarrow> bool" where
  "lowest_free T n \<longleftrightarrow> 0 \<le> n \<and> n < 16 \<and> T n = None \<and> (\<forall>k. 0 \<le> k \<and> k < n \<longrightarrow> T k \<noteq> None)"

fun fd_ok :: "ucall \<Rightarrow> ures \<Rightarrow> fdtab \<Rightarrow> bool" where
  "fd_ok UPipe r T = (rv r < 0 \<or> lowest_free T (fst (rfds r)) \<and> lowest_free (T(fst (rfds r) := Some PipeRead)) (snd (rfds r)))"
| "fd_ok (UDup fd) r T = (if T fd \<noteq> None \<and> (\<exists>n. lowest_free T n) then lowest_free T (rv r) else rv r < 0)"
| "fd_ok _ r T = True"

inductive fdrun :: "fdtab \<Rightarrow> 'l uprog \<Rightarrow> (ucall \<times> ures) list \<Rightarrow> fdtab \<Rightarrow> 'l uprog \<Rightarrow> bool" where
  here: "fdrun T p [] T p"
| call: "fd_ok c r T \<Longrightarrow> fdrun (fd_effect c r T) (k r) tr T' q \<Longrightarrow> fdrun T (Call c k) ((c, r) # tr) T' q"

inductive_simps fdrun_Nil [simp]: "fdrun T p [] T' q"
inductive_simps fdrun_Cons [simp]: "fdrun T p (x # tr) T' q"

lemma lowest_free_unique: "lowest_free T m \<Longrightarrow> lowest_free T n \<Longrightarrow> m = n"
  unfolding lowest_free_def by (metis linorder_neqE)

text \<open>After \<^verbatim>\<open>close(i)\<close>, \<^verbatim>\<open>dup\<close> gives descriptor \<open>i\<close> when the ones below are in use.\<close>

lemma dup_after_close:
  assumes "fd_ok (UDup fd) r (T(i := None))" "T fd \<noteq> None" "fd \<noteq> i" "0 \<le> i" "i < 16" "\<forall>k. 0 \<le> k \<and> k < i \<longrightarrow> T k \<noteq> None"
  shows "rv r = i" "fd_effect (UDup fd) r (T(i := None)) = T(i := T fd)"
proof -
  have l: "lowest_free (T(i := None)) i" using assms(4-6) by (simp add: lowest_free_def)
  then have "lowest_free (T(i := None)) (rv r)" using assms(1-3) l by (auto split: if_splits)
  then show "rv r = i" by (rule lowest_free_unique [OF _ l])
  then show "fd_effect (UDup fd) r (T(i := None)) = T(i := T fd)" using assms(3,4) by simp
qed

lemma pipe_fds:
  assumes "fd_ok UPipe r T" "0 \<le> rv r" "rfds r = (p, q)" "T 0 \<noteq> None" "T 1 \<noteq> None"
  shows "p \<noteq> q" "1 < p" "1 < q" "T p = None" "T q = None"
  using assms unfolding fd_ok.simps lowest_free_def fst_conv snd_conv
  by (auto split: if_splits) (smt (verit) assms(4,5) option.distinct(1))+

lemma pipeline_left:
  assumes "T 0 \<noteq> None" "T 1 \<noteq> None" "0 \<le> rv r" "rfds r = (p, q)" "rv f = 0"
    and "fdrun T (runcmd b (PIPE c d)) [(ka, r), (kb, f), (kc, u), (kd, v), (ke, w), (kf, x)] T' k"
  shows "k = runcmd b c \<and> T' = T(1 := Some PipeWrite)"
proof -
  let ?T = "T(p := Some PipeRead, q := Some PipeWrite)"
  have e: "ka = UPipe" "kb = UFork" "kc = UClose 1" "kd = UDup q" "ke = UClose p" "kf = UClose q"
    using assms(3-6) by (auto simp: fork1_def simp del: fd_ok.simps)
  note run = assms(6) [unfolded e]
  have ok: "fd_ok UPipe r T" "fd_ok (UDup q) v (?T(1 := None))"
    using assms(3-5) run by (simp_all add: fork1_def del: fd_ok.simps)
  note pq = pipe_fds [OF ok(1) assms(3,4,1,2)]
  have eff: "fd_effect (UDup q) v (?T(1 := None)) = ?T(1 := ?T q)"
    by (rule dup_after_close(2) [OF ok(2)]) (use pq assms(1) in \<open>auto simp: order_antisym_conv\<close>)
  have "k = runcmd b c" "T' = ((fd_effect (UDup q) v (?T(1 := None)))(p := None))(q := None)"
    using assms(3-5) run by (simp_all add: fork1_def del: fd_ok.simps)
  then show ?thesis unfolding eff using pq by (auto simp: fun_eq_iff)
qed

lemma pipeline_right:
  assumes "T 0 \<noteq> None" "T 1 \<noteq> None" "0 \<le> rv r" "rfds r = (p, q)" "0 < rv f" "rv g = 0"
    and "fdrun T (runcmd b (PIPE c d))
      [(ka, r), (kb, f), (kc, g), (kd, u), (ke, v), (kf, w), (kg, x)] T' k"
  shows "k = runcmd b d \<and> T' = T(0 := Some PipeRead)"
proof -
  let ?T = "T(p := Some PipeRead, q := Some PipeWrite)"
  have e: "ka = UPipe" "kb = UFork" "kc = UFork" "kd = UClose 0" "ke = UDup p" "kf = UClose p" "kg = UClose q"
    using assms(3-7) by (auto simp: fork1_def simp del: fd_ok.simps)
  note run = assms(7) [unfolded e]
  have ok: "fd_ok UPipe r T" "fd_ok (UDup p) v (?T(0 := None))"
    using assms(3-6) run by (simp_all add: fork1_def del: fd_ok.simps)
  note pq = pipe_fds [OF ok(1) assms(3,4,1,2)]
  have eff: "fd_effect (UDup p) v (?T(0 := None)) = ?T(0 := ?T p)"
    by (rule dup_after_close(2) [OF ok(2)]) (use pq in auto)
  have "k = runcmd b d" "T' = ((fd_effect (UDup p) v (?T(0 := None)))(p := None))(q := None)"
    using assms(3-6) run by (simp_all add: fork1_def del: fd_ok.simps)
  then show ?thesis unfolding eff using pq by (auto simp: fun_eq_iff)
qed

lemma pipeline_parent:
  assumes "T 0 \<noteq> None" "T 1 \<noteq> None" "0 \<le> rv r" "rfds r = (p, q)" "0 < rv f" "0 < rv g"
    and "fdrun T (runcmd b (PIPE c d)) [(ka, r), (kb, f), (kc, g), (kd, w), (ke, x)] T' k"
  shows "T' = T"
proof -
  have e: "ka = UPipe" "kb = UFork" "kc = UFork" "kd = UClose p" "ke = UClose q"
    using assms(3-7) by (auto simp: fork1_def simp del: fd_ok.simps)
  note run = assms(7) [unfolded e]
  have "fd_ok UPipe r T" using run by (auto simp del: fd_ok.simps)
  note pq = pipe_fds [OF this assms(3,4,1,2)]
  have "T' = T(p := Some PipeRead, q := Some PipeWrite, p := None, q := None)"
    using assms(3-6) run by (simp add: fork1_def del: fd_ok.simps)
  then show ?thesis using pq by (auto simp: fun_eq_iff)
qed

text \<open>
  C21. The plumbing of a pipeline.  When the shell has descriptors 0 and 1 open, \<^verbatim>\<open>pipe\<close> succeeds and \<^verbatim>\<open>fork\<close> succeeds, the left command runs with
  its standard output on the write end of the pipe, the right one with its standard input on the read end, and otherwise with the
  descriptors the shell had; the shell itself keeps neither end.  The calls are those the program makes; their results \<open>r\<close>, \<open>f\<close>, \<open>g\<close>, \<dots> are any
  the kernel may give.  So the reader sees the end of the input when the writers are gone.
\<close>

theorem pipeline_descriptors:
  assumes "T 0 \<noteq> None" "T 1 \<noteq> None" "0 \<le> rv r" "rfds r = (p, q)"
  shows "(rv f = 0 \<and> fdrun T (runcmd b (PIPE c d))
        [(ka, r), (kb, f), (kc, u), (kd, v), (ke, w), (kf, x)] T' k \<longrightarrow>
      k = runcmd b c \<and> T' = T(1 := Some PipeWrite)) \<and>
    (0 < rv f \<and> rv g = 0 \<and> fdrun T (runcmd b (PIPE c d))
        [(ka, r), (kb, f), (kc, g), (kd, u), (ke, v), (kf, w), (kg, x)] T' k \<longrightarrow>
      k = runcmd b d \<and> T' = T(0 := Some PipeRead)) \<and>
    (0 < rv f \<and> 0 < rv g \<and> fdrun T (runcmd b (PIPE c d))
        [(ka, r), (kb, f), (kc, g), (kd, w), (ke, x)] T' k \<longrightarrow> T' = T)"
  using pipeline_left [OF assms, of f b c d ka kb kc u kd v ke w kf x T' k]
    pipeline_right [OF assms, of f g b c d ka kb kc kd u ke v kf w kg x T' k]
    pipeline_parent [OF assms, of f g b c d ka kb kc kd w ke x T' k] by blast

definition sh_res :: "int \<Rightarrow> int \<times> int \<Rightarrow> ures" where
  "sh_res n fds = \<lparr>rv = n, rdata = [], rstat = \<lparr>st_dev = 0, st_ino = 0, st_type = 0, st_nlink = 0, st_size = 0\<rparr>, rfds = fds\<rparr>"

definition sh_fds :: fdtab where
  "sh_fds = (\<lambda>_. None)(0 := Some (OtherFile 1), 1 := Some (OtherFile 1), 2 := Some (OtherFile 1))"

lemma sh_fds_free: "lowest_free sh_fds 3" "lowest_free (sh_fds(3 := u, 4 := v, 1 := None)) 1"
  "lowest_free (sh_fds(3 := Some x)) 4"
  by (auto simp: lowest_free_def sh_fds_def)

theorem pipeline_descriptors_witness:
  "\<exists>T' k. fdrun sh_fds (runcmd [97, 0, 98, 0] (PIPE (EXEC [(0, 1)]) (EXEC [(2, 3)])) :: unit uprog)
      [(UPipe, sh_res 0 (3, 4)), (UFork, sh_res 0 (0, 0)), (UClose 1, sh_res 0 (0, 0)), (UDup 4, sh_res 1 (0, 0)),
       (UClose 3, sh_res 0 (0, 0)), (UClose 4, sh_res 0 (0, 0))] T' k \<and>
    k = runcmd [97, 0, 98, 0] (EXEC [(0, 1)]) \<and> T' = sh_fds(1 := Some PipeWrite)"
  (is "\<exists>T' k. ?run T' k \<and> _ k \<and> _ T'")
proof -
  have "\<exists>T' k. ?run T' k"
    using sh_fds_free by (auto simp: fork1_def sh_res_def Let_def)
  then obtain T' k where run: "?run T' k" by blast
  have nz: "sh_fds 0 \<noteq> None" "sh_fds 1 \<noteq> None" by (simp_all add: sh_fds_def)
  have "k = runcmd [97, 0, 98, 0] (EXEC [(0, 1)]) \<and> T' = sh_fds(1 := Some PipeWrite)"
    by (rule pipeline_descriptors [THEN conjunct1, THEN mp, OF nz _ _ conjI [OF _ run], of 3 4]) (simp_all add: sh_res_def)
  then show ?thesis using run by blast
qed

end
