(* ===== verification/UserTools.thy ===== *)
theory UserTools
  imports Uproc
begin

text \<open>
  Small user programs.  \<^verbatim>\<open>user/wc.c\<close> and \<^verbatim>\<open>user/cat.c\<close> are functions of the successive results of \<^verbatim>\<open>read\<close>; \<^verbatim>\<open>user/pingpong.c\<close> is a
  parent and a child that use one pipe for both directions, as a step relation over the interleavings.
\<close>

unbundle bit_operations_syntax

section \<open>wc\<close>

text \<open>The counters are unbounded here; in C they are \<^verbatim>\<open>int\<close> and overflow after 2 GiB of input.\<close>

record wc_st =
  wc_l :: int
  wc_w :: int
  wc_c :: int
  wc_inword :: bool

text \<open>\<^verbatim>\<open>strchr(" \r\t\n\v", c)\<close>: a NUL is not found, so it is part of a word.\<close>

definition wc_space :: "u8 \<Rightarrow> bool" where
  "wc_space c = (ustrchr [32, 13, 9, 10, 11] c \<noteq> None)"

definition wc_char :: "u8 \<Rightarrow> wc_st \<Rightarrow> wc_st" where
  "wc_char ch s =
     (let s = s\<lparr>wc_c := wc_c s + 1\<rparr>;
          s = (if ch = 10 then s\<lparr>wc_l := wc_l s + 1\<rparr> else s) in
      if wc_space ch then s\<lparr>wc_inword := False\<rparr>
      else if \<not> wc_inword s then s\<lparr>wc_w := wc_w s + 1, wc_inword := True\<rparr>
      else s)"

text \<open>The loop over \<^verbatim>\<open>read\<close>: \<open>None\<close> is an error, an empty result the end of the file.\<close>

fun wc_reads :: "u8 list option list \<Rightarrow> wc_st \<Rightarrow> wc_st option" where
  "wc_reads [] s = Some s"
| "wc_reads (None # rs) s = None"
| "wc_reads (Some r # rs) s = (if r = [] then Some s else wc_reads rs (fold wc_char r s))"

definition wc :: "u8 list option list \<Rightarrow> (int \<times> int \<times> int) option" where
  "wc rs = map_option (\<lambda>s. (wc_l s, wc_w s, wc_c s)) (wc_reads rs \<lparr>wc_l = 0, wc_w = 0, wc_c = 0, wc_inword = False\<rparr>)"

section \<open>cat\<close>

datatype cat_end = CatReturns | CatWriteError | CatReadError

text \<open>\<open>wr\<close> is the result of \<^verbatim>\<open>write\<close> for a chunk; the result is what was written and how \<^verbatim>\<open>cat\<close> ended.\<close>

fun cat :: "(u8 list \<Rightarrow> int) \<Rightarrow> u8 list option list \<Rightarrow> u8 list \<times> cat_end" where
  "cat wr [] = ([], CatReturns)"
| "cat wr (None # rs) = ([], CatReadError)"
| "cat wr (Some r # rs) =
     (if r = [] then ([], CatReturns)
      else if wr r \<noteq> int (length r) then (take (nat (wr r)) r, CatWriteError)
      else let (out, e) = cat wr rs in (r @ out, e))"

text \<open>
  \<^verbatim>\<open>main\<close> of \<^verbatim>\<open>cat\<close>: \<open>opens\<close> gives, for a name, the results of \<^verbatim>\<open>read\<close> on the file, or \<open>None\<close> when \<^verbatim>\<open>open\<close> fails.  The result is what
  is written to descriptor 1 and the exit status.
\<close>

primrec cat_files :: "(u8 list \<Rightarrow> int) \<Rightarrow> (u8 list \<Rightarrow> u8 list option list option) \<Rightarrow> u8 list list \<Rightarrow> u8 list \<times> int" where
  "cat_files wr opens [] = ([], 0)"
| "cat_files wr opens (f # fs) =
     (case opens f of None \<Rightarrow> ([], 1)
      | Some rs \<Rightarrow> (case cat wr rs of (out, e) \<Rightarrow>
          if e = CatReturns then (let (rest, x) = cat_files wr opens fs in (out @ rest, x)) else (out, 1)))"

definition cat_main :: "(u8 list \<Rightarrow> int) \<Rightarrow> (u8 list \<Rightarrow> u8 list option list option) \<Rightarrow> u8 list option list \<Rightarrow> u8 list list \<Rightarrow> u8 list \<times> int" where
  "cat_main wr opens stdin argv =
     (if length argv \<le> 1 then (case cat wr stdin of (out, e) \<Rightarrow> (out, if e = CatReturns then 0 else 1))
      else cat_files wr opens (tl argv))"

section \<open>main of wc and grep\<close>

definition wc_print :: "u8 list option list \<Rightarrow> u8 list \<Rightarrow> u8 list \<times> bool" where
  "wc_print rs name = (case wc rs of
     None \<Rightarrow> (str ''wc: read error\<newline>'', False)
   | Some (l, w, c) \<Rightarrow> (vprintf (str ''%d %d %d %s\<newline>'') False
       [PInt (word_of_int l), PInt (word_of_int w), PInt (word_of_int c), pstr name], True))"

primrec wc_files :: "(u8 list \<Rightarrow> u8 list option list option) \<Rightarrow> u8 list list \<Rightarrow> u8 list \<times> int" where
  "wc_files opens [] = ([], 0)"
| "wc_files opens (f # fs) =
     (case opens f of None \<Rightarrow> (vprintf (str ''wc: cannot open %s\<newline>'') False [pstr f], 1)
      | Some rs \<Rightarrow> (case wc_print rs f of (out, ok) \<Rightarrow>
          if ok then (let (rest, x) = wc_files opens fs in (out @ rest, x)) else (out, 1)))"

definition wc_main :: "(u8 list \<Rightarrow> u8 list option list option) \<Rightarrow> u8 list option list \<Rightarrow> u8 list list \<Rightarrow> u8 list \<times> int" where
  "wc_main opens stdin argv =
     (if length argv \<le> 1 then (case wc_print stdin [] of (out, ok) \<Rightarrow> (out, if ok then 0 else 1))
      else wc_files opens (tl argv))"

primrec grep_files :: "u8 list \<Rightarrow> (u8 list \<Rightarrow> u8 list list option) \<Rightarrow> u8 list list \<Rightarrow> u8 list \<times> int" where
  "grep_files pat opens [] = ([], 0)"
| "grep_files pat opens (f # fs) =
     (case opens f of None \<Rightarrow> (vprintf (str ''grep: cannot open %s\<newline>'') False [pstr f], 1)
      | Some rs \<Rightarrow> (let (rest, x) = grep_files pat opens fs in (grep pat [] rs @ rest, x)))"

definition grep_main :: "(u8 list \<Rightarrow> u8 list list option) \<Rightarrow> u8 list list \<Rightarrow> u8 list list \<Rightarrow> u8 list \<times> int" where
  "grep_main opens stdin argv =
     (if length argv \<le> 1 then ([], 1)
      else if length argv \<le> 2 then (grep (argv ! 1) [] stdin, 0)
      else grep_files (argv ! 1) opens (drop 2 argv))"

section \<open>pingpong\<close>

datatype pp_pc = PWrite | PRead | PDone "u8 list"

record pp_st =
  pp_parent :: pp_pc
  pp_child :: pp_pc
  pp_pipe :: "u8 list"

definition pp_father :: "u8 list" where "pp_father = [105, 109, 32, 121, 111, 117, 32, 102, 97, 116, 104, 101, 114]"
definition pp_son :: "u8 list" where
  "pp_son = [73, 32, 105, 115, 32, 99, 104, 105, 108, 100, 32, 102, 111, 114, 32, 121, 111, 117]"

text \<open>
  A \<^verbatim>\<open>read\<close> of \<^verbatim>\<open>BUFFER_SIZE\<close> bytes takes what is in the pipe; it waits while the pipe is empty, because both processes keep the write end
  open.  The parent writes and then reads; the child reads and then writes.
\<close>

inductive pp_step :: "pp_st \<Rightarrow> pp_st \<Rightarrow> bool" where
  parent_write: "pp_parent s = PWrite \<Longrightarrow> pp_step s (s\<lparr>pp_parent := PRead, pp_pipe := pp_pipe s @ pp_father\<rparr>)"
| parent_read: "pp_parent s = PRead \<Longrightarrow> pp_pipe s \<noteq> [] \<Longrightarrow>
    pp_step s (s\<lparr>pp_parent := PDone (take 50 (pp_pipe s)), pp_pipe := drop 50 (pp_pipe s)\<rparr>)"
| child_read: "pp_child s = PRead \<Longrightarrow> pp_pipe s \<noteq> [] \<Longrightarrow> pp_step s (s\<lparr>pp_child := PWrite, pp_pipe := drop 50 (pp_pipe s)\<rparr>)"
| child_write: "pp_child s = PWrite \<Longrightarrow> pp_step s (s\<lparr>pp_child := PDone [], pp_pipe := pp_pipe s @ pp_son\<rparr>)"

inductive_cases pp_stepE: "pp_step s t"

definition pp_init :: pp_st where
  "pp_init = \<lparr>pp_parent = PWrite, pp_child = PRead, pp_pipe = []\<rparr>"

section \<open>Properties\<close>

text \<open>The number of words: positions of a non-space that follow a space or the start.\<close>

fun word_count :: "bool \<Rightarrow> u8 list \<Rightarrow> int" where
  "word_count inw [] = 0"
| "word_count inw (c # cs) = (if wc_space c then word_count False cs else (if inw then 0 else 1) + word_count True cs)"

lemma wc_fold:
  "fold wc_char cs s = \<lparr>wc_l = wc_l s + int (length (filter (\<lambda>c. c = 10) cs)), wc_w = wc_w s + word_count (wc_inword s) cs,
    wc_c = wc_c s + int (length cs), wc_inword = (if cs = [] then wc_inword s else \<not> wc_space (last cs))\<rparr>"
  by (induction cs arbitrary: s) (auto simp: wc_char_def Let_def wc_space_def)

lemma wc_reads_concat:
  "\<lbrakk>\<forall>r\<in>set rs. r \<noteq> []\<rbrakk> \<Longrightarrow> wc_reads (map Some rs @ [Some []]) s = Some (fold wc_char (concat rs) s)"
  by (induction rs arbitrary: s) auto

text \<open>\<^verbatim>\<open>wc\<close> counts the newlines, the words and the bytes of the whole input, however the reads divide it into
  blocks.\<close>

theorem wc_counts:
  assumes "\<forall>r\<in>set rs. r \<noteq> []"
  shows "wc (map Some rs @ [Some []]) =
    Some (int (length (filter (\<lambda>c. c = 10) (concat rs))), word_count False (concat rs), int (length (concat rs)))"
  unfolding wc_def wc_reads_concat [OF assms] by (simp add: wc_fold)

text \<open>The two processes of \<^verbatim>\<open>pingpong\<close> can get stuck: the parent reads back its own message from the shared pipe, and the child then
  waits for ever although it has received nothing.\<close>

theorem pingpong_stuck:
  "\<exists>s. rtranclp pp_step pp_init s \<and> pp_parent s = PDone pp_father \<and> pp_child s = PRead \<and> (\<forall>t. \<not> pp_step s t)"
proof -
  let ?a = "\<lparr>pp_parent = PRead, pp_child = PRead, pp_pipe = pp_father\<rparr>"
  let ?b = "\<lparr>pp_parent = PDone pp_father, pp_child = PRead, pp_pipe = []\<rparr>"
  have "pp_step pp_init ?a" using parent_write [of pp_init] by (simp add: pp_init_def)
  moreover have "pp_step ?a ?b" using parent_read [of ?a] by (simp add: pp_father_def)
  ultimately have "rtranclp pp_step pp_init ?b" by (meson rtranclp.rtrancl_into_rtrancl rtranclp.rtrancl_refl)
  moreover have "\<not> pp_step ?b t" for t by (auto elim!: pp_stepE)
  ultimately show ?thesis by (intro exI [of _ ?b]) simp
qed

end
