(* ===== verification/SmallProgs.thy ===== *)
theory SmallProgs
  imports Uproc
begin

text \<open>
  The small user programs: \<^verbatim>\<open>echo\<close>, \<^verbatim>\<open>kill\<close>, \<^verbatim>\<open>ln\<close>, \<^verbatim>\<open>mkdir\<close>, \<^verbatim>\<open>rm\<close>, \<^verbatim>\<open>sleep\<close>, \<^verbatim>\<open>zombie\<close>, \<^verbatim>\<open>init\<close>, \<^verbatim>\<open>ls\<close>, \<^verbatim>\<open>find\<close> and \<^verbatim>\<open>xargs\<close>, each as the
  tree of its system calls.
\<close>

unbundle bit_operations_syntax

section \<open>Programs without unbounded loops\<close>

primrec echo_loop :: "u8 list list \<Rightarrow> unit uprog" where
  "echo_loop [] = Exit 0"
| "echo_loop (a # as) = Call (UWrite 1 a) (\<lambda>_. Call (UWrite 1 (if as = [] then [10] else [32])) (\<lambda>_. echo_loop as))"

definition echo :: "u8 list list \<Rightarrow> unit uprog" where
  "echo argv = echo_loop (tl argv)"

definition kill_main :: "u8 list list \<Rightarrow> unit uprog" where
  "kill_main argv =
     (if length argv < 2 then ufprintf 2 ''usage: kill pid...\<newline>'' [] (Exit 1)
      else foldr (\<lambda>a k. Call (UKill (sint (atoi a))) (\<lambda>_. k)) (tl argv) (Exit 0))"

definition ln_main :: "u8 list list \<Rightarrow> unit uprog" where
  "ln_main argv =
     (if length argv \<noteq> 3 then ufprintf 2 ''Usage: ln old new\<newline>'' [] (Exit 1)
      else Call (ULink (argv ! 1) (argv ! 2)) (\<lambda>r.
        if rv r < 0 then ufprintf 2 ''link %s %s: failed\<newline>'' [pstr (argv ! 1), pstr (argv ! 2)] (Exit 0) else Exit 0))"

primrec mkdir_loop :: "u8 list list \<Rightarrow> unit uprog" where
  "mkdir_loop [] = Exit 0"
| "mkdir_loop (a # as) = Call (UMkdir a) (\<lambda>r.
     if rv r < 0 then ufprintf 2 ''mkdir: %s failed to create\<newline>'' [pstr a] (Exit 0) else mkdir_loop as)"

definition mkdir_main :: "u8 list list \<Rightarrow> unit uprog" where
  "mkdir_main argv = (if length argv < 2 then ufprintf 2 ''Usage: mkdir files...\<newline>'' [] (Exit 1) else mkdir_loop (tl argv))"

primrec rm_loop :: "u8 list list \<Rightarrow> unit uprog" where
  "rm_loop [] = Exit 0"
| "rm_loop (a # as) = Call (UUnlink a) (\<lambda>r.
     if rv r < 0 then ufprintf 2 ''rm: %s failed to delete\<newline>'' [pstr a] (Exit 0) else rm_loop as)"

definition rm_main :: "u8 list list \<Rightarrow> unit uprog" where
  "rm_main argv = (if length argv < 2 then ufprintf 2 ''Usage: rm files...\<newline>'' [] (Exit 1) else rm_loop (tl argv))"

text \<open>\<^verbatim>\<open>sleep\<close> returns from \<^verbatim>\<open>main\<close> instead of calling \<^verbatim>\<open>exit\<close>.\<close>

definition sleep_main :: "u8 list list \<Rightarrow> unit uprog" where
  "sleep_main args =
     (if length args < 2 then uprintf ''Usage: %s <argument>\<newline>'' [pstr (args ! 0)] (Return (-1))
      else Call (USleep (sint (atoi (args ! 1)))) (\<lambda>_.
        uprintf ''sleeping seconds: %d \<newline>'' [PInt (atoi (args ! 1))] (Return 0)))"

definition zombie_main :: "unit uprog" where
  "zombie_main = Call UFork (\<lambda>r. if rv r > 0 then Call (USleep 5) (\<lambda>_. Exit 0) else Exit 0)"

section \<open>xargs\<close>

text \<open>
  \<^verbatim>\<open>stdin_args\<close> has fifty bytes: what \<^verbatim>\<open>read\<close> returned, and after it what the stack held (\<open>garbage\<close>).  Every newline in it forks; the
  parent waits, the child, or the parent when \<^verbatim>\<open>fork\<close> fails, runs the command with the text from \<^verbatim>\<open>extr\<close> on as its last argument.
\<close>

definition xargs_buffer :: "u8 list \<Rightarrow> u8 list \<Rightarrow> u8 list" where
  "xargs_buffer input garbage = take 50 (take 50 input @ drop (length (take 50 input)) garbage)"

primrec xargs_loop :: "u8 list list \<Rightarrow> u8 list \<Rightarrow> nat \<Rightarrow> nat \<Rightarrow> unit uprog" where
  "xargs_loop args buf extr 0 = Call UWait (\<lambda>_. Exit 0)"
| "xargs_loop args buf extr (Suc n) =
     (let i = 49 - n in
      if buf ! i = 10 then Call UFork (\<lambda>r.
        if rv r > 0 then Call UWait (\<lambda>_. xargs_loop args buf (i + 1) n)
        else Call (UExec (args ! 1) (tl args @ [takeWhile (\<lambda>c. c \<noteq> 0) (drop extr (buf[i := 0]))])) (\<lambda>_. Exit 0))
      else xargs_loop args buf extr n)"

definition xargs_main :: "u8 list list \<Rightarrow> u8 list \<Rightarrow> unit uprog" where
  "xargs_main args garbage = Call (USleep 10) (\<lambda>_. Call (URead 0 50) (\<lambda>r.
     xargs_loop args (xargs_buffer (rdata r) garbage) 0 50))"

section \<open>init\<close>

datatype init_at = IStart | ILoop | IWait int

definition init_argv :: "u8 list list" where
  "init_argv = [str ''sh'']"

fun init_main :: "init_at \<Rightarrow> init_at uprog" where
  "init_main IStart = Call (UOpen (str ''console'') 2) (\<lambda>r.
     let go = Call (UDup 0) (\<lambda>_. Call (UDup 0) (\<lambda>_. Goto ILoop)) in
     if rv r < 0 then Call (UMknod (str ''console'') 1 0) (\<lambda>_. Call (UOpen (str ''console'') 2) (\<lambda>_. go)) else go)"
| "init_main ILoop = uprintf ''init: starting sh\<newline>'' [] (Call UFork (\<lambda>r.
     if rv r < 0 then uprintf ''init: fork failed\<newline>'' [] (Exit 1)
     else if rv r = 0 then Call (UExec (str ''sh'') init_argv) (\<lambda>_. uprintf ''init: exec sh failed\<newline>'' [] (Exit 1))
     else Goto (IWait (rv r))))"
| "init_main (IWait pid) = Call UWait (\<lambda>r.
     if rv r = pid then Goto ILoop
     else if rv r < 0 then uprintf ''init: wait returned an error\<newline>'' [] (Exit 1)
     else Goto (IWait pid))"

section \<open>ls\<close>

text \<open>The part of a path after the last slash.\<close>

definition last_name :: "u8 list \<Rightarrow> u8 list" where
  "last_name path = rev (takeWhile (\<lambda>c. c \<noteq> 47) (rev path))"

definition ls_fmtname :: "u8 list \<Rightarrow> u8 list" where
  "ls_fmtname path = (let p = last_name path in
     if length p \<ge> DIRSIZ then p else p @ replicate (DIRSIZ - length p) 32)"

text \<open>The name of an entry joined to the path of its directory, as the C string in \<^verbatim>\<open>buf\<close>.\<close>

definition entry_path :: "u8 list \<Rightarrow> dirent \<Rightarrow> u8 list" where
  "entry_path path de = path @ [47] @ takeWhile (\<lambda>c. c \<noteq> 0) (take DIRSIZ (de_name de))"

definition st_args :: "stat \<Rightarrow> parg list" where
  "st_args st = [PInt (scast (st_type st)), PInt (st_ino st), PPtr (st_size st)]"

datatype ls_at = LsMain "u8 list list" | LsLoop int "u8 list" "u8 list list"

definition ls_close :: "int \<Rightarrow> u8 list list \<Rightarrow> ls_at uprog" where
  "ls_close fd rest = Call (UClose fd) (\<lambda>_. Goto (LsMain rest))"

definition ls_open :: "u8 list \<Rightarrow> u8 list list \<Rightarrow> ls_at uprog" where
  "ls_open path rest = Call (UOpen path 0) (\<lambda>r.
     if rv r < 0 then ufprintf 2 ''ls: cannot open %s\<newline>'' [pstr path] (Goto (LsMain rest))
     else Call (UFstat (rv r)) (\<lambda>s.
       if rv s < 0 then ufprintf 2 ''ls: cannot stat %s\<newline>'' [pstr path] (ls_close (rv r) rest)
       else if st_type (rstat s) = T_FILE then
         uprintf ''%s %d %d %l\<newline>'' (pstr (ls_fmtname path) # st_args (rstat s)) (ls_close (rv r) rest)
       else if st_type (rstat s) = T_DIR then
         (if length path + 1 + DIRSIZ + 1 > 512 then uprintf ''ls: path too long\<newline>'' [] (ls_close (rv r) rest)
          else Goto (LsLoop (rv r) path rest))
       else ls_close (rv r) rest))"

definition ls_entry :: "int \<Rightarrow> u8 list \<Rightarrow> u8 list list \<Rightarrow> dirent \<Rightarrow> ls_at uprog" where
  "ls_entry fd path rest de = (let buf = entry_path path de in
     ustat buf (\<lambda>r. case r of
       None \<Rightarrow> uprintf ''ls: cannot stat %s\<newline>'' [pstr buf] (Goto (LsLoop fd path rest))
     | Some st \<Rightarrow> uprintf ''%s %d %d %d\<newline>'' (pstr (ls_fmtname buf) # st_args st) (Goto (LsLoop fd path rest))))"

fun ls_main :: "ls_at \<Rightarrow> ls_at uprog" where
  "ls_main (LsMain []) = Exit 0"
| "ls_main (LsMain (a # as)) = ls_open a as"
| "ls_main (LsLoop fd path rest) = Call (URead fd 16) (\<lambda>r.
     if rv r \<noteq> 16 then ls_close fd rest
     else if de_inum (dirent_read (rdata r)) = 0 then Goto (LsLoop fd path rest)
     else ls_entry fd path rest (dirent_read (rdata r)))"

definition ls_start :: "u8 list list \<Rightarrow> ls_at" where
  "ls_start argv = LsMain (if length argv < 2 then [[46]] else tl argv)"

section \<open>find\<close>

text \<open>
  \<^verbatim>\<open>find\<close> calls itself for the entries of a directory.  The label of its loop carries the stack of the calls that are under way: the
  descriptor and the path of each; returning from a call resumes the loop of the caller, or \<^verbatim>\<open>main\<close>.
\<close>

datatype find_at = FCall "u8 list" "(int \<times> u8 list) list" | FLoop "(int \<times> u8 list) list"

text \<open>\<^verbatim>\<open>fmtname\<close> pads the name with NULs, so as a C string it is the name.\<close>

definition find_fmtname :: "u8 list \<Rightarrow> u8 list" where
  "find_fmtname path = (let p = last_name path in
     if length p \<ge> DIRSIZ then p else takeWhile (\<lambda>c. c \<noteq> 0) (p @ replicate (DIRSIZ - length p) 0))"

definition find_close :: "int \<Rightarrow> (int \<times> u8 list) list \<Rightarrow> find_at uprog" where
  "find_close fd stk = Call (UClose fd) (\<lambda>_. Goto (FLoop stk))"

definition find_open :: "u8 list \<Rightarrow> (int \<times> u8 list) list \<Rightarrow> find_at uprog" where
  "find_open path stk = Call (UOpen path 0) (\<lambda>r.
     if rv r < 0 then ufprintf 2 ''find: cannot open %s\<newline>'' [pstr path] (Goto (FLoop stk))
     else Call (UFstat (rv r)) (\<lambda>s.
       if rv s < 0 then ufprintf 2 ''find: cannot stat %s\<newline>'' [pstr path] (find_close (rv r) stk)
       else if st_type (rstat s) = T_DIR then
         (if length path + 1 + DIRSIZ + 1 > 512 then uprintf ''ls: path too long\<newline>'' [] (find_close (rv r) stk)
          else Goto (FLoop ((rv r, path) # stk)))
       else find_close (rv r) stk))"

definition find_entry :: "u8 list \<Rightarrow> u8 list \<Rightarrow> (int \<times> u8 list) list \<Rightarrow> find_at uprog" where
  "find_entry target buf stk =
     ustat buf (\<lambda>r.
       if r = None then uprintf ''ls: cannot stat %s\<newline>'' [pstr buf] (Goto (FLoop stk))
       else if ustrcmp (find_fmtname buf) target = 0 then uprintf ''%s\<newline>'' [pstr buf] (Goto (FLoop stk))
       else if ustrcmp (find_fmtname buf) [46] \<noteq> 0 \<and> ustrcmp (find_fmtname buf) [46, 46] \<noteq> 0 then Goto (FCall buf stk)
       else Goto (FLoop stk))"

fun find_main :: "u8 list \<Rightarrow> find_at \<Rightarrow> find_at uprog" where
  "find_main target (FCall path stk) = find_open path stk"
| "find_main target (FLoop []) = Exit 0"
| "find_main target (FLoop ((fd, path) # stk)) = Call (URead fd 16) (\<lambda>r.
     if rv r \<noteq> 16 then find_close fd stk
     else if de_inum (dirent_read (rdata r)) = 0 then Goto (FLoop ((fd, path) # stk))
     else find_entry target (entry_path path (dirent_read (rdata r))) ((fd, path) # stk))"

definition find_start :: "u8 list list \<Rightarrow> find_at \<times> u8 list" where
  "find_start args =
     (if length args = 2 then (FCall [46] [], args ! 1)
      else if length args = 3 then (FCall (args ! 1) [], args ! 2)
      else (FLoop [], []))"

section \<open>Properties\<close>

definition ls_fds :: "ls_at \<Rightarrow> int" where
  "ls_fds l = (case l of LsMain _ \<Rightarrow> 0 | LsLoop _ _ _ \<Rightarrow> 1)"

definition find_fds :: "find_at \<Rightarrow> int" where
  "find_fds l = (case l of FCall _ stk \<Rightarrow> int (length stk) | FLoop stk \<Rightarrow> int (length stk))"

interpretation ls_fd: bookkeeping ls_main ls_fds
proof
  show "books ls_fds (ls_fds l) (ls_main l)" for l
    by (induction l rule: ls_main.induct)
      (auto simp: ls_fds_def ls_open_def ls_close_def ls_entry_def Let_def split: option.split intro!: books_ustat)
qed

interpretation find_fd: bookkeeping "find_main target" find_fds
proof
  show "books find_fds (find_fds l) (find_main target l)" for l
    by (induction target l rule: find_main.induct)
      (auto simp: find_fds_def find_open_def find_close_def find_entry_def intro!: books_ustat)
qed


definition ok_res :: "int \<Rightarrow> u16 \<Rightarrow> ures" where
  "ok_res n ty = \<lparr>rv = n, rdata = [], rstat = \<lparr>st_dev = 1, st_ino = 1, st_type = ty, st_nlink = 1, st_size = 0\<rparr>, rfds = (0, 0)\<rparr>"


text \<open>In the process that runs \<^verbatim>\<open>init\<close>: \<^verbatim>\<open>fork\<close> returns the child to it, and \<^verbatim>\<open>wait\<close> a child.\<close>

definition init_good :: "ucall \<Rightarrow> ures \<Rightarrow> bool" where
  "init_good c r = (case c of UFork \<Rightarrow> 0 < rv r | UWait \<Rightarrow> 0 \<le> rv r | _ \<Rightarrow> True)"

interpretation init_srv: server init_main init_good
proof
  show "stays init_good (init_main l)" for l
    by (induction l rule: init_main.induct) (auto simp: init_good_def Let_def)
qed



end
