(* ===== verification/UserProgs.thy ===== *)
theory UserProgs
  imports Main
begin

text \<open>
  User programs on top of the system calls.  \<^verbatim>\<open>user/primes.c\<close> is a sieve over one pipe that a process
  reads and writes in turn: a call of \<^verbatim>\<open>primes\<close> reads the numbers the previous one wrote.  The model
  of a call takes those numbers and the global \<^verbatim>\<open>count\<close>.
\<close>

datatype primes_result = Print "int list" | Recurse "int list" nat | OutOfBounds

abbreviation (input) NUMS_LIMIT :: int where "NUMS_LIMIT \<equiv> 35"

text \<open>\<^verbatim>\<open>nums[count]\<close> is a read outside the array when \<^verbatim>\<open>count\<close> is not below \<^verbatim>\<open>len\<close>.\<close>

definition primes :: "int list \<Rightarrow> nat \<Rightarrow> primes_result" where
  "primes nums count =
     (if count \<ge> length nums then OutOfBounds
      else if nums ! count \<ge> NUMS_LIMIT then Print nums
      else let r = nums ! count in Recurse (filter (\<lambda>x. x mod r \<noteq> 0 \<or> x = r) nums) (count + 1))"

text \<open>The recursion; the first argument bounds its depth.\<close>

fun primes_run :: "nat \<Rightarrow> int list \<Rightarrow> nat \<Rightarrow> int list \<times> nat \<times> primes_result" where
  "primes_run 0 nums count = (nums, count, primes nums count)"
| "primes_run (Suc k) nums count = (case primes nums count of
      Recurse nums' count' \<Rightarrow> primes_run k nums' count'
    | r \<Rightarrow> (nums, count, r))"

text \<open>What \<^verbatim>\<open>main\<close> writes to the pipe before it forks.\<close>

definition primes_input :: "int list" where
  "primes_input = [2..NUMS_LIMIT]"

text \<open>
  The sieve of \<^verbatim>\<open>primes\<close> keeps exactly the primes up to 35, and after the last of them it does not
  stop: the eleventh recursive call reads \<^verbatim>\<open>nums[11]\<close> of an array of eleven numbers, because no prime
  reaches the limit that would end the recursion.
\<close>

theorem primes_overrun:
  "primes_run 20 primes_input 0 = ([2, 3, 5, 7, 11, 13, 17, 19, 23, 29, 31], 11, OutOfBounds)"
  by code_simp

end
