(* ===== verification/Umalloc.thy ===== *)
theory Umalloc
  imports Prelude
begin

text \<open>
  The memory allocator of the user programs, \<^verbatim>\<open>user/umalloc.c\<close>.  Addresses count units of \<^verbatim>\<open>sizeof(Header)\<close> (16 bytes), so \<^verbatim>\<open>p + 1\<close> is the next unit.
  \<open>u_base\<close> is the address of the static \<^verbatim>\<open>base\<close>, below the heap; \<open>u_freep\<close> is 0 for the null pointer; \<open>u_brk\<close> is the program
  break.  \<^verbatim>\<open>sbrk\<close> is the parameter \<open>grant\<close>: whether the kernel gives that many bytes.  The counters bound the searches along the
  circular list.
\<close>

record um_st =
  u_base :: nat
  u_ptr :: "nat \<Rightarrow> nat"
  u_size :: "nat \<Rightarrow> 32 word"
  u_freep :: nat
  u_brk :: nat

section \<open>The code\<close>

fun free_find :: "nat \<Rightarrow> (nat \<Rightarrow> nat) \<Rightarrow> nat \<Rightarrow> nat \<Rightarrow> nat option" where
  "free_find 0 nx bp p = None"
| "free_find (Suc k) nx bp p =
     (if bp > p \<and> bp < nx p then Some p
      else if p \<ge> nx p \<and> (bp > p \<or> bp < nx p) then Some p
      else free_find k nx bp (nx p))"

text \<open>The rest of \<^verbatim>\<open>free\<close>, once \<open>p\<close> is found.\<close>

definition join_upper :: "nat \<Rightarrow> nat \<Rightarrow> um_st \<Rightarrow> um_st" where
  "join_upper p bp s =
     (let n = u_ptr s p in
      if bp + unat (u_size s bp) = n
      then s\<lparr>u_size := (u_size s)(bp := u_size s bp + u_size s n), u_ptr := (u_ptr s)(bp := u_ptr s n)\<rparr>
      else s\<lparr>u_ptr := (u_ptr s)(bp := n)\<rparr>)"

definition join_lower :: "nat \<Rightarrow> nat \<Rightarrow> um_st \<Rightarrow> um_st" where
  "join_lower p bp s =
     (if p + unat (u_size s p) = bp
      then s\<lparr>u_size := (u_size s)(p := u_size s p + u_size s bp), u_ptr := (u_ptr s)(p := u_ptr s bp)\<rparr>
      else s\<lparr>u_ptr := (u_ptr s)(p := bp)\<rparr>)"

definition free :: "nat \<Rightarrow> nat \<Rightarrow> um_st \<Rightarrow> um_st option" where
  "free k ap s = (let bp = ap - 1 in
     map_option (\<lambda>p. (join_lower p bp (join_upper p bp s))\<lparr>u_freep := p\<rparr>) (free_find k (u_ptr s) bp (u_freep s)))"

text \<open>\<^verbatim>\<open>nu * sizeof(Header)\<close> is a 64-bit product; \<^verbatim>\<open>sbrk\<close> takes an \<^verbatim>\<open>int\<close>.\<close>

definition sbrk_arg :: "32 word \<Rightarrow> int" where
  "sbrk_arg nu = sint (ucast (ucast nu * 16 :: 64 word) :: 32 word)"

definition morecore :: "(int \<Rightarrow> bool) \<Rightarrow> nat \<Rightarrow> 32 word \<Rightarrow> um_st \<Rightarrow> (nat option \<times> um_st) option" where
  "morecore grant k nu0 s = (let nu = (if nu0 < 4096 then 4096 else nu0) in
     if \<not> grant (sbrk_arg nu) then Some (None, s)
     else let hp = u_brk s; s1 = s\<lparr>u_brk := nat (int (u_brk s) + sbrk_arg nu div 16), u_size := (u_size s)(hp := nu)\<rparr> in
       map_option (\<lambda>s2. (Some (u_freep s2), s2)) (free k (hp + 1) s1))"

definition nunits :: "32 word \<Rightarrow> 32 word" where
  "nunits nbytes = ucast ((ucast nbytes + 16 - 1) div 16 + 1 :: 64 word)"

text \<open>Taking \<open>n\<close> units from the block at \<open>p\<close>, whose predecessor is \<open>prevp\<close>.\<close>

definition carve :: "nat \<Rightarrow> nat \<Rightarrow> 32 word \<Rightarrow> um_st \<Rightarrow> nat \<times> um_st" where
  "carve prevp p n s =
     (if u_size s p = n then (p + 1, s\<lparr>u_ptr := (u_ptr s)(prevp := u_ptr s p), u_freep := prevp\<rparr>)
      else let sz = u_size s p - n; q = p + unat sz in
        (q + 1, s\<lparr>u_size := (u_size s)(p := sz, q := n), u_freep := prevp\<rparr>))"

fun malloc_loop :: "(int \<Rightarrow> bool) \<Rightarrow> nat \<Rightarrow> nat \<Rightarrow> nat \<Rightarrow> 32 word \<Rightarrow> um_st \<Rightarrow> (nat option \<times> um_st) option" where
  "malloc_loop grant 0 prevp p n s = None"
| "malloc_loop grant (Suc k) prevp p n s =
     (if u_size s p \<ge> n then (let (r, t) = carve prevp p n s in Some (Some r, t))
      else if p = u_freep s then
        (case morecore grant k n s of
           None \<Rightarrow> None
         | Some (None, t) \<Rightarrow> Some (None, t)
         | Some (Some p', t) \<Rightarrow> malloc_loop grant k p' (u_ptr t p') n t)
      else malloc_loop grant k p (u_ptr s p) n s)"

definition malloc :: "(int \<Rightarrow> bool) \<Rightarrow> nat \<Rightarrow> 32 word \<Rightarrow> um_st \<Rightarrow> (nat option \<times> um_st) option" where
  "malloc grant k nbytes s =
     (let s1 = (if u_freep s = 0
                then s\<lparr>u_ptr := (u_ptr s)(u_base s := u_base s), u_freep := u_base s, u_size := (u_size s)(u_base s := 0)\<rparr> else s) in
      malloc_loop grant k (u_freep s1) (u_ptr s1 (u_freep s1)) (nunits nbytes) s1)"

section \<open>The free list\<close>

fun path :: "(nat \<Rightarrow> nat) \<Rightarrow> nat list \<Rightarrow> nat \<Rightarrow> bool" where
  "path nx [] z = True"
| "path nx [a] z = (nx a = z)"
| "path nx (a # b # xs) z = (nx a = b \<and> path nx (b # xs) z)"

lemma path_append: "path nx (us @ p # vs) z \<longleftrightarrow> path nx us p \<and> path nx (p # vs) z"
proof (induction us)
  case Nil
  then show ?case by simp
next
  case (Cons a us)
  then show ?case by (cases us) auto
qed

lemma path_upd: "a \<notin> set us \<Longrightarrow> path (nx(a := b)) us z = path nx us z"
  by (induction us rule: induct_list012) auto

lemma path_hd: "path nx (p # vs) z \<Longrightarrow> nx p = hd (vs @ [z])"
  by (cases vs) auto

text \<open>
  The blocks \<open>xs\<close> in address order after \<open>u_base\<close>: they are linked in a circle, they are not empty, they lie between the base and the
  break and no two of them touch, so the space is coalesced.
\<close>

definition apart :: "(nat \<Rightarrow> 32 word) \<Rightarrow> nat \<Rightarrow> nat \<Rightarrow> bool" where
  "apart sz a b = (a + unat (sz a) < b)"

definition flist :: "um_st \<Rightarrow> nat list \<Rightarrow> bool" where
  "flist s xs =
     (path (u_ptr s) (u_base s # xs) (u_base s) \<and> sorted_wrt (apart (u_size s)) (u_base s # xs) \<and>
      u_size s (u_base s) = 0 \<and> (\<forall>x\<in>set xs. u_size s x \<noteq> 0 \<and> x + unat (u_size s x) \<le> u_brk s) \<and>
      u_freep s \<in> set (u_base s # xs) \<and> u_brk s < 2 ^ 32)"

definition units :: "(nat \<Rightarrow> 32 word) \<Rightarrow> nat list \<Rightarrow> nat set" where
  "units sz xs = (\<Union>x\<in>set xs. {x..<x + unat (sz x)})"

section \<open>The search in free\<close>

lemma find_skip:
  assumes "path nx ws z" "\<forall>w\<in>set ws. \<not> (bp > w \<and> bp < nx w) \<and> \<not> (w \<ge> nx w \<and> (bp > w \<or> bp < nx w))"
  shows "free_find (length ws + k) nx bp (hd (ws @ [z])) = free_find k nx bp z"
  using assms
proof (induction ws)
  case Nil
  then show ?case by simp
next
  case (Cons w ws)
  have "path nx ws z" using Cons.prems(1) by (cases ws) auto
  then show ?case using Cons path_hd [OF Cons.prems(1)] by auto
qed

lemma free_find_pred:
  assumes c: "path nx (us @ p # vs) b" and hd: "hd (us @ [p]) = b" and srt: "sorted_wrt (<) (us @ p # vs)"
    and bp: "p < bp" "\<forall>v\<in>set vs. bp < v" "b < bp" and m: "p0 \<in> set (us @ p # vs)" and k: "length (us @ p # vs) \<le> k"
  shows "free_find k nx bp p0 = Some p"
proof -
  have pu: "path nx us p" and pv: "path nx (p # vs) b" using c path_append by blast+
  have stop: "free_find (Suc j) nx bp p = Some p" for j
  proof (cases vs)
    case Nil
    then have "nx p = b" using pv by simp
    moreover have "b \<le> p" using hd srt by (cases us) auto
    ultimately show ?thesis using bp by simp
  next
    case (Cons v vs')
    then have "nx p = v" using pv by simp
    then show ?thesis using bp Cons by simp
  qed
  have nu: "\<forall>w\<in>set u2. \<not> (bp > w \<and> bp < nx w) \<and> \<not> (w \<ge> nx w \<and> (bp > w \<or> bp < nx w))" if "us = u1 @ u2" for u1 u2
  proof
    fix w assume "w \<in> set u2"
    then obtain a0 d where "u2 = a0 @ w # d" by (meson split_list)
    then have d: "us = (u1 @ a0) @ w # d" using that by simp
    have "nx w = hd (d @ [p])" using pu path_append [of nx "u1 @ a0" w d p] d path_hd [of nx w d p] by simp
    moreover have "hd (d @ [p]) \<in> set (d @ [p])" by (cases d) auto
    ultimately have "w < nx w" "nx w \<le> p" using srt d by (auto simp: sorted_wrt_append)
    then show "\<not> (bp > w \<and> bp < nx w) \<and> \<not> (w \<ge> nx w \<and> (bp > w \<or> bp < nx w))" using bp by auto
  qed
  have nv: "\<forall>w\<in>set v2. \<not> (bp > w \<and> bp < nx w) \<and> \<not> (w \<ge> nx w \<and> (bp > w \<or> bp < nx w))" if "vs = v1 @ v2" for v1 v2
  proof
    fix w assume w: "w \<in> set v2"
    then obtain a0 d where "v2 = a0 @ w # d" by (meson split_list)
    then have d: "vs = (v1 @ a0) @ w # d" using that by simp
    have "path nx ((us @ p # v1 @ a0) @ w # d) b" using c d by simp
    then have x: "nx w = hd (d @ [b])" using path_append [of nx "us @ p # v1 @ a0" w d b] path_hd [of nx w d b] by blast
    have "bp < w" using bp d by simp
    moreover have "nx w = b \<or> w < nx w" using x srt d by (cases d) (auto simp: sorted_wrt_append)
    ultimately show "\<not> (bp > w \<and> bp < nx w) \<and> \<not> (w \<ge> nx w \<and> (bp > w \<or> bp < nx w))" using bp by auto
  qed
  have from_us: "free_find (length us + Suc j) nx bp b = Some p" for j
    using find_skip [OF pu nu [of "[]" us], of "Suc j"] stop hd by (simp del: free_find.simps)
  consider (u) u1 u2 where "us = u1 @ p0 # u2" | (p) "p0 = p" | (v) v1 v2 where "vs = v1 @ p0 # v2"
    using m by (auto dest: split_list)
  then show ?thesis
  proof cases
    case u
    then have "path nx (p0 # u2) p" using pu path_append by blast
    then have "free_find (length (p0 # u2) + Suc (k - length (p0 # u2) - 1)) nx bp p0 = Some p"
      using find_skip [of nx "p0 # u2" p bp "Suc (k - length (p0 # u2) - 1)"] nu [OF u] stop by (simp del: free_find.simps)
    moreover have "length (p0 # u2) + Suc (k - length (p0 # u2) - 1) = k" using k u by simp
    ultimately show ?thesis by metis
  next
    case p
    then show ?thesis using stop [of "k - 1"] k by (cases k) simp_all
  next
    case v
    then have "path nx ((us @ p # v1) @ p0 # v2) b" using c by simp
    then have pv2: "path nx (p0 # v2) b" using path_append by blast
    let ?j = "k - length (p0 # v2) - length us - 1"
    have "free_find (length (p0 # v2) + (length us + Suc ?j)) nx bp p0 = Some p"
      using find_skip [OF pv2 nv [OF v], of "length us + Suc ?j"] from_us [of ?j] by (simp del: free_find.simps)
    moreover have "length (p0 # v2) + (length us + Suc ?j) = k" using k v by simp
    ultimately show ?thesis by metis
  qed
qed

section \<open>free\<close>

lemma unat_join: "bp + unat (a :: 32 word) + unat b \<le> brk \<Longrightarrow> brk < 2 ^ 32 \<Longrightarrow> unat (a + b) = unat a + unat b"
  by (rule unat_add_nowrap) simp

lemma units_Cons: "units sz (x # xs) = {x..<x + unat (sz x)} \<union> units sz xs"
  by (simp add: units_def)

lemma units_Nil [simp]: "units sz [] = {}"
  by (simp add: units_def)

lemma units_upd: "a \<notin> set xs \<Longrightarrow> units (sz(a := n)) xs = units sz xs"
  by (induction xs) (auto simp: units_Cons)

lemma apart_upd: "a \<notin> set xs \<Longrightarrow> sorted_wrt (apart (sz(a := n))) xs = sorted_wrt (apart sz) xs"
  by (induction xs) (auto simp: apart_def)

lemma join_upper_spec:
  assumes p: "path (u_ptr s) (p # vs) b" and n: "bp \<notin> set vs" "b < bp" and srt: "sorted_wrt (apart (u_size s)) vs"
    and d: "\<forall>v\<in>set vs. bp + unat (u_size s bp) \<le> v \<and> u_size s v \<noteq> 0 \<and> v + unat (u_size s v) \<le> u_brk s"
    and k: "u_brk s < 2 ^ 32" "bp + unat (u_size s bp) \<le> u_brk s" "u_size s bp \<noteq> 0"
  obtains m rest where
    "join_upper p bp s = s\<lparr>u_size := (u_size s)(bp := m), u_ptr := (u_ptr s)(bp := hd (rest @ [b]))\<rparr>"
    "path (u_ptr s) rest b" "set rest \<subseteq> set vs" "sorted_wrt (apart ((u_size s)(bp := m))) (bp # rest)"
    "m \<noteq> 0" "bp + unat m \<le> u_brk s"
    "units ((u_size s)(bp := m)) (bp # rest) = {bp..<bp + unat (u_size s bp)} \<union> units (u_size s) vs"
proof (cases "bp + unat (u_size s bp) = u_ptr s p")
  case True
  have "vs \<noteq> []" using True p n(2) by auto
  then obtain v ws where vs: "vs = v # ws" by (cases vs) auto
  have pv: "u_ptr s p = v" "path (u_ptr s) (v # ws) b" using p vs by simp_all
  then have v: "bp + unat (u_size s bp) = v" "u_ptr s v = hd (ws @ [b])" using True path_hd [OF pv(2)] by simp_all
  let ?m = "u_size s bp + u_size s v"
  have m: "unat ?m = unat (u_size s bp) + unat (u_size s v)"
    using d v k by (intro unat_join [of bp _ _ "u_brk s"]) (auto simp: vs)
  have nz: "unat (u_size s v) \<noteq> 0" using d vs by (simp add: unat_eq_zero)
  show ?thesis
  proof (rule that [where m = ?m and rest = ws])
    show "join_upper p bp s = s\<lparr>u_size := (u_size s)(bp := ?m), u_ptr := (u_ptr s)(bp := hd (ws @ [b]))\<rparr>"
      using True pv v by (simp add: join_upper_def Let_def)
    show "path (u_ptr s) ws b" using pv(2) by (cases ws) auto
    show "set ws \<subseteq> set vs" using vs by auto
    show "sorted_wrt (apart ((u_size s)(bp := ?m))) (bp # ws)"
      using srt vs n(1) m v by (auto simp: apart_upd apart_def)
    show "?m \<noteq> 0" using m nz by (metis add_is_0 unat_0)
    show "bp + unat ?m \<le> u_brk s" using m v d vs by auto
    show "units ((u_size s)(bp := ?m)) (bp # ws) = {bp..<bp + unat (u_size s bp)} \<union> units (u_size s) vs"
      using n(1) vs m v by (auto simp: units_Cons units_upd)
  qed
next
  case False
  let ?m = "u_size s bp"
  have pv: "u_ptr s p = hd (vs @ [b])" using path_hd [OF p] .
  show ?thesis
  proof (rule that [where m = ?m and rest = vs])
    show "join_upper p bp s = s\<lparr>u_size := (u_size s)(bp := ?m), u_ptr := (u_ptr s)(bp := hd (vs @ [b]))\<rparr>"
      using False pv by (simp add: join_upper_def Let_def)
    show "path (u_ptr s) vs b" using p by (cases vs) auto
    have "bp + unat ?m \<noteq> hd (vs @ [b])" using False pv by simp
    moreover have "sorted_wrt (<) vs" using srt by (rule sorted_wrt_mono_rel [rotated]) (simp add: apart_def)
    ultimately have "\<forall>v\<in>set vs. bp + unat ?m < v" using d by (cases vs) fastforce+
    then show "sorted_wrt (apart ((u_size s)(bp := ?m))) (bp # vs)" using srt by (simp add: apart_def)
    show "units ((u_size s)(bp := ?m)) (bp # vs) = {bp..<bp + unat (u_size s bp)} \<union> units (u_size s) vs"
      by (simp add: units_Cons)
  qed (use k in auto)
qed

lemma path_Cons: "path nx (a # vs) z \<longleftrightarrow> nx a = hd (vs @ [z]) \<and> path nx vs z"
  by (cases vs) auto

lemma flistI:
  assumes "ns \<noteq> []" "hd ns = u_base s" "path (u_ptr s) ns (u_base s)" "sorted_wrt (apart (u_size s)) ns" "u_size s (u_base s) = 0"
    and "\<forall>x\<in>set ns. x = u_base s \<or> u_size s x \<noteq> 0 \<and> x + unat (u_size s x) \<le> u_brk s" "u_freep s \<in> set ns" "u_brk s < 2 ^ 32"
  shows "flist s (tl ns)" "units (u_size s) (tl ns) = units (u_size s) ns"
proof -
  have ns: "ns = u_base s # tl ns" using assms(1,2) by (cases ns) auto
  have "\<forall>x\<in>set (tl ns). x \<noteq> u_base s" using assms(4) by (subst (asm) ns) (auto simp: apart_def)
  moreover have "set (tl ns) \<subseteq> set ns" using ns by (metis set_subset_Cons)
  ultimately show "flist s (tl ns)" using assms ns unfolding flist_def by auto
  show "units (u_size s) (tl ns) = units (u_size s) ns" using assms(5) by (subst (2) ns) (simp add: units_Cons)
qed

lemma units_self: "x \<in> set xs \<Longrightarrow> sz x \<noteq> 0 \<Longrightarrow> x \<in> units sz xs"
  unfolding units_def by (rule UN_I [of x]) (auto simp: unat_gt_0)

lemma units_append: "units sz (xs @ ys) = units sz xs \<union> units sz ys"
  by (auto simp: units_def)

text \<open>The list around the block to be freed.\<close>

lemma free_split:
  assumes f: "flist s xs" and b: "u_base s < bp" and dj: "bp \<notin> units (u_size s) xs"
  obtains us p vs where "u_base s # xs = us @ p # vs" "hd (us @ [p]) = u_base s" "p < bp" "\<forall>v\<in>set vs. bp < v"
    "\<forall>u\<in>set us. u < p" "p + unat (u_size s p) \<le> bp"
proof -
  let ?ns = "u_base s # xs"
  have srt: "sorted_wrt (apart (u_size s)) ?ns" using f by (simp add: flist_def)
  then have lt: "sorted_wrt (<) ?ns" by (rule sorted_wrt_mono_rel [rotated]) (simp add: apart_def)
  have mem: "x \<noteq> bp" if "x \<in> set ?ns" for x
  proof
    assume "x = bp"
    then have "bp \<in> set xs" using that b by auto
    then have "bp \<in> units (u_size s) xs" using f by (auto simp: flist_def units_def unat_gt_0)
    then show False using dj by blast
  qed
  let ?a = "takeWhile (\<lambda>x. x < bp) ?ns"
  have "?a \<noteq> []" using b by simp
  then obtain us p where a: "?a = us @ [p]" by (cases ?a rule: rev_cases) auto
  let ?v = "dropWhile (\<lambda>x. x < bp) ?ns"
  have e: "?ns = us @ p # ?v" using a takeWhile_dropWhile_id [of "\<lambda>x. x < bp" ?ns] by (metis append.assoc append_Cons append_Nil)
  have "p \<in> set ?a" using a by simp
  then have p: "p < bp" by (rule set_takeWhileD [THEN conjunct2])
  have v: "\<forall>v\<in>set ?v. bp < v"
  proof
    fix v assume v: "v \<in> set ?v"
    then obtain w ws where w: "?v = w # ws" by (cases ?v) auto
    have "\<not> w < bp" using w hd_dropWhile [of "\<lambda>x. x < bp" ?ns] by auto
    moreover have "w \<le> v" using v w lt by (subst (asm) e) (auto simp: sorted_wrt_append)
    ultimately have "bp \<le> v" by simp
    moreover have "v \<in> set ?ns" using v by (subst e) simp
    then have "v \<noteq> bp" by (rule mem)
    ultimately show "bp < v" by simp
  qed
  have u: "\<forall>u\<in>set us. u < p" using lt by (subst (asm) e) (auto simp: sorted_wrt_append)
  have "p + unat (u_size s p) \<le> bp"
  proof (cases "p = u_base s")
    case True
    then show ?thesis using b f by (simp add: flist_def)
  next
    case False
    moreover have "p \<in> set ?ns" by (subst e) simp
    ultimately have "p \<in> set xs" by simp
    then show ?thesis using dj p by (auto simp: units_def not_less)
  qed
  moreover have "hd (us @ [p]) = u_base s" using e by (cases us) auto
  ultimately show ?thesis using that e p v u by blast
qed

text \<open>The second half of \<^verbatim>\<open>free\<close> on a list in which \<open>bp\<close> is already linked to what follows it.\<close>

lemma join_lower_flist:
  fixes s :: um_st
  defines "b \<equiv> u_base s"
  assumes pu: "path (u_ptr s) us p" and pv: "path (u_ptr s) (bp # vs) b" and hd: "hd (us @ [p]) = b"
    and lo: "sorted_wrt (apart (u_size s)) (us @ [p])" and hi: "sorted_wrt (apart (u_size s)) (bp # vs)"
    and mid: "\<forall>u\<in>set us. u < p" "p < bp" "p + unat (u_size s p) \<le> bp" "b < bp"
    and z: "u_size s b = 0" and k: "u_brk s < 2 ^ 32"
    and ok: "\<forall>x\<in>set (us @ p # bp # vs). x = b \<or> u_size s x \<noteq> 0 \<and> x + unat (u_size s x) \<le> u_brk s"
  defines "t \<equiv> (join_lower p bp s)\<lparr>u_freep := p\<rparr>"
  shows "\<exists>ys. flist t ys \<and> units (u_size t) ys = units (u_size s) (us @ p # bp # vs)"
proof -
  have vb: "\<forall>v\<in>set vs. bp + unat (u_size s bp) < v" using hi by (simp add: apart_def)
  have up: "u + unat (u_size s u) < p" if "u \<in> set us" for u using lo that by (simp add: sorted_wrt_append apart_def)
  have far: "\<forall>u\<in>set us. u + unat (u_size s u) < bp" "\<forall>u\<in>set us. \<forall>v\<in>set vs. u + unat (u_size s u) < v"
    using up mid(2) vb by (meson less_trans trans_less_add1)+
  have nin: "p \<notin> set us" "p \<notin> set vs" "p \<noteq> bp" "bp \<notin> set us" using mid vb by auto
  show ?thesis
  proof (cases "p + unat (u_size s p) = bp")
    case True
    have pb: "p \<noteq> b" using True mid(4) z by auto
    have bpb: "bp \<noteq> b" using mid(4) by simp
    let ?m = "u_size s p + u_size s bp"
    have m: "unat ?m = unat (u_size s p) + unat (u_size s bp)"
      using ok bpb True k by (intro unat_join [of p _ _ "u_brk s"]) auto
    have t: "u_ptr t = (u_ptr s)(p := u_ptr s bp)" "u_size t = (u_size s)(p := ?m)" "u_freep t = p" "u_brk t = u_brk s" "u_base t = b"
      using True by (simp_all add: t_def join_lower_def b_def)
    let ?ns = "us @ p # vs"
    have "path (u_ptr t) ?ns b"
      using pu pv nin by (simp add: path_append path_Cons path_upd t)
    moreover have "sorted_wrt (apart (u_size t)) ?ns"
      using lo hi nin vb m True mid far by (auto simp: sorted_wrt_append t apart_upd apart_def)
    moreover have "?m \<noteq> 0" using m ok pb by (metis add_is_0 in_set_conv_decomp unat_0 unat_eq_zero)
    moreover have "p + unat ?m \<le> u_brk s" using m True ok bpb by auto
    ultimately have f: "flist t (tl ?ns)" "units (u_size t) (tl ?ns) = units (u_size t) ?ns"
      using hd z k pb ok by (intro flistI; cases us; auto simp: t)+
    have "units (u_size t) ?ns = units (u_size s) (us @ p # bp # vs)"
      using nin m True by (auto simp: units_append units_Cons units_upd t)
    then show ?thesis using f by auto
  next
    case False
    have t: "u_ptr t = (u_ptr s)(p := bp)" "u_size t = u_size s" "u_freep t = p" "u_brk t = u_brk s" "u_base t = b"
      using False by (simp_all add: t_def join_lower_def b_def)
    let ?ns = "us @ p # bp # vs"
    have "path (u_ptr t) ?ns b"
      using pu pv nin by (simp add: path_append path_Cons path_upd t)
    moreover have "sorted_wrt (apart (u_size t)) ?ns"
      using lo hi vb mid False far by (auto simp: sorted_wrt_append t apart_def)
    ultimately have "flist t (tl ?ns)" "units (u_size t) (tl ?ns) = units (u_size t) ?ns"
      using hd z k ok by (intro flistI; cases us; auto simp: t)+
    then show ?thesis by (auto simp: t)
  qed
qed

text \<open>The neighbours of the block to be freed and the result of the search.\<close>

lemma free_neighbours:
  assumes f: "flist s xs" and k: "length xs < k" and b: "u_base s < bp" and sz: "u_size s bp \<noteq> 0"
    and dj: "{bp..<bp + unat (u_size s bp)} \<inter> units (u_size s) xs = {}"
  obtains us p vs where "u_base s # xs = us @ p # vs" "hd (us @ [p]) = u_base s" "p < bp" "\<forall>v\<in>set vs. bp < v"
    "\<forall>u\<in>set us. u < p" "p + unat (u_size s p) \<le> bp" "free_find k (u_ptr s) bp (u_freep s) = Some p"
    "\<forall>v\<in>set vs. bp + unat (u_size s bp) \<le> v \<and> u_size s v \<noteq> 0 \<and> v + unat (u_size s v) \<le> u_brk s"
proof -
  have "bp \<in> {bp..<bp + unat (u_size s bp)}" using sz by (simp add: unat_gt_0)
  then have bp: "bp \<notin> units (u_size s) xs" using dj by blast
  obtain us p vs where ns: "u_base s # xs = us @ p # vs" and hd: "hd (us @ [p]) = u_base s" and pb: "p < bp" "\<forall>v\<in>set vs. bp < v"
    and u: "\<forall>u\<in>set us. u < p" and lo: "p + unat (u_size s p) \<le> bp"
    by (rule free_split [OF f b bp]) blast
  have G: "path (u_ptr s) (us @ p # vs) (u_base s)" "sorted_wrt (apart (u_size s)) (us @ p # vs)" "u_freep s \<in> set (us @ p # vs)"
    using f unfolding flist_def ns by blast+
  have "sorted_wrt (<) (us @ p # vs)" using G(2) by (rule sorted_wrt_mono_rel [rotated]) (simp add: apart_def)
  moreover have "length (us @ p # vs) \<le> k" using k arg_cong [OF ns, of length] by simp
  ultimately have find: "free_find k (u_ptr s) bp (u_freep s) = Some p"
    using G(1,3) hd pb b by (intro free_find_pred [of _ us p vs "u_base s"]) auto
  have vs: "set vs \<subseteq> set xs" using ns by (cases us) auto
  have "bp + unat (u_size s bp) \<le> v \<and> u_size s v \<noteq> 0 \<and> v + unat (u_size s v) \<le> u_brk s" if v: "v \<in> set vs" for v
  proof -
    have F: "u_size s v \<noteq> 0 \<and> v + unat (u_size s v) \<le> u_brk s" using f v vs by (auto simp: flist_def)
    then have "v \<in> units (u_size s) xs" using v vs by (intro units_self) auto
    then have "v \<notin> {bp..<bp + unat (u_size s bp)}" using dj by blast
    then show ?thesis using F v pb(2) by (auto simp: not_less)
  qed
  then show ?thesis using that ns hd pb u lo find by blast
qed

text \<open>Both joins, on the list around \<open>bp\<close>.\<close>

lemma free_join:
  fixes s :: um_st
  defines "b \<equiv> u_base s"
  assumes f: "flist s xs" and ns: "b # xs = us @ p # vs" and hd: "hd (us @ [p]) = b" and pb: "p < bp" "\<forall>v\<in>set vs. bp < v" "b < bp"
    and u: "\<forall>u\<in>set us. u < p" and lo: "p + unat (u_size s p) \<le> bp" and sz: "u_size s bp \<noteq> 0" "bp + unat (u_size s bp) \<le> u_brk s"
    and vs: "\<forall>v\<in>set vs. bp + unat (u_size s bp) \<le> v \<and> u_size s v \<noteq> 0 \<and> v + unat (u_size s v) \<le> u_brk s"
  defines "t \<equiv> (join_lower p bp (join_upper p bp s))\<lparr>u_freep := p\<rparr>"
  shows "\<exists>ys. flist t ys \<and> units (u_size t) ys = units (u_size s) (us @ p # vs) \<union> {bp..<bp + unat (u_size s bp)}"
proof -
  have F: "u_size s b = 0" "\<forall>x\<in>set xs. u_size s x \<noteq> 0 \<and> x + unat (u_size s x) \<le> u_brk s" "u_brk s < 2 ^ 32"
    and G: "path (u_ptr s) (us @ p # vs) b" "sorted_wrt (apart (u_size s)) (us @ p # vs)"
    using f unfolding flist_def b_def ns [unfolded b_def] by blast+
  have pv: "path (u_ptr s) us p" "path (u_ptr s) (p # vs) b" using G(1) path_append by blast+
  obtain m rest where ju: "join_upper p bp s = s\<lparr>u_size := (u_size s)(bp := m), u_ptr := (u_ptr s)(bp := hd (rest @ [b]))\<rparr>"
    and r: "path (u_ptr s) rest b" "set rest \<subseteq> set vs" "sorted_wrt (apart ((u_size s)(bp := m))) (bp # rest)"
    and m: "m \<noteq> 0" "bp + unat m \<le> u_brk s"
    and un: "units ((u_size s)(bp := m)) (bp # rest) = {bp..<bp + unat (u_size s bp)} \<union> units (u_size s) vs"
    by (rule join_upper_spec [OF pv(2)]) (use pb G(2) vs F(3) sz in \<open>auto simp: sorted_wrt_append\<close>)
  let ?s = "s\<lparr>u_size := (u_size s)(bp := m), u_ptr := (u_ptr s)(bp := hd (rest @ [b]))\<rparr>"
  have nb: "bp \<notin> set us" "bp \<noteq> p" "bp \<notin> set rest" "bp \<noteq> b" using u pb r(2) by auto
  have ok: "x = b \<or> u_size ?s x \<noteq> 0 \<and> x + unat (u_size ?s x) \<le> u_brk ?s" if x: "x \<in> set (us @ p # bp # rest)" for x
  proof (cases "x = bp")
    case True
    then show ?thesis using m by simp
  next
    case False
    then have "x \<in> set (us @ p # vs)" using x r(2) by auto
    then show ?thesis using F(2) False unfolding ns [symmetric] by auto
  qed
  have "\<exists>ys. flist t ys \<and> units (u_size t) ys = units (u_size ?s) (us @ p # bp # rest)"
    unfolding t_def ju
  proof (rule join_lower_flist)
    show "path (u_ptr ?s) us p" using pv(1) nb by (simp add: path_upd)
    show "path (u_ptr ?s) (bp # rest) (u_base ?s)" using r(1) nb by (simp add: path_Cons path_upd b_def)
    show "sorted_wrt (apart (u_size ?s)) (us @ [p])" using G(2) nb by (auto simp: sorted_wrt_append apart_upd apart_def)
  qed (use hd r(3) u pb lo F(1,3) nb ok in \<open>auto simp: b_def\<close>)
  moreover have "units (u_size ?s) (us @ p # bp # rest) =
      units (u_size s) us \<union> {p..<p + unat (u_size s p)} \<union> ({bp..<bp + unat (u_size s bp)} \<union> units (u_size s) vs)"
    using un nb by (simp add: units_append units_Cons [of _ p] units_upd Un_assoc)
  ultimately show ?thesis by (auto simp: units_append units_Cons)
qed

text \<open>C17. \<^verbatim>\<open>free\<close> returns: the search along the circular list ends, the list stays sorted and coalesced, and the free memory grows by exactly the
  block that is freed, whichever neighbours it is joined with.\<close>

theorem free_adds_block:
  assumes f: "flist s xs" and k: "length xs < k" and b: "u_base s < bp"
    and sz: "u_size s bp \<noteq> 0" "bp + unat (u_size s bp) \<le> u_brk s"
    and dj: "{bp..<bp + unat (u_size s bp)} \<inter> units (u_size s) xs = {}"
  shows "\<exists>t ys. free k (bp + 1) s = Some t \<and> flist t ys \<and>
    units (u_size t) ys = units (u_size s) xs \<union> {bp..<bp + unat (u_size s bp)}"
proof -
  obtain us p vs where n: "u_base s # xs = us @ p # vs" "hd (us @ [p]) = u_base s" "p < bp" "\<forall>v\<in>set vs. bp < v"
    "\<forall>u\<in>set us. u < p" "p + unat (u_size s p) \<le> bp" "free_find k (u_ptr s) bp (u_freep s) = Some p"
    "\<forall>v\<in>set vs. bp + unat (u_size s bp) \<le> v \<and> u_size s v \<noteq> 0 \<and> v + unat (u_size s v) \<le> u_brk s"
    by (rule free_neighbours [OF f k b sz(1) dj])
  have "units (u_size s) (us @ p # vs) = units (u_size s) xs"
    using f arg_cong [OF n(1), of "units (u_size s)"] by (simp add: units_Cons flist_def)
  then show ?thesis
    using free_join [OF f n(1,2,3,4) b n(5,6) sz n(8)] n(7) by (simp add: free_def)
qed

text \<open>A heap of four units whose first two are free; the third is freed and joined to them.\<close>

definition small_heap :: um_st where
  "small_heap = \<lparr>u_base = 1, u_ptr = (\<lambda>p. if p = 1 then 10 else 1), u_size = (\<lambda>p. if p = 1 then 0 else if p = 10 then 2 else 1), u_freep = 1, u_brk = 14\<rparr>"

theorem free_adds_block_witness:
  "flist small_heap [10] \<and> (\<exists>t ys. free 5 13 small_heap = Some t \<and> flist t ys \<and> units (u_size t) ys = {10..<13})"
proof -
  have f: "flist small_heap [10]" by (simp add: flist_def small_heap_def apart_def)
  have u: "units (u_size small_heap) [10] = {10..<12}" "u_size small_heap 12 = 1" by (simp_all add: units_def small_heap_def)
  have "\<exists>t ys. free 5 (12 + 1) small_heap = Some t \<and> flist t ys \<and>
      units (u_size t) ys = units (u_size small_heap) [10] \<union> {12..<12 + unat (u_size small_heap 12)}"
    by (rule free_adds_block [OF f]) (auto simp: u small_heap_def units_def)
  moreover have "{10..<12} \<union> {12..<13} = {10..<13 :: nat}" by auto
  ultimately show ?thesis using f u by simp
qed

end
