(* ===== verification/Mkfs.thy ===== *)
theory Mkfs
  imports DiskLayout
begin

text \<open>
  The host program \<^verbatim>\<open>mkfs/mkfs.c\<close> that builds the initial disk image.  The image is the list of its sectors; reading
  past its end and a write the host has no room for end the program (\<^verbatim>\<open>die\<close>), as does a failed \<^verbatim>\<open>assert\<close>.  The host's files
  are a parameter: the successive results of \<^verbatim>\<open>read\<close>, or \<open>None\<close> when \<^verbatim>\<open>open\<close> fails.
\<close>

unbundle bit_operations_syntax

section \<open>State\<close>

abbreviation (input) NINODES :: nat where "NINODES \<equiv> 200"

record mkfs_st =
  img :: "u8 list list"
  room :: nat
  mk_sb :: superblock
  freeinode :: u32
  freeblock :: u32

type_synonym 'a mkm = "(mkfs_st, 'a) kmon"

definition nbitmap :: nat where
  "nbitmap = FSSIZE div (BSIZE * 8) + 1"

definition ninodeblocks :: nat where
  "ninodeblocks = NINODES div 16 + 1"

definition nmeta :: nat where
  "nmeta = 2 + LOGSIZE + ninodeblocks + nbitmap"

definition zeroes :: "u8 list" where
  "zeroes = replicate BSIZE 0"

text \<open>\<^verbatim>\<open>xshort\<close> and \<^verbatim>\<open>xint\<close> store the bytes in little-endian order and read them back in the order of the host.\<close>

definition xshort :: "u16 \<Rightarrow> u16" where
  "xshort x = le_word [ucast x, ucast (drop_bit 8 x)]"

definition xint :: "u32 \<Rightarrow> u32" where
  "xint x = le_word [ucast x, ucast (drop_bit 8 x), ucast (drop_bit 16 x), ucast (drop_bit 24 x)]"

definition die :: "string \<Rightarrow> 'a mkm" where
  "die e = panic e"

definition mk_assert :: "bool \<Rightarrow> unit mkm" where
  "mk_assert b = (if b then ret () else panic ''assert'')"

section \<open>Sectors\<close>

text \<open>\<^verbatim>\<open>sec * BSIZE\<close> is computed in 32 bits.\<close>

definition sector :: "u32 \<Rightarrow> nat" where
  "sector sec = unat (sec * of_nat BSIZE) div BSIZE"

definition put_sector :: "nat \<Rightarrow> u8 list \<Rightarrow> u8 list list \<Rightarrow> u8 list list" where
  "put_sector k b im = (im @ replicate (Suc k - length im) zeroes)[k := b]"

definition wsect :: "u32 \<Rightarrow> u8 list \<Rightarrow> unit mkm" where
  "wsect sec buf = (bind (gets room) (\<lambda>r.
    if sector sec < r then modify (\<lambda>s. s\<lparr>img := put_sector (sector sec) buf (img s)\<rparr>) else die ''write''))"

definition rsect :: "u32 \<Rightarrow> u8 list mkm" where
  "rsect sec = (bind (gets img) (\<lambda>im.
    if sector sec < length im then ret (im ! sector sec) else die ''read''))"

section \<open>Inodes\<close>

definition winode :: "u32 \<Rightarrow> dinode \<Rightarrow> unit mkm" where
  "winode inum d = (bind (gets mk_sb) (\<lambda>b.
    bind (rsect (IBLOCK inum b)) (\<lambda>buf.
    wsect (IBLOCK inum b) (splice buf (dinode_off inum) (dinode_bytes d)))))"

definition rinode :: "u32 \<Rightarrow> dinode mkm" where
  "rinode inum = (bind (gets mk_sb) (\<lambda>b.
    bind (rsect (IBLOCK inum b)) (\<lambda>buf.
    ret (dinode_read buf (dinode_off inum)))))"

definition mk_ialloc :: "u16 \<Rightarrow> u32 mkm" where
  "mk_ialloc type = (bind (gets freeinode) (\<lambda>inum.
    bind (modify (\<lambda>s. s\<lparr>freeinode := inum + 1\<rparr>)) (\<lambda>_.
    bind (winode inum ((empty_dinode (xshort type))\<lparr>d_nlink := xshort 1, d_size := xint 0\<rparr>)) (\<lambda>_.
    ret inum))))"

definition mk_balloc :: "u32 \<Rightarrow> unit mkm" where
  "mk_balloc used = (bind (mk_assert (sint used < int (BSIZE * 8))) (\<lambda>_.
    (let buf = fold (\<lambda>i b. set_bitmap b i) [0..<nat (sint used)] (replicate BSIZE 0) in
    bind (gets mk_sb) (\<lambda>b.
    wsect (sb_bmapstart b) buf))))"

section \<open>Appending to a file\<close>

text \<open>\<^verbatim>\<open>freeblock++\<close>.\<close>

definition freeblock_next :: "u32 mkm" where
  "freeblock_next = (bind (gets freeblock) (\<lambda>b.
    bind (modify (\<lambda>s. s\<lparr>freeblock := b + 1\<rparr>)) (\<lambda>_.
    ret b)))"

text \<open>An address of the inode, allocated when it is zero.\<close>

definition mk_addr :: "dinode \<Rightarrow> nat \<Rightarrow> dinode mkm" where
  "mk_addr din k =
     (if xint (d_addrs din k) = 0 then (bind freeblock_next (\<lambda>b.
       ret (din\<lparr>d_addrs := (d_addrs din)(k := xint b)\<rparr>)))
      else ret din)"

text \<open>The block of the file that \<^verbatim>\<open>fbn\<close> names: the inode with the addresses allocated on the way, and \<^verbatim>\<open>x\<close>.\<close>

definition mk_bmap :: "dinode \<Rightarrow> nat \<Rightarrow> (dinode \<times> u32) mkm" where
  "mk_bmap din fbn =
     (if fbn < NDIRECT then (bind (mk_addr din fbn) (\<lambda>din.
       ret (din, xint (d_addrs din fbn))))
      else (bind (mk_addr din NDIRECT) (\<lambda>din.
        bind (rsect (xint (d_addrs din NDIRECT))) (\<lambda>indirect.
        if get32 indirect (4 * (fbn - NDIRECT)) = 0 then (bind freeblock_next (\<lambda>b.
          (let indirect = put32 indirect (4 * (fbn - NDIRECT)) (xint b) in
          bind (wsect (xint (d_addrs din NDIRECT)) indirect) (\<lambda>_.
          ret (din, xint (get32 indirect (4 * (fbn - NDIRECT))))))))
         else ret (din, xint (get32 indirect (4 * (fbn - NDIRECT))))))))"

text \<open>\<^verbatim>\<open>min(n, (fbn + 1) * BSIZE - off)\<close>.\<close>

definition mk_chunk :: "u32 \<Rightarrow> u8 list \<Rightarrow> nat" where
  "mk_chunk off p = min (length p) (unat ((off div 1024 + 1) * 1024 - off))"

lemma mk_chunk_pos:
  assumes "p \<noteq> []" and "unat (off div 1024) < 268"
  shows "0 < mk_chunk off p"
proof -
  have "unat off div 1024 < 268" using assms(2) by (simp add: unat_div_distrib)
  then have o: "unat off < 268 * 1024" by (simp add: less_mult_imp_div_less div_less_iff_less_mult)
  have "unat ((off div 1024 + 1) * 1024) = (unat off div 1024 + 1) * 1024"
    using o by (simp add: unat_word_ariths unat_div_distrib)
  then have "off \<noteq> (off div 1024 + 1) * 1024" using o by (metis div_mult_self_is_m less_add_one less_irrefl zero_less_numeral)
  then show ?thesis using assms(1) by (simp add: mk_chunk_def unat_gt_0)
qed

function mk_append :: "dinode \<Rightarrow> u32 \<Rightarrow> u8 list \<Rightarrow> (dinode \<times> u32) mkm" where
  "mk_append din off p =
     (if p = [] then ret (din, off)
      else if \<not> unat (off div 1024) < MAXFILE then panic ''assert''
      else bind (mk_bmap din (unat (off div 1024))) (\<lambda>r.
        bind (rsect (snd r)) (\<lambda>buf.
        bind (wsect (snd r) (splice buf (unat (off - off div 1024 * 1024)) (take (mk_chunk off p) p))) (\<lambda>_.
        mk_append (fst r) (off + of_nat (mk_chunk off p)) (drop (mk_chunk off p) p)))))"
  by pat_completeness auto
termination
  by (relation "measure (\<lambda>(din, off, p). length p)") (use mk_chunk_pos in \<open>auto simp: diff_less\<close>)

declare mk_append.simps [simp del]

definition iappend :: "u32 \<Rightarrow> u8 list \<Rightarrow> unit mkm" where
  "iappend inum p = (bind (rinode inum) (\<lambda>din.
    bind (mk_append din (xint (d_size din)) p) (\<lambda>r.
    winode inum ((fst r)\<lparr>d_size := xint (snd r)\<rparr>))))"

section \<open>The program\<close>

definition mk_superblock :: superblock where
  "mk_superblock = \<lparr>sb_magic = FSMAGIC, sb_size = xint (of_nat FSSIZE), sb_nblocks = xint (of_nat (FSSIZE - nmeta)),
     sb_ninodes = xint (of_nat NINODES), sb_nlog = xint (of_nat LOGSIZE), sb_logstart = xint 2,
     sb_inodestart = xint (of_nat (2 + LOGSIZE)), sb_bmapstart = xint (of_nat (2 + LOGSIZE + ninodeblocks))\<rparr>"

definition superblock_bytes :: "superblock \<Rightarrow> u8 list" where
  "superblock_bytes b = le_bytes 4 (sb_magic b) @ le_bytes 4 (sb_size b) @ le_bytes 4 (sb_nblocks b) @
     le_bytes 4 (sb_ninodes b) @ le_bytes 4 (sb_nlog b) @ le_bytes 4 (sb_logstart b) @
     le_bytes 4 (sb_inodestart b) @ le_bytes 4 (sb_bmapstart b)"

text \<open>A directory entry: \<^verbatim>\<open>bzero\<close>, the inode number, and \<^verbatim>\<open>strncpy\<close> of the name.\<close>

definition mk_dirent :: "u32 \<Rightarrow> u8 list \<Rightarrow> u8 list" where
  "mk_dirent inum name = dirent_bytes \<lparr>de_inum = xshort (ucast inum), de_name = take DIRSIZ (name @ replicate DIRSIZ 0)\<rparr>"

text \<open>The name of a file without \<^verbatim>\<open>user/\<close>.\<close>

definition shortname :: "u8 list \<Rightarrow> u8 list" where
  "shortname a = (if take 5 a = [117, 115, 101, 114, 47] then drop 5 a else a)"

definition skip_underscore :: "u8 list \<Rightarrow> u8 list" where
  "skip_underscore a = (case a of c # cs \<Rightarrow> if c = 95 then cs else a | [] \<Rightarrow> a)"

definition mk_file :: "(u8 list \<Rightarrow> u8 list list option) \<Rightarrow> u32 \<Rightarrow> u8 list \<Rightarrow> unit mkm" where
  "mk_file host rootino arg = (bind (mk_assert (47 \<notin> set (shortname arg))) (\<lambda>_.
    case host arg of
      None \<Rightarrow> die ''open''
    | Some rs \<Rightarrow> (bind (mk_ialloc T_FILE) (\<lambda>inum.
      bind (iappend rootino (mk_dirent inum (skip_underscore (shortname arg)))) (\<lambda>_.
      forM (takeWhile (\<lambda>r. r \<noteq> []) rs) (iappend inum))))))"

text \<open>The correction of the size of the root directory.\<close>

definition mk_root_size :: "u32 \<Rightarrow> unit mkm" where
  "mk_root_size rootino = (bind (rinode rootino) (\<lambda>din.
    winode rootino (din\<lparr>d_size := xint ((xint (d_size din) div 1024 + 1) * 1024)\<rparr>)))"

definition mk_format :: "unit mkm" where
  "mk_format = (bind (modify (\<lambda>s. s\<lparr>mk_sb := mk_superblock, freeblock := of_nat nmeta\<rparr>)) (\<lambda>_.
    bind (forM [0..<FSSIZE] (\<lambda>i. wsect (of_nat i) zeroes)) (\<lambda>_.
    wsect 1 (splice (replicate BSIZE 0) 0 (superblock_bytes mk_superblock)))))"

definition mk_root :: "u32 mkm" where
  "mk_root = (bind (mk_ialloc T_DIR) (\<lambda>rootino.
    bind (mk_assert (rootino = ROOTINO)) (\<lambda>_.
    bind (iappend rootino (mk_dirent rootino [46])) (\<lambda>_.
    bind (iappend rootino (mk_dirent rootino [46, 46])) (\<lambda>_.
    ret rootino)))))"

text \<open>\<^verbatim>\<open>main\<close> after the check of \<^verbatim>\<open>argc\<close> and the opening of the empty image; \<^verbatim>\<open>args\<close> are the arguments after the image.\<close>

definition mkfs :: "(u8 list \<Rightarrow> u8 list list option) \<Rightarrow> u8 list list \<Rightarrow> unit mkm" where
  "mkfs host args = (bind mk_format (\<lambda>_.
    bind mk_root (\<lambda>rootino.
    bind (forM args (mk_file host rootino)) (\<lambda>_.
    bind (mk_root_size rootino) (\<lambda>_.
    bind (gets freeblock) (\<lambda>used.
    mk_balloc used))))))"

definition mkfs_start :: "nat \<Rightarrow> mkfs_st" where
  "mkfs_start r = \<lparr>img = [], room = r, mk_sb = \<lparr>sb_magic = 0, sb_size = 0, sb_nblocks = 0, sb_ninodes = 0, sb_nlog = 0,
     sb_logstart = 0, sb_inodestart = 0, sb_bmapstart = 0\<rparr>, freeinode = 1, freeblock = 0\<rparr>"

definition mkfs_main :: "nat \<Rightarrow> (u8 list \<Rightarrow> u8 list list option) \<Rightarrow> bool \<Rightarrow> u8 list list \<Rightarrow> string + u8 list list" where
  "mkfs_main r host opens argv =
     (if length argv < 2 then Inl ''usage''
      else if \<not> opens then Inl ''open''
      else case mkfs host (drop 2 argv) (mkfs_start r) of Ok _ s \<Rightarrow> Inr (img s) | Panic e \<Rightarrow> Inl e | Blocked c s \<Rightarrow> Inl [])"

end
