(* ===== verification/MkfsImage.thy ===== *)
theory MkfsImage
  imports Mkfs LogSteps
begin

text \<open>
  The image that \<^verbatim>\<open>mkfs/mkfs.c\<close> builds, read as a set of files: the closed forms of the sector and inode operations, the
  addresses of an inode as a function on slots, and the effect of \<^verbatim>\<open>iappend\<close>'s loop on the bytes of the file.
\<close>

unbundle bit_operations_syntax

section \<open>Sectors and inodes\<close>

lemma xint_id [simp]: "xint x = x"
proof -
  have "xint x = le_word (le_bytes 4 x)" by (simp add: xint_def numeral_eq_Suc)
  then show ?thesis by simp
qed

lemma xshort_id [simp]: "xshort x = x"
proof -
  have "xshort x = le_word (le_bytes 2 x)" by (simp add: xshort_def numeral_eq_Suc)
  then show ?thesis by simp
qed

lemma sector_small: "unat x < 4194304 \<Longrightarrow> sector x = unat x"
  by (simp add: sector_def unat_word_ariths)

lemma length_splice [simp]: "off + length xs \<le> length bs \<Longrightarrow> length (splice bs off xs) = length bs"
  by (simp add: splice_def)

lemma nth_splice:
  assumes "off + length xs \<le> length bs" "i < length bs"
  shows "splice bs off xs ! i = (if off \<le> i \<and> i < off + length xs then xs ! (i - off) else bs ! i)"
  using assms by (auto simp: splice_def nth_append)

lemma take_drop_splice_other:
  assumes "off + length xs \<le> length bs" "k + n \<le> off \<or> off + length xs \<le> k" "k + n \<le> length bs"
  shows "take n (drop k (splice bs off xs)) = take n (drop k bs)"
  using assms by (intro nth_equalityI) (auto simp: nth_splice)

lemma dinode_read_other:
  assumes "off + 64 \<le> length bs" "k + 64 \<le> length bs" "k + 64 \<le> off \<or> off + 64 \<le> k" "length xs = 64"
  shows "dinode_read (splice bs off xs) k = dinode_read bs k"
proof -
  have h: "j + 2 \<le> 64 \<Longrightarrow> get16 (splice bs off xs) (k + j) = get16 bs (k + j)" for j
    using assms by (simp add: get16_def, subst take_drop_splice_other) auto
  from this [of 0] have z: "get16 (splice bs off xs) k = get16 bs k" by simp
  have g: "get32 (splice bs off xs) (k + j) = get32 bs (k + j)" if "j + 4 \<le> 64" for j
    using assms that by (simp add: get32_def, subst take_drop_splice_other) auto
  have a: "(\<lambda>i. if i < 13 then get32 (splice bs off xs) (k + 12 + 4 * i) else 0) =
      (\<lambda>i. if i < 13 then get32 bs (k + 12 + 4 * i) else 0)"
    using g [of "12 + 4 * i" for i] by (auto simp: fun_eq_iff add.assoc)
  show ?thesis unfolding dinode_read_def by (simp only: z a h [of 2] h [of 4] h [of 6] g [of 8])
qed

text \<open>The image has its thousand sectors.\<close>

definition mok :: "mkfs_st \<Rightarrow> bool" where
  "mok s \<longleftrightarrow> length (img s) = FSSIZE \<and> FSSIZE \<le> room s \<and> mk_sb s = mk_superblock \<and> (\<forall>x<FSSIZE. length (img s ! x) = BSIZE)"

lemma rsect_ok: "mok s \<Longrightarrow> unat x < 1000 \<Longrightarrow> rsect x s = Ok (img s ! unat x) s"
  by (simp add: rsect_def mok_def sector_small mon_simps)

lemma wsect_ok: "mok s \<Longrightarrow> unat x < 1000 \<Longrightarrow> wsect x b s = Ok () (s\<lparr>img := (img s)[unat x := b]\<rparr>)"
  by (simp add: wsect_def mok_def sector_small mon_simps put_sector_def)

lemma mok_put: "mok s \<Longrightarrow> length b = 1024 \<Longrightarrow> mok (s\<lparr>img := (img s)[x := b]\<rparr>)"
  by (auto simp: mok_def) (metis nth_list_update_eq nth_list_update_neq)

lemma mok_free [simp]: "mok (s\<lparr>freeblock := b\<rparr>) = mok s" "mok (s\<lparr>freeinode := i\<rparr>) = mok s"
  by (simp_all add: mok_def)

definition ino :: "u8 list list \<Rightarrow> u32 \<Rightarrow> dinode" where
  "ino S i = dinode_read (S ! (32 + unat i div 16)) (64 * (unat i mod 16))"

definition put_ino :: "u32 \<Rightarrow> dinode \<Rightarrow> u8 list list \<Rightarrow> u8 list list" where
  "put_ino i d S = S[32 + unat i div 16 := splice (S ! (32 + unat i div 16)) (64 * (unat i mod 16)) (dinode_bytes d)]"

lemma unat_IBLOCK: "unat i < 208 \<Longrightarrow> unat (IBLOCK i mk_superblock) = 32 + unat i div 16"
proof -
  assume i: "unat i < 208"
  have "IBLOCK i mk_superblock = i div 16 + 32" by (simp add: IBLOCK_def mk_superblock_def)
  moreover have "unat (i div 16 + 32) = unat i div 16 + 32"
    using i by (simp add: unat_word_ariths unat_div_distrib)
  ultimately show ?thesis by simp
qed

lemma dinode_off_unat: "dinode_off i = 64 * (unat i mod 16)"
  by (simp add: dinode_off_def unat_mod_distrib)

lemma rinode_ok: "mok s \<Longrightarrow> unat i < 208 \<Longrightarrow> rinode i s = Ok (ino (img s) i) s"
  by (simp add: rinode_def mon_simps rsect_ok unat_IBLOCK dinode_off_unat ino_def mok_def [THEN iffD1])

lemma winode_ok: "mok s \<Longrightarrow> unat i < 208 \<Longrightarrow> winode i d s = Ok () (s\<lparr>img := put_ino i d (img s)\<rparr>)"
  by (simp add: winode_def mon_simps rsect_ok wsect_ok unat_IBLOCK dinode_off_unat put_ino_def mok_def [THEN iffD1])

lemma mok_put_ino: "mok s \<Longrightarrow> unat i < 208 \<Longrightarrow> mok (s\<lparr>img := put_ino i d (img s)\<rparr>)"
  unfolding put_ino_def by (rule mok_put) (auto simp: mok_def)

lemma put_ino_nth: "46 \<le> x \<Longrightarrow> unat i < 208 \<Longrightarrow> put_ino i d S ! x = S ! x"
  by (simp add: put_ino_def)

lemma ino_put:
  assumes "mok s" "unat i < 208" "unat j < 208" "\<And>k. 13 \<le> k \<Longrightarrow> d_addrs d k = 0"
  shows "ino (put_ino i d (img s)) j = (if i = j then d else ino (img s) j)"
proof (cases "unat i div 16 = unat j div 16")
  case True
  let ?b = "img s ! (32 + unat i div 16)"
  have l: "length ?b = 1024" "32 + unat i div 16 < length (img s)" using assms(1,2) by (auto simp: mok_def)
  then have e: "ino (put_ino i d (img s)) j = dinode_read (splice ?b (64 * (unat i mod 16)) (dinode_bytes d)) (64 * (unat j mod 16))"
    using True by (simp add: ino_def put_ino_def)
  have b: "n mod 16 * 64 + 64 \<le> 1024" for n :: nat
    using mod_less_divisor [of 16 n] by linarith
  show ?thesis
  proof (cases "i = j")
    case True
    then show ?thesis using assms(4) l b [of "unat i"] unfolding e by (simp add: dinode_read_splice dinode_read_bytes)
  next
    case False
    then have "unat i mod 16 \<noteq> unat j mod 16"
      using True by (metis mult_div_mod_eq word_unat_eq_iff)
    then show ?thesis
      using False True l b [of "unat i"] b [of "unat j"] unfolding e by (subst dinode_read_other) (auto simp: ino_def mult.commute)
  qed
next
  case False
  then show ?thesis by (auto simp: ino_def put_ino_def)
qed

lemma ino_high: "13 \<le> k \<Longrightarrow> d_addrs (ino S i) k = 0"
  by (simp add: ino_def dinode_read_def)

lemma ino_data: "unat i < 208 \<Longrightarrow> 45 \<le> x \<Longrightarrow> ino (S[x := b]) i = ino S i"
  by (simp add: ino_def)

section \<open>The addresses of an inode\<close>

text \<open>Slots 0 to 267 are the addresses of the blocks of the file, slot 268 is that of the indirect block.\<close>

definition slot :: "u8 list list \<Rightarrow> dinode \<Rightarrow> nat \<Rightarrow> u32" where
  "slot S d k = (if k < 12 then d_addrs d k else if k = 268 then d_addrs d 12
     else if k < 268 \<and> d_addrs d 12 \<noteq> 0 then get32 (S ! unat (d_addrs d 12)) (4 * (k - 12)) else 0)"

lemma slot_direct: "k < 12 \<Longrightarrow> slot S (d\<lparr>d_addrs := (d_addrs d)(k := w)\<rparr>) = (slot S d)(k := w)"
  by (auto simp: slot_def fun_eq_iff)

lemma get32_zeroes: "get32 zeroes k = 0"
proof -
  have "(le_word (replicate n 0) :: u32) = 0" for n by (induction n) simp_all
  then show ?thesis by (simp add: get32_def zeroes_def)
qed

lemma slot_indirect:
  "d_addrs d 12 = 0 \<Longrightarrow> S ! unat w = zeroes \<Longrightarrow> slot S (d\<lparr>d_addrs := (d_addrs d)(12 := w)\<rparr>) = (slot S d)(268 := w)"
  by (auto simp: slot_def fun_eq_iff get32_zeroes)

lemma slot_entry:
  assumes "d_addrs d 12 \<noteq> 0" "12 \<le> k" "k < 268" "unat (d_addrs d 12) < length S" "length (S ! unat (d_addrs d 12)) = 1024"
  shows "slot (S[unat (d_addrs d 12) := put32 (S ! unat (d_addrs d 12)) (4 * (k - 12)) w]) d = (slot S d)(k := w)"
proof
  fix j
  have "get32 (put32 (S ! unat (d_addrs d 12)) (4 * (k - 12)) w) (4 * (j - 12)) =
      get32 (S ! unat (d_addrs d 12)) (4 * (j - 12))" if "j \<noteq> k" "12 \<le> j" "j < 268"
    using assms that by (intro get32_put32_other) auto
  then show "slot (S[unat (d_addrs d 12) := put32 (S ! unat (d_addrs d 12)) (4 * (k - 12)) w]) d j = ((slot S d)(k := w)) j"
    using assms by (auto simp: slot_def get32_put32_same)
qed

lemma slot_cong:
  assumes "d_addrs d 12 \<noteq> 0 \<Longrightarrow> S ! unat (d_addrs d 12) = T ! unat (d_addrs d 12)" shows "slot S d = slot T d"
  using assms by (auto simp: slot_def fun_eq_iff)

text \<open>
  The slots in use are distinct blocks of the data area below \<open>hi\<close>; the others are zero.
\<close>

definition live :: "nat \<Rightarrow> bool \<Rightarrow> nat set" where
  "live n m = {..<n} \<union> (if m then {268} else {})"

definition wfslots :: "(nat \<Rightarrow> u32) \<Rightarrow> nat set \<Rightarrow> nat \<Rightarrow> bool" where
  "wfslots f L hi \<longleftrightarrow> (\<forall>k\<in>L. 46 \<le> unat (f k) \<and> unat (f k) < hi) \<and> (\<forall>k. k \<notin> L \<longrightarrow> f k = 0) \<and> inj_on f L"

lemma wfslots_insert:
  assumes "wfslots f L hi" "k \<notin> L" "unat w = hi" "46 \<le> hi"
  shows "wfslots (f(k := w)) (insert k L) (Suc hi)"
  using assms unfolding wfslots_def by (auto simp: inj_on_def)

lemma wfslots_neq: "wfslots f L hi \<Longrightarrow> j \<in> L \<Longrightarrow> k \<in> L \<Longrightarrow> j \<noteq> k \<Longrightarrow> unat (f j) \<noteq> unat (f k)"
  by (auto simp: wfslots_def inj_on_def word_unat_eq_iff)

lemma wfslots_zero: "wfslots f L hi \<Longrightarrow> f k = 0 \<longleftrightarrow> k \<notin> L"
  by (auto simp: wfslots_def)

section \<open>Allocating the next block of a file\<close>

definition used :: "mkfs_st \<Rightarrow> dinode \<Rightarrow> nat \<Rightarrow> bool \<Rightarrow> nat set" where
  "used s d n m = (\<lambda>k. unat (slot (img s) d k)) ` live n m"

text \<open>A file of \<open>n\<close> blocks, with its indirect block allocated or not, in an image whose blocks from \<^verbatim>\<open>freeblock\<close> on are still zero.\<close>

definition file_st :: "mkfs_st \<Rightarrow> dinode \<Rightarrow> nat \<Rightarrow> bool \<Rightarrow> bool" where
  "file_st s d n m \<longleftrightarrow> mok s \<and> 46 \<le> unat (freeblock s) \<and> unat (freeblock s) \<le> 1000 \<and>
     (\<forall>x. unat (freeblock s) \<le> x \<and> x < 1000 \<longrightarrow> img s ! x = zeroes) \<and>
     wfslots (slot (img s) d) (live n m) (unat (freeblock s)) \<and> (12 < n \<longrightarrow> m) \<and> n \<le> 268 \<and> (\<forall>k\<ge>13. d_addrs d k = 0)"

text \<open>Nothing but this file changes, and it only grows by fresh blocks.\<close>

definition file_frame :: "mkfs_st \<Rightarrow> dinode \<Rightarrow> nat \<Rightarrow> bool \<Rightarrow> mkfs_st \<Rightarrow> dinode \<Rightarrow> nat \<Rightarrow> bool \<Rightarrow> bool" where
  "file_frame s d n m t e n' m' \<longleftrightarrow> (\<forall>x<unat (freeblock s). x \<notin> used s d n m \<longrightarrow> img t ! x = img s ! x) \<and>
     used t e n' m' \<subseteq> used s d n m \<union> {unat (freeblock s)..<unat (freeblock t)} \<and> unat (freeblock s) \<le> unat (freeblock t) \<and>
     t = s\<lparr>freeblock := freeblock t, img := img t\<rparr> \<and> e = d\<lparr>d_addrs := d_addrs e\<rparr>"

definition fcontent :: "mkfs_st \<Rightarrow> dinode \<Rightarrow> nat \<Rightarrow> u8 list" where
  "fcontent s d off = map (\<lambda>j. img s ! unat (slot (img s) d (j div 1024)) ! (j mod 1024)) [0..<off]"

lemma length_fcontent [simp]: "length (fcontent s d n) = n"
  by (simp add: fcontent_def)

lemma file_frame_refl: "file_frame s d n m s d n m"
  by (simp add: file_frame_def)

lemma file_frame_trans:
  assumes "file_frame s d n m t e n' m'" "file_frame t e n' m' u f n'' m''"
  shows "file_frame s d n m u f n'' m''"
proof -
  have "img u ! x = img s ! x" if "x < unat (freeblock s)" "x \<notin> used s d n m" for x
  proof -
    have "x \<notin> used t e n' m'" "x < unat (freeblock t)" using that assms(1) unfolding file_frame_def by auto
    then show ?thesis using that assms unfolding file_frame_def by metis
  qed
  moreover have "u = s\<lparr>freeblock := freeblock u, img := img u\<rparr>"
  proof -
    have "t = s\<lparr>freeblock := freeblock t, img := img t\<rparr>" "u = t\<lparr>freeblock := freeblock u, img := img u\<rparr>"
      using assms by (auto simp: file_frame_def)
    then show ?thesis by (metis (no_types, lifting) mkfs_st.surjective mkfs_st.update_convs(1,5) mkfs_st.select_convs)
  qed
  moreover have "f = d\<lparr>d_addrs := d_addrs f\<rparr>"
  proof -
    have "e = d\<lparr>d_addrs := d_addrs e\<rparr>" "f = e\<lparr>d_addrs := d_addrs f\<rparr>" using assms by (auto simp: file_frame_def)
    then show ?thesis by (metis (no_types, lifting) dinode.surjective dinode.update_convs(6) dinode.select_convs)
  qed
  moreover have "A \<subseteq> B \<union> {p..<q} \<Longrightarrow> C \<subseteq> A \<union> {q..<r} \<Longrightarrow> p \<le> q \<Longrightarrow> q \<le> r \<Longrightarrow> C \<subseteq> B \<union> {p..<r}" for A B C :: "nat set" and p q r
    by (fastforce simp: subset_iff)
  ultimately show ?thesis using assms unfolding file_frame_def by (intro conjI allI impI) (simp, metis, simp, blast, blast)
qed

lemma used_less: "file_st s d n m \<Longrightarrow> x \<in> used s d n m \<Longrightarrow> 46 \<le> x \<and> x < unat (freeblock s)"
  by (auto simp: used_def file_st_def wfslots_def)

lemma slot_range:
  assumes "file_st s d n m" "k \<in> live n m"
  shows "46 \<le> unat (slot (img s) d k)" "unat (slot (img s) d k) < unat (freeblock s)" "unat (slot (img s) d k) < 1000"
  using assms unfolding file_st_def wfslots_def by (auto dest!: bspec [of _ _ k])

lemma freeblock_Suc: "unat b < 1000 \<Longrightarrow> unat (b + 1 :: u32) = Suc (unat b)"
  by (simp add: unat_word_ariths)

text \<open>The next slot gets the block \<^verbatim>\<open>freeblock\<close>.\<close>

lemma alloc_slot:
  assumes "file_st s d n m" "unat (freeblock s) < 1000"
    and "slot S e = (slot (img s) d)(k := freeblock s)" "k \<notin> live n m" "live n' m' = insert k (live n m)"
    and "12 < n' \<Longrightarrow> m'" "n' \<le> 268" "\<forall>k\<ge>13. d_addrs e k = 0" "e = d\<lparr>d_addrs := d_addrs e\<rparr>"
    and "mok (s\<lparr>img := S\<rparr>)" "\<And>x. x \<notin> used s d n m \<Longrightarrow> S ! x = img s ! x"
    and "t = s\<lparr>freeblock := freeblock s + 1, img := S\<rparr>"
  shows "file_st t e n' m'" and "file_frame s d n m t e n' m'"
proof -
  have fb: "unat (freeblock t) = Suc (unat (freeblock s))" using assms(2,12) freeblock_Suc by simp
  have im: "img t = S" by (simp add: assms(12))
  have w: "wfslots (slot S e) (live n' m') (Suc (unat (freeblock s)))"
    using assms(1) unfolding assms(3,5) by (intro wfslots_insert) (auto simp: file_st_def assms(4))
  have z: "S ! x = zeroes" if "Suc (unat (freeblock s)) \<le> x" "x < 1000" for x
    using assms(1,11) that used_less [OF assms(1), of x] by (force simp: file_st_def)
  have "mok t" using assms(10) by (simp add: mok_def assms(12))
  then show "file_st t e n' m'"
    using assms(1,2,6,7,8) w z unfolding file_st_def im fb by auto
  have "used t e n' m' \<subseteq> insert (unat (freeblock s)) (used s d n m)"
    unfolding used_def im assms(3,5) by auto
  then show "file_frame s d n m t e n' m'"
    using assms(9,11) fb unfolding file_frame_def im by (auto simp: assms(12))
qed

lemma fcontent_cong:
  assumes "\<And>k. k < n \<Longrightarrow> slot (img t) e k = slot (img s) d k \<and> img t ! unat (slot (img s) d k) = img s ! unat (slot (img s) d k)"
    and "off \<le> 1024 * n"
  shows "fcontent t e off = fcontent s d off"
proof -
  have "j div 1024 < n" if "j < off" for j
    using that assms(2) by (simp add: less_mult_imp_div_less mult.commute)
  then show ?thesis using assms(1) by (auto simp: fcontent_def)
qed

lemma live_mem: "n \<le> 268 \<Longrightarrow> n \<in> live n m \<longleftrightarrow> n = 268 \<and> m" "268 \<in> live n m \<longleftrightarrow> m \<or> 268 < n" "k < n \<Longrightarrow> k \<in> live n m"
  by (auto simp: live_def)

text \<open>The three ways to allocate: a direct block, the indirect block, an entry of the indirect block.\<close>

lemma mk_addr_direct:
  assumes "file_st s d n False" "n < 12" "unat (freeblock s) < 1000"
  obtains t e where "mk_addr d n s = Ok e t" "file_st t e (Suc n) False" "file_frame s d n False t e (Suc n) False"
    "unat (freeblock t) = Suc (unat (freeblock s))" "d_addrs e n = slot (img t) e n"
    "\<And>off. off \<le> 1024 * n \<Longrightarrow> fcontent t e off = fcontent s d off"
proof -
  define e where "e = d\<lparr>d_addrs := (d_addrs d)(n := freeblock s)\<rparr>"
  define t where "t = s\<lparr>freeblock := freeblock s + 1, img := img s\<rparr>"
  have sl: "slot (img s) e = (slot (img s) d)(n := freeblock s)" using assms(2) by (simp add: e_def slot_direct)
  have "slot (img s) d n = 0" using assms(1,2) by (simp add: file_st_def wfslots_def live_def)
  then have "d_addrs d n = 0" using assms(2) by (simp add: slot_def)
  then have m: "mk_addr d n s = Ok e t" by (simp add: mk_addr_def freeblock_next_def mon_simps e_def t_def)
  have f: "file_st t e (Suc n) False" "file_frame s d n False t e (Suc n) False"
    by (rule alloc_slot [OF assms(1,3) sl]; use assms in \<open>auto simp: live_def e_def t_def file_st_def\<close>)+
  have c: "fcontent t e off = fcontent s d off" if "off \<le> 1024 * n" for off
    using that by (intro fcontent_cong [of n]) (auto simp: t_def sl)
  show ?thesis
    by (rule that [OF m f _ _ c]) (auto simp: t_def freeblock_Suc assms(3) slot_def e_def assms(2))
qed

lemma mk_addr_indirect:
  assumes "file_st s d 12 False" "unat (freeblock s) < 1000"
  obtains t e where "mk_addr d 12 s = Ok e t" "file_st t e 12 True" "file_frame s d 12 False t e 12 True"
    "unat (freeblock t) = Suc (unat (freeblock s))"
    "\<And>off. off \<le> 1024 * 12 \<Longrightarrow> fcontent t e off = fcontent s d off"
proof -
  define e where "e = d\<lparr>d_addrs := (d_addrs d)(12 := freeblock s)\<rparr>"
  define t where "t = s\<lparr>freeblock := freeblock s + 1, img := img s\<rparr>"
  have "slot (img s) d 268 = 0" using assms(1) by (simp add: file_st_def wfslots_def live_def)
  then have d: "d_addrs d 12 = 0" by (simp add: slot_def)
  have "img s ! unat (freeblock s) = zeroes" using assms by (simp add: file_st_def)
  then have sl: "slot (img s) e = (slot (img s) d)(268 := freeblock s)" using d by (simp add: e_def slot_indirect)
  have m: "mk_addr d 12 s = Ok e t" by (simp add: mk_addr_def freeblock_next_def mon_simps e_def t_def d)
  have f: "file_st t e 12 True" "file_frame s d 12 False t e 12 True"
    by (rule alloc_slot [OF assms(1,2) sl]; use assms in \<open>auto simp: live_def e_def t_def file_st_def\<close>)+
  have c: "fcontent t e off = fcontent s d off" if "off \<le> 1024 * 12" for off
    using that by (intro fcontent_cong [of 12]) (auto simp: t_def sl)
  show ?thesis by (rule that [OF m f _ c]) (auto simp: t_def freeblock_Suc assms(2))
qed

lemma mk_entry:
  assumes "file_st s d n True" "12 \<le> n" "n < 268" "unat (freeblock s) < 1000"
  obtains t where "mk_bmap d n s = Ok (d, slot (img t) d n) t"
    "file_st t d (Suc n) True" "file_frame s d n True t d (Suc n) True"
    "unat (freeblock t) = Suc (unat (freeblock s))"
    "\<And>off. off \<le> 1024 * n \<Longrightarrow> fcontent t d off = fcontent s d off"
proof -
  let ?a = "d_addrs d 12" and ?f = "slot (img s) d"
  have w: "wfslots ?f (live n True) (unat (freeblock s))" and mok: "mok s" using assms(1) by (auto simp: file_st_def)
  have f268: "?f 268 = ?a" by (simp add: slot_def)
  have in268: "268 \<in> live n True" by (simp add: live_def)
  have a: "?a \<noteq> 0" "unat ?a < 1000" using w f268 in268 assms(1) by (auto simp: wfslots_def file_st_def)
  define S where "S = (img s)[unat ?a := put32 (img s ! unat ?a) (4 * (n - 12)) (freeblock s)]"
  define t where "t = s\<lparr>freeblock := freeblock s + 1, img := S\<rparr>"
  have l: "length (img s ! unat ?a) = 1024" "unat ?a < length (img s)" using mok a by (auto simp: mok_def)
  have sl: "slot S d = ?f(n := freeblock s)"
    unfolding S_def by (rule slot_entry) (use a l assms in auto)
  have n0: "?f n = 0" using w assms by (simp add: wfslots_def live_def)
  then have g: "get32 (img s ! unat ?a) (4 * (n - 12)) = 0" using a assms by (simp add: slot_def)
  have p: "get32 (put32 (img s ! unat ?a) (4 * (n - 12)) (freeblock s)) (4 * (n - 12)) = slot S d n"
    using l assms by (subst get32_put32_same) (auto simp: sl)
  have m: "mk_bmap d n s = Ok (d, slot (img t) d n) t"
    using a assms g p mok
    by (simp add: mk_bmap_def mk_addr_def mon_simps rsect_ok wsect_ok freeblock_next_def S_def t_def Let_def)
  have u: "unat ?a \<in> used s d n True" unfolding used_def using f268 in268 by (metis imageI)
  have S: "S ! x = img s ! x" if "x \<notin> used s d n True" for x
    using that u by (cases "x = unat ?a") (simp_all add: S_def)
  have mS: "mok (s\<lparr>img := S\<rparr>)" using mok l assms by (simp add: S_def mok_put)
  have f: "file_st t d (Suc n) True" "file_frame s d n True t d (Suc n) True"
    by (rule alloc_slot [OF assms(1,4) sl _ _ _ _ _ _ mS S t_def];
        use assms in \<open>auto simp: live_def file_st_def\<close>)+
  have k: "S ! unat (?f k) = img s ! unat (?f k)" if "k < n" for k
    using wfslots_neq [OF w _ in268, of k] that assms f268 by (simp add: live_def S_def)
  have c: "fcontent t d off = fcontent s d off" if "off \<le> 1024 * n" for off
    using that k by (intro fcontent_cong [of n]) (auto simp: t_def sl)
  show ?thesis by (rule that [OF m f _ c]) (auto simp: t_def freeblock_Suc assms(4))
qed

text \<open>The blocks a file of \<open>n\<close> data blocks takes.\<close>

definition cost :: "nat \<Rightarrow> nat" where
  "cost n = (if 12 < n then Suc n else n)"

lemma mk_bmap_old:
  assumes "file_st s d n (12 < n)" "fbn < n"
  shows "mk_bmap d fbn s = Ok (d, slot (img s) d fbn) s"
proof -
  have w: "wfslots (slot (img s) d) (live n (12 < n)) (unat (freeblock s))" and mok: "mok s" and n: "n \<le> 268"
    using assms(1) by (auto simp: file_st_def)
  have f: "slot (img s) d fbn \<noteq> 0" using w assms(2) by (simp add: wfslots_zero live_mem)
  have "slot (img s) d 268 \<noteq> 0 \<and> unat (slot (img s) d 268) < 1000" if "12 < n"
    using w that assms(1) by (auto simp: wfslots_def live_def file_st_def)
  then have "d_addrs d 12 \<noteq> 0 \<and> unat (d_addrs d 12) < 1000" if "12 < n" using that by (simp add: slot_def)
  then show ?thesis
    using f n assms(2) mok by (auto simp: mk_bmap_def mk_addr_def mon_simps rsect_ok slot_def Let_def split: if_splits)
qed

lemma mk_bmap_spec:
  assumes "file_st s d n (12 < n)" "fbn \<le> n" "fbn < 268"
    and "unat (freeblock s) + cost (max n (Suc fbn)) \<le> 1000 + cost n"
  obtains t e where "mk_bmap d fbn s = Ok (e, slot (img t) e fbn) t"
    "file_st t e (max n (Suc fbn)) (12 < max n (Suc fbn))"
    "file_frame s d n (12 < n) t e (max n (Suc fbn)) (12 < max n (Suc fbn))"
    "unat (freeblock t) + cost n = unat (freeblock s) + cost (max n (Suc fbn))"
    "\<And>off. off \<le> 1024 * n \<Longrightarrow> fcontent t e off = fcontent s d off"
proof (cases "fbn < n")
  case True
  then have "max n (Suc fbn) = n" by simp
  then show ?thesis using that [OF mk_bmap_old [OF assms(1) True]] assms(1) by (simp add: file_frame_refl)
next
  case False
  then have n: "fbn = n" "max n (Suc fbn) = Suc n" using assms(2) by auto
  consider "n < 12" | "n = 12" | "12 < n" by linarith
  then show ?thesis
  proof cases
    case 1
    then have "file_st s d n False" "unat (freeblock s) < 1000" using assms(1,4) n by (auto simp: cost_def)
    from mk_addr_direct [OF this(1) 1 this(2)] obtain t e where r: "mk_addr d n s = Ok e t" "file_st t e (Suc n) False"
      "file_frame s d n False t e (Suc n) False" "unat (freeblock t) = Suc (unat (freeblock s))"
      "d_addrs e n = slot (img t) e n" "\<And>off. off \<le> 1024 * n \<Longrightarrow> fcontent t e off = fcontent s d off" by blast
    have "mk_bmap d fbn s = Ok (e, slot (img t) e fbn) t" using r(1,5) 1 n by (simp add: mk_bmap_def mon_simps)
    from that [OF this] show ?thesis using r 1 n by (auto simp: cost_def)
  next
    case 2
    then have "file_st s d 12 False" "unat (freeblock s) < 1000" using assms(1,4) n by (auto simp: cost_def)
    from mk_addr_indirect [OF this] obtain u e where r: "mk_addr d 12 s = Ok e u" "file_st u e 12 True"
      "file_frame s d 12 False u e 12 True" "unat (freeblock u) = Suc (unat (freeblock s))"
      "\<And>off. off \<le> 1024 * 12 \<Longrightarrow> fcontent u e off = fcontent s d off" by blast
    have "unat (freeblock u) < 1000" using r(4) assms(4) n 2 by (simp add: cost_def)
    from mk_entry [OF r(2) _ _ this] obtain t where q: "mk_bmap e 12 u = Ok (e, slot (img t) e 12) t"
      "file_st t e (Suc 12) True" "file_frame u e 12 True t e (Suc 12) True" "unat (freeblock t) = Suc (unat (freeblock u))"
      "\<And>off. off \<le> 1024 * 12 \<Longrightarrow> fcontent t e off = fcontent u e off" by auto
    have "268 \<in> live 12 True" by (simp add: live_def)
    then have "slot (img u) e 268 \<noteq> 0" using r(2) unfolding file_st_def by (metis wfslots_zero)
    then have "mk_addr e 12 u = Ok e u" by (simp add: mk_addr_def slot_def)
    then have "mk_bmap d fbn s = Ok (e, slot (img t) e fbn) t"
      using r(1) q(1) 2 n by (simp add: mk_bmap_def mon_simps)
    from that [OF this] show ?thesis
      using r(4,5) q(2,4,5) file_frame_trans [OF r(3) q(3)] n 2 by (simp add: cost_def)
  next
    case 3
    then have "file_st s d n True" "unat (freeblock s) < 1000" using assms(1,4) n by (auto simp: cost_def)
    from mk_entry [OF this(1) _ _ this(2)] obtain t where q: "mk_bmap d n s = Ok (d, slot (img t) d n) t"
      "file_st t d (Suc n) True" "file_frame s d n True t d (Suc n) True" "unat (freeblock t) = Suc (unat (freeblock s))"
      "\<And>off. off \<le> 1024 * n \<Longrightarrow> fcontent t d off = fcontent s d off" using 3 assms(3) n by auto
    show ?thesis using that [OF q(1) [folded n(1)]] q 3 n by (auto simp: cost_def)
  qed
qed

section \<open>The loop of iappend\<close>

definition nblk :: "nat \<Rightarrow> nat" where
  "nblk sz = (sz + 1023) div 1024"

text \<open>Writing to a data block of the file.\<close>

lemma put_data:
  assumes "file_st s d n (12 < n)" "fbn < n" "length b = 1024" "t = s\<lparr>img := (img s)[unat (slot (img s) d fbn) := b]\<rparr>"
  shows "file_st t d n (12 < n)" "file_frame s d n (12 < n) t d n (12 < n)" "slot (img t) d = slot (img s) d"
proof -
  let ?x = "unat (slot (img s) d fbn)"
  have w: "wfslots (slot (img s) d) (live n (12 < n)) (unat (freeblock s))" and m: "mok s" and n: "n \<le> 268"
    using assms(1) by (auto simp: file_st_def)
  have l: "fbn \<in> live n (12 < n)" using assms(2) by (simp add: live_mem)
  have "?x \<noteq> unat (d_addrs d 12)" if "d_addrs d 12 \<noteq> 0"
  proof -
    have e: "slot (img s) d 268 = d_addrs d 12" by (simp add: slot_def)
    then have "268 \<in> live n (12 < n)" using wfslots_zero [OF w, of 268] that by simp
    then show ?thesis using wfslots_neq [OF w l, of 268] e assms(2) n by simp
  qed
  then show sl: "slot (img t) d = slot (img s) d" by (intro slot_cong) (simp add: assms(4))
  have x: "46 \<le> ?x" "?x < unat (freeblock s)" using w l by (auto simp: wfslots_def)
  show "file_st t d n (12 < n)"
    using assms(1) mok_put [OF m assms(3), of ?x] x sl unfolding file_st_def by (simp add: assms(4))
  have "used t d n (12 < n) = used s d n (12 < n)" unfolding used_def by (simp only: sl)
  moreover have "?x \<in> used s d n (12 < n)" using l by (auto simp: used_def)
  ultimately show "file_frame s d n (12 < n) t d n (12 < n)"
    unfolding file_frame_def assms(4) by simp (metis nth_list_update_neq)
qed

lemma put_data_content:
  assumes "file_st s d n (12 < n)" "off div 1024 < n" "off mod 1024 + length p \<le> 1024"
    and "t = s\<lparr>img := (img s)[unat (slot (img s) d (off div 1024)) :=
      splice (img s ! unat (slot (img s) d (off div 1024))) (off mod 1024) p]\<rparr>"
  shows "fcontent t d (off + length p) = fcontent s d off @ p"
proof (rule nth_equalityI)
  let ?q = "off div 1024"
  let ?x = "unat (slot (img s) d ?q)"
  have w: "wfslots (slot (img s) d) (live n (12 < n)) (unat (freeblock s))" and n: "n \<le> 268"
    using assms(1) by (auto simp: file_st_def)
  have x: "?x < length (img s)" "length (img s ! ?x) = 1024"
    using slot_range(3) [OF assms(1), of ?q] assms(1,2) by (auto simp: live_mem file_st_def mok_def)
  have sl: "slot (img t) d = slot (img s) d" using put_data [OF assms(1,2) _ assms(4)] assms(3) x by simp
  fix i assume "i < length (fcontent t d (off + length p))"
  then have i: "i < off + length p" by simp
  have e: "fcontent t d (off + length p) ! i = img t ! unat (slot (img s) d (i div 1024)) ! (i mod 1024)"
    using i by (simp add: fcontent_def sl)
  show "fcontent t d (off + length p) ! i = (fcontent s d off @ p) ! i"
  proof (cases "i div 1024 = ?q")
    case True
    then have d: "i = ?q * 1024 + i mod 1024" "off = ?q * 1024 + off mod 1024" by (metis div_mult_mod_eq)+
    then have "off \<le> i \<longleftrightarrow> off mod 1024 \<le> i mod 1024" "i - off = i mod 1024 - off mod 1024" by linarith+
    then show ?thesis
      using i True x assms(3) unfolding e by (auto simp: assms(4) fcontent_def nth_append nth_splice)
  next
    case False
    have "i div 1024 < Suc ?q"
    proof -
      have "i < Suc ?q * 1024" using i assms(3) div_mult_mod_eq [of off 1024] unfolding mult_Suc by linarith
      then show ?thesis by (rule less_mult_imp_div_less)
    qed
    then have q: "i div 1024 < ?q" using False by simp
    then have "i < off" by (meson div_le_mono leD leI)
    moreover have "unat (slot (img s) d (i div 1024)) \<noteq> ?x"
      using wfslots_neq [OF w, of "i div 1024" ?q] q assms(2) by (simp add: live_def)
    ultimately show ?thesis unfolding e by (simp add: assms(4) fcontent_def nth_append)
  qed
qed simp

text \<open>One round of the loop.\<close>

lemma chunk_facts:
  assumes "unat off + length p \<le> 268 * 1024"
  shows "unat (off div 1024) = unat off div 1024" "unat (off - off div 1024 * 1024) = unat off mod 1024"
    "mk_chunk off p = min (length p) (1024 - unat off mod 1024)"
proof -
  show q: "unat (off div 1024) = unat off div 1024" by (simp add: unat_div_distrib)
  have "off - off div 1024 * 1024 = off mod 1024" by (metis minus_div_mult_eq_mod)
  then show "unat (off - off div 1024 * 1024) = unat off mod 1024" by (simp add: unat_mod_distrib)
  have "(off div 1024 + 1) * 1024 - off = 1024 - off mod 1024"
    by (simp add: algebra_simps flip: minus_mult_div_eq_mod)
  moreover have "unat (1024 - off mod 1024) = 1024 - unat off mod 1024"
  proof -
    have "off mod 1024 \<le> 1024" by (simp add: word_le_nat_alt unat_mod_distrib order_less_imp_le)
    then show ?thesis by (simp add: unat_sub unat_mod_distrib)
  qed
  ultimately show "mk_chunk off p = min (length p) (1024 - unat off mod 1024)" unfolding mk_chunk_def by metis
qed

lemma nblk_round:
  assumes "0 < c" "off mod 1024 + c \<le> 1024"
  shows "nblk (off + c) = max (nblk off) (Suc (off div 1024))" "off div 1024 \<le> nblk off" "off \<le> 1024 * nblk off"
proof -
  obtain q r where qr: "off = q * 1024 + r" "r < 1024"
    by (metis div_mult_mod_eq mod_less_divisor zero_less_numeral)
  then have d: "off div 1024 = q" "off mod 1024 = r" by simp_all
  have "nblk (off + c) = Suc q"
    unfolding nblk_def using assms qr d by (intro div_nat_eqI) auto
  moreover have "nblk off = (if r = 0 then q else Suc q)"
    unfolding nblk_def using qr by (intro div_nat_eqI) auto
  ultimately show "nblk (off + c) = max (nblk off) (Suc (off div 1024))" "off div 1024 \<le> nblk off" "off \<le> 1024 * nblk off"
    using d qr by auto
qed

lemma cost_mono: "m \<le> n \<Longrightarrow> cost m \<le> cost n"
  by (simp add: cost_def)

lemma nblk_mono: "m \<le> n \<Longrightarrow> nblk m \<le> nblk n"
  by (simp add: nblk_def div_le_mono)

definition appended :: "mkfs_st \<Rightarrow> dinode \<Rightarrow> nat \<Rightarrow> u8 list \<Rightarrow> mkfs_st \<Rightarrow> dinode \<Rightarrow> bool" where
  "appended s d off p t e \<longleftrightarrow>
     (let n = nblk off; n' = nblk (off + length p) in
      file_st t e n' (12 < n') \<and> file_frame s d n (12 < n) t e n' (12 < n') \<and>
      unat (freeblock t) + cost n = unat (freeblock s) + cost n' \<and>
      fcontent t e (off + length p) = fcontent s d off @ p)"

lemma appended_trans:
  assumes "appended s d off p t e" "appended t e (off + length p) q u f"
  shows "appended s d off (p @ q) u f"
  using assms unfolding appended_def Let_def
  by (auto simp: add.assoc intro: file_frame_trans)

lemma mk_append_round:
  assumes "file_st s d (nblk (unat off)) (12 < nblk (unat off))" "unat off + length p \<le> 268 * 1024" "p \<noteq> []"
    and "unat (freeblock s) + cost (nblk (unat off + length p)) \<le> 1000 + cost (nblk (unat off))"
  obtains t e where "appended s d (unat off) (take (mk_chunk off p) p) t e"
    "mk_append d off p s = mk_append e (off + of_nat (mk_chunk off p)) (drop (mk_chunk off p) p) t"
proof -
  define ch where "ch = mk_chunk off p"
  let ?o = "unat off" and ?n = "nblk (unat off)" and ?p = "take ch p"
  let ?q = "?o div 1024"
  have c: "0 < ch" "?o mod 1024 + ch \<le> 1024" "ch \<le> length p" "length ?p = ch"
    using chunk_facts [OF assms(2)] assms(3) by (auto simp: ch_def)
  note nb = nblk_round [OF c(1,2)]
  have q: "?q < 268"
  proof -
    have "?o < 268 * 1024" using assms(2,3) by (cases p) auto
    then show ?thesis by (rule less_mult_imp_div_less)
  qed
  have "cost (nblk (?o + ch)) \<le> cost (nblk (?o + length p))" using c(3) by (intro cost_mono nblk_mono) simp
  then have room: "unat (freeblock s) + cost (max ?n (Suc ?q)) \<le> 1000 + cost ?n" using assms(4) nb(1) by simp
  obtain u e where b: "mk_bmap d ?q s = Ok (e, slot (img u) e ?q) u" "file_st u e (nblk (?o + ch)) (12 < nblk (?o + ch))"
      "file_frame s d ?n (12 < ?n) u e (nblk (?o + ch)) (12 < nblk (?o + ch))"
      "unat (freeblock u) + cost ?n = unat (freeblock s) + cost (nblk (?o + ch))"
      "\<And>off. off \<le> 1024 * ?n \<Longrightarrow> fcontent u e off = fcontent s d off"
    using mk_bmap_spec [OF assms(1) nb(2) q room] unfolding nb(1) by blast
  let ?x = "slot (img u) e ?q"
  define t where "t = u\<lparr>img := (img u)[unat ?x := splice (img u ! unat ?x) (?o mod 1024) ?p]\<rparr>"
  have q2: "?q < nblk (?o + ch)" using nb(1) by simp
  have x: "unat ?x < 1000" "mok u" using slot_range(3) [OF b(2), of ?q] b(2) q2 by (auto simp: live_mem file_st_def)
  have l: "length (splice (img u ! unat ?x) (?o mod 1024) ?p) = 1024"
    using x c by (subst length_splice) (auto simp: mok_def)
  note pd = put_data [OF b(2) q2 l t_def]
  have "fcontent t e (?o + length ?p) = fcontent u e ?o @ ?p"
    by (rule put_data_content [OF b(2) q2 _ t_def]) (use c in simp)
  moreover have "freeblock t = freeblock u" by (simp add: t_def)
  ultimately have "appended s d ?o ?p t e"
    using b(4,5) nb(3) pd(1) file_frame_trans [OF b(3) pd(2)] c(4) by (simp add: appended_def Let_def)
  moreover have "mk_append d off p s = mk_append e (off + of_nat ch) (drop ch p) t"
    using assms(3) b(1) q x chunk_facts [OF assms(2)]
    by (subst mk_append.simps) (simp add: mon_simps rsect_ok wsect_ok t_def ch_def)
  ultimately show ?thesis by (rule that [unfolded ch_def [symmetric]])
qed

lemma mk_append_spec:
  assumes "file_st s d (nblk (unat off)) (12 < nblk (unat off))" "unat off + length p \<le> 268 * 1024"
    and "unat (freeblock s) + cost (nblk (unat off + length p)) \<le> 1000 + cost (nblk (unat off))"
  shows "\<exists>t e. mk_append d off p s = Ok (e, off + of_nat (length p)) t \<and> appended s d (unat off) p t e"
  using assms
proof (induction "length p" arbitrary: d off p s rule: less_induct)
  case less
  show ?case
  proof (cases "p = []")
    case True
    then show ?thesis using less.prems(1) by (subst mk_append.simps) (simp add: appended_def file_frame_refl)
  next
    case False
    define ch where "ch = mk_chunk off p"
    have c: "0 < ch" "ch \<le> length p" using chunk_facts [OF less.prems(2)] False by (auto simp: ch_def)
    obtain t e where r: "appended s d (unat off) (take ch p) t e" "mk_append d off p s = mk_append e (off + of_nat ch) (drop ch p) t"
      using mk_append_round [OF less.prems(1,2) False less.prems(3)] unfolding ch_def by blast
    have o: "unat (off + of_nat ch) = unat off + ch"
      using less.prems(2) c by (subst unat_add_nowrap) (auto simp: unat_of_nat_lt)
    have "\<exists>u f. mk_append e (off + of_nat ch) (drop ch p) t = Ok (f, off + of_nat ch + of_nat (length (drop ch p))) u \<and>
        appended t e (unat (off + of_nat ch)) (drop ch p) u f"
      using r(1) c less.prems(2,3) by (intro less.hyps) (auto simp: o appended_def Let_def)
    then obtain u f where f: "mk_append d off p s = Ok (f, off + of_nat (length p)) u" "appended t e (unat off + ch) (drop ch p) u f"
      using r(2) c by (auto simp: o algebra_simps simp flip: of_nat_add)
    moreover have "appended s d (unat off) p u f"
      using appended_trans [OF r(1), of "drop ch p"] f(2) c by simp
    ultimately show ?thesis by blast
  qed
qed

end
