(* ===== verification/MkfsProps.thy ===== *)
theory MkfsProps
  imports MkfsImage
begin

text \<open>
  \<^verbatim>\<open>mkfs/mkfs.c\<close> builds the file system it is asked for: the image refines a list of files, one per inode, which \<^verbatim>\<open>ialloc\<close>
  extends with an empty file and \<^verbatim>\<open>iappend\<close> with bytes; \<^verbatim>\<open>main\<close> gives every file on the command line its contents.
\<close>

unbundle bit_operations_syntax

section \<open>The image as a list of files\<close>

definition fsize :: "u8 list list \<Rightarrow> u32 \<Rightarrow> nat" where
  "fsize S i = unat (d_size (ino S i))"

definition image_file :: "u8 list list \<Rightarrow> u32 \<Rightarrow> u8 list" where
  "image_file S i = map (\<lambda>j. S ! unat (slot S (ino S i) (j div 1024)) ! (j mod 1024)) [0..<fsize S i]"

definition fnb :: "mkfs_st \<Rightarrow> u32 \<Rightarrow> nat" where
  "fnb s i = nblk (fsize (img s) i)"

definition fblocks :: "mkfs_st \<Rightarrow> u32 \<Rightarrow> nat set" where
  "fblocks s i = used s (ino (img s) i) (fnb s i) (12 < fnb s i)"

definition files :: "mkfs_st \<Rightarrow> u8 list list" where
  "files s = map (\<lambda>k. image_file (img s) (of_nat (Suc k))) [0..<unat (freeinode s) - 1]"

definition blocks_of :: "u8 list list \<Rightarrow> nat" where
  "blocks_of fs = sum_list (map (\<lambda>f. cost (nblk (length f))) fs)"

definition has_inode :: "mkfs_st \<Rightarrow> u32 \<Rightarrow> bool" where
  "has_inode s i \<longleftrightarrow> 0 < unat i \<and> unat i < unat (freeinode s)"

definition mkinv :: "mkfs_st \<Rightarrow> bool" where
  "mkinv s \<longleftrightarrow> mok s \<and> 0 < unat (freeinode s) \<and> unat (freeinode s) \<le> 208 \<and>
     46 \<le> unat (freeblock s) \<and> unat (freeblock s) \<le> 1000 \<and> (\<forall>x. unat (freeblock s) \<le> x \<and> x < 1000 \<longrightarrow> img s ! x = zeroes) \<and>
     unat (freeblock s) = 46 + blocks_of (files s) \<and>
     (\<forall>i. has_inode s i \<longrightarrow> file_st s (ino (img s) i) (fnb s i) (12 < fnb s i)) \<and>
     (\<forall>i j. has_inode s i \<longrightarrow> has_inode s j \<longrightarrow> i \<noteq> j \<longrightarrow> fblocks s i \<inter> fblocks s j = {})"

lemma image_file_fcontent: "image_file (img s) i = fcontent s (ino (img s) i) (fsize (img s) i)"
  by (simp add: image_file_def fcontent_def)

lemma length_image_file [simp]: "length (image_file S i) = fsize S i"
  by (simp add: image_file_def)

lemma length_files [simp]: "length (files s) = unat (freeinode s) - 1"
  by (simp add: files_def)

lemma nblk_bound: "m \<le> 1024 * nblk m"
proof -
  have "m + 1023 < 1024 * Suc (nblk m)"
    unfolding nblk_def using dividend_less_div_times [of 1024 "m + 1023"] by simp
  then show ?thesis by simp
qed

text \<open>A file whose blocks are untouched stays the same file.\<close>

lemma file_transfer:
  assumes "file_st s d n m" "\<And>x. x \<in> used s d n m \<Longrightarrow> img t ! x = img s ! x"
  shows "slot (img t) d = slot (img s) d" "used t d n m = used s d n m" "off \<le> 1024 * n \<Longrightarrow> fcontent t d off = fcontent s d off"
proof -
  have w: "wfslots (slot (img s) d) (live n m) (unat (freeblock s))" using assms(1) by (simp add: file_st_def)
  have "img t ! unat (d_addrs d 12) = img s ! unat (d_addrs d 12)" if "d_addrs d 12 \<noteq> 0"
  proof -
    have e: "slot (img s) d 268 = d_addrs d 12" by (simp add: slot_def)
    then have "268 \<in> live n m" using wfslots_zero [OF w, of 268] that by simp
    then show ?thesis using assms(2) e unfolding used_def by (metis imageI)
  qed
  then show sl: "slot (img t) d = slot (img s) d" by (intro slot_cong)
  then show "used t d n m = used s d n m" by (simp add: used_def)
  show "fcontent t d off = fcontent s d off" if "off \<le> 1024 * n"
    using that assms(2) by (intro fcontent_cong) (auto simp: sl used_def live_def)
qed

lemma file_st_transfer:
  assumes "file_st s d n m" "\<And>x. x \<in> used s d n m \<Longrightarrow> img t ! x = img s ! x"
    and "mok t" "unat (freeblock s) \<le> unat (freeblock t)" "unat (freeblock t) \<le> 1000"
    and "\<And>x. unat (freeblock t) \<le> x \<Longrightarrow> x < 1000 \<Longrightarrow> img t ! x = zeroes"
  shows "file_st t d n m"
proof -
  have "wfslots (slot (img t) d) (live n m) (unat (freeblock t))"
    using assms(1,4) file_transfer(1) [OF assms(1,2)] unfolding file_st_def wfslots_def by fastforce
  then show ?thesis using assms unfolding file_st_def by auto
qed

lemma file_st_addrs:
  assumes "file_st s d n m" "d_addrs e = d_addrs d"
  shows "file_st s e n m" "slot (img s) e = slot (img s) d" "fcontent s e k = fcontent s d k" "used s e n m = used s d n m"
proof -
  show sl: "slot (img s) e = slot (img s) d" using assms(2) by (simp add: slot_def fun_eq_iff)
  show "file_st s e n m" "fcontent s e k = fcontent s d k" "used s e n m = used s d n m"
    using assms by (simp_all add: file_st_def sl fcontent_def used_def)
qed

text \<open>The other inodes after a change to inode \<open>i\<close>.\<close>

lemma others_kept:
  assumes "mkinv s" "has_inode s j" "ino (img t) j = ino (img s) j" "\<And>x. x \<in> fblocks s j \<Longrightarrow> img t ! x = img s ! x"
  shows "image_file (img t) j = image_file (img s) j" "fnb t j = fnb s j" "fblocks t j = fblocks s j"
proof -
  have f: "file_st s (ino (img s) j) (fnb s j) (12 < fnb s j)" using assms(1,2) by (simp add: mkinv_def)
  show n: "fnb t j = fnb s j" by (simp add: fnb_def fsize_def assms(3))
  note tr = file_transfer [OF f assms(4) [unfolded fblocks_def]]
  show "fblocks t j = fblocks s j" using tr(2) by (simp add: fblocks_def n assms(3))
  have "fsize (img t) j = fsize (img s) j" by (simp add: fsize_def assms(3))
  then show "image_file (img t) j = image_file (img s) j"
    using tr(3) [of "fsize (img s) j"] nblk_bound by (simp add: image_file_fcontent assms(3) fnb_def)
qed

lemma inode_of:
  assumes "mkinv s" "has_inode s i"
  shows "unat i < 208" "files s ! (unat i - 1) = image_file (img s) i" "unat i - 1 < length (files s)"
proof -
  have l: "unat i - 1 < unat (freeinode s) - 1" using assms(2) by (auto simp: has_inode_def)
  have "Suc (unat i - 1) = unat i" using assms(2) by (simp add: has_inode_def)
  then have "of_nat (Suc (unat i - 1)) = i" by (simp only:) simp
  then show "files s ! (unat i - 1) = image_file (img s) i" using l by (simp add: files_def del: of_nat_Suc)
  show "unat i < 208" "unat i - 1 < length (files s)" using assms l by (auto simp: has_inode_def mkinv_def)
qed

lemma blocks_of_update:
  "k < length fs \<Longrightarrow> blocks_of (fs[k := f]) + cost (nblk (length (fs ! k))) = blocks_of fs + cost (nblk (length f))"
proof (induction fs arbitrary: k)
  case (Cons x xs)
  then show ?case by (cases k) (auto simp: blocks_of_def)
qed simp

lemma files_eqI:
  assumes "freeinode t = freeinode s" "mkinv s" "has_inode s i" "image_file (img t) i = f"
    and "\<And>j. has_inode s j \<Longrightarrow> j \<noteq> i \<Longrightarrow> image_file (img t) j = image_file (img s) j"
  shows "files t = (files s)[unat i - 1 := f]"
proof (rule nth_equalityI)
  fix k assume "k < length (files t)"
  then have k: "k < unat (freeinode s) - 1" using assms(1) by simp
  then have u: "unat (of_nat (Suc k) :: u32) = Suc k"
    using assms(2) by (intro unat_of_nat_lt) (auto simp: mkinv_def)
  then have j: "has_inode s (of_nat (Suc k))" using k unfolding has_inode_def by simp
  have e: "files t ! k = image_file (img t) (of_nat (Suc k))" "files s ! k = image_file (img s) (of_nat (Suc k))"
    using k assms(1) by (simp_all add: files_def)
  show "files t ! k = (files s)[unat i - 1 := f] ! k"
  proof (cases "of_nat (Suc k) = i")
    case True
    then have "unat i - 1 = k" using u by auto
    then show ?thesis using True e k assms(4) by simp
  next
    case False
    have "unat i - 1 \<noteq> k" using False u assms(3) by (metis Suc_pred' has_inode_def word_unat_eq_iff diff_Suc_1 One_nat_def)
    then show ?thesis using assms(5) [OF j False] e by simp
  qed
qed (simp add: assms(1))

text \<open>The invariant after a change to, or the creation of, inode \<open>i\<close>.\<close>

lemma mkinv_change:
  assumes "mkinv s" "mok t" "0 < unat (freeinode t)" "unat (freeinode t) \<le> 208"
    and inode: "\<And>j. has_inode t j \<Longrightarrow> j \<noteq> i \<Longrightarrow> has_inode s j"
    and free: "unat (freeblock s) \<le> unat (freeblock t)" "unat (freeblock t) \<le> 1000"
    and tail: "\<And>x. unat (freeblock t) \<le> x \<Longrightarrow> x < 1000 \<Longrightarrow> img t ! x = zeroes"
    and others: "\<And>j. has_inode s j \<Longrightarrow> j \<noteq> i \<Longrightarrow> ino (img t) j = ino (img s) j \<and> (\<forall>x\<in>fblocks s j. img t ! x = img s ! x)"
    and own: "file_st t (ino (img t) i) (fnb t i) (12 < fnb t i)"
    and disj: "\<And>j. has_inode s j \<Longrightarrow> j \<noteq> i \<Longrightarrow> fblocks t i \<inter> fblocks s j = {}"
    and count: "unat (freeblock t) = 46 + blocks_of (files t)"
  shows "mkinv t"
proof -
  have k: "fnb t j = fnb s j" "fblocks t j = fblocks s j" "ino (img t) j = ino (img s) j"
      "file_st t (ino (img t) j) (fnb t j) (12 < fnb t j)" if "has_inode s j" "j \<noteq> i" for j
  proof -
    have o: "ino (img t) j = ino (img s) j" "\<And>x. x \<in> fblocks s j \<Longrightarrow> img t ! x = img s ! x" using others [OF that] by auto
    show "ino (img t) j = ino (img s) j" by (rule o(1))
    show n: "fnb t j = fnb s j" "fblocks t j = fblocks s j" using others_kept(2,3) [OF assms(1) that(1) o] by blast+
    have "file_st s (ino (img s) j) (fnb s j) (12 < fnb s j)" using assms(1) that(1) by (simp add: mkinv_def)
    then have "file_st t (ino (img s) j) (fnb s j) (12 < fnb s j)"
      by (rule file_st_transfer [OF _ _ assms(2) free]) (use o(2) tail in \<open>auto simp: fblocks_def\<close>)
    then show "file_st t (ino (img t) j) (fnb t j) (12 < fnb t j)" by (simp add: o(1) n(1))
  qed
  have "file_st t (ino (img t) j) (fnb t j) (12 < fnb t j)" if "has_inode t j" for j
    using k(4) inode that own by (cases "j = i") auto
  moreover have "fblocks t j \<inter> fblocks t l = {}" if "has_inode t j" "has_inode t l" "j \<noteq> l" for j l
  proof -
    have "fblocks t j \<inter> fblocks t l = {}" if "has_inode t j" "has_inode t l" "j \<noteq> l" "j \<noteq> i" for j l
    proof (cases "l = i")
      case True
      then show ?thesis using disj [OF inode [OF that(1,4)] that(4)] k(2) [OF inode [OF that(1,4)] that(4)] by auto
    next
      case False
      then show ?thesis
        using assms(1) k(2) [OF inode [OF that(1,4)] that(4)] k(2) [OF inode [OF that(2) False] False]
          inode [OF that(1,4)] inode [OF that(2) False] that(3) by (simp add: mkinv_def)
    qed
    from this [of j l] this [of l j] show ?thesis using that by (cases "j = i") auto
  qed
  ultimately show ?thesis using assms(1-4) free tail count unfolding mkinv_def by auto
qed

section \<open>iappend\<close>

text \<open>What the loop leaves of the metadata and of the other files.\<close>

lemma frame_low:
  assumes "file_st s d n m" "file_frame s d n m t e n' m'" "x < 46"
  shows "img t ! x = img s ! x"
proof -
  have "x \<notin> used s d n m" "x < unat (freeblock s)" using assms used_less [OF assms(1), of x] by (auto simp: file_st_def)
  then show ?thesis using assms(2) by (simp add: file_frame_def)
qed

lemma iappend_step:
  assumes "mkinv s" "has_inode s i" "fsize (img s) i + length p \<le> 268 * 1024"
    and "unat (freeblock s) + cost (nblk (fsize (img s) i + length p)) \<le> 1000 + cost (fnb s i)"
  obtains u e e' t where "iappend i p s = Ok () t" "t = u\<lparr>img := put_ino i e' (img u)\<rparr>"
    "e' = e\<lparr>d_size := d_size (ino (img s) i) + of_nat (length p)\<rparr>"
    "appended s (ino (img s) i) (fsize (img s) i) p u e" "unat (d_size e') = fsize (img s) i + length p"
proof -
  let ?d = "ino (img s) i"
  have i: "unat i < 208" by (rule inode_of(1) [OF assms(1,2)])
  have mok: "mok s" and f: "file_st s ?d (fnb s i) (12 < fnb s i)" using assms(1,2) by (auto simp: mkinv_def)
  have "\<exists>u e. mk_append ?d (d_size ?d) p s = Ok (e, d_size ?d + of_nat (length p)) u \<and> appended s ?d (unat (d_size ?d)) p u e"
    by (rule mk_append_spec) (use f assms(3,4) in \<open>simp_all add: fnb_def fsize_def\<close>)
  then obtain u e where a: "mk_append ?d (d_size ?d) p s = Ok (e, d_size ?d + of_nat (length p)) u"
    "appended s ?d (fsize (img s) i) p u e" by (auto simp: fsize_def)
  have "mok u" using a(2) by (simp add: appended_def file_st_def Let_def)
  then have r: "iappend i p s = Ok () (u\<lparr>img := put_ino i (e\<lparr>d_size := d_size ?d + of_nat (length p)\<rparr>) (img u)\<rparr>)"
    using a(1) mok i by (simp add: iappend_def mon_simps rinode_ok winode_ok)
  have "unat (d_size ?d + of_nat (length p)) = fsize (img s) i + length p"
    using assms(3) by (subst unat_add_nowrap) (auto simp: unat_of_nat_lt fsize_def)
  then show ?thesis using that [OF r refl refl a(2)] by simp
qed

text \<open>The image after \<^verbatim>\<open>iappend\<close>.\<close>

lemma iappend_image:
  assumes "mkinv s" "has_inode s i" "appended s (ino (img s) i) (fsize (img s) i) p u e"
    and "e' = e\<lparr>d_size := sz\<rparr>" "unat sz = fsize (img s) i + length p" "t = u\<lparr>img := put_ino i e' (img u)\<rparr>"
  shows "mok t" "freeinode t = freeinode s" "unat (freeblock s) \<le> unat (freeblock t)" "unat (freeblock t) \<le> 1000"
    "\<And>x. unat (freeblock t) \<le> x \<Longrightarrow> x < 1000 \<Longrightarrow> img t ! x = zeroes" "img t ! 1 = img s ! 1"
    "\<And>x. x < unat (freeblock s) \<Longrightarrow> 46 \<le> x \<Longrightarrow> x \<notin> fblocks s i \<Longrightarrow> img t ! x = img s ! x"
    "\<And>j. unat j < 208 \<Longrightarrow> ino (img t) j = (if i = j then e' else ino (img s) j)"
    "file_st t e' (fnb t i) (12 < fnb t i)" "image_file (img t) i = image_file (img s) i @ p"
    "fblocks t i \<subseteq> fblocks s i \<union> {unat (freeblock s)..<unat (freeblock t)}"
    "unat (freeblock t) + cost (fnb s i) = unat (freeblock s) + cost (nblk (fsize (img s) i + length p))"
proof -
  let ?d = "ino (img s) i" and ?n = "fnb s i" and ?n' = "nblk (fsize (img s) i + length p)"
  have i: "unat i < 208" by (rule inode_of(1) [OF assms(1,2)])
  have f: "file_st s ?d ?n (12 < ?n)" using assms(1,2) by (simp add: mkinv_def)
  have a: "file_st u e ?n' (12 < ?n')" "file_frame s ?d ?n (12 < ?n) u e ?n' (12 < ?n')"
    "unat (freeblock u) + cost ?n = unat (freeblock s) + cost ?n'"
    "fcontent u e (fsize (img s) i + length p) = image_file (img s) i @ p"
    using assms(3) by (simp_all add: appended_def Let_def fnb_def image_file_fcontent)
  show mt: "mok t" using a(1) i by (simp add: assms(6) file_st_def mok_put_ino)
  have u: "u = s\<lparr>freeblock := freeblock u, img := img u\<rparr>" using a(2) by (simp add: file_frame_def)
  have fu: "freeblock t = freeblock u" by (simp add: assms(6))
  show "freeinode t = freeinode s" unfolding assms(6) by (subst u) simp
  show "unat (freeblock s) \<le> unat (freeblock t)" "unat (freeblock t) \<le> 1000"
    using a(1,2) by (auto simp: fu file_st_def file_frame_def)
  show "unat (freeblock t) + cost ?n = unat (freeblock s) + cost ?n'" using a(3) fu by simp
  have high: "img t ! x = img u ! x" if "46 \<le> x" for x using that i by (simp add: assms(6) put_ino_nth)
  have low: "img u ! x = img s ! x" if "x < 46" for x using frame_low [OF f a(2) that] .
  show tail: "\<And>x. unat (freeblock t) \<le> x \<Longrightarrow> x < 1000 \<Longrightarrow> img t ! x = zeroes" using a(1) high by (auto simp: fu file_st_def)
  show "img t ! 1 = img s ! 1" using low [of 1] by (simp add: assms(6) put_ino_def)
  show "img t ! x = img s ! x" if "x < unat (freeblock s)" "46 \<le> x" "x \<notin> fblocks s i" for x
    using that high a(2) by (simp add: fblocks_def file_frame_def)
  have addrs: "d_addrs e' = d_addrs e" by (simp add: assms(4))
  show it: "ino (img t) j = (if i = j then e' else ino (img s) j)" if "unat j < 208" for j
    using ino_put [of u i j e'] that i a(1) low [of "32 + unat j div 16"] addrs by (simp add: assms(6) file_st_def ino_def)
  have fnbt: "fnb t i = ?n'" "fsize (img t) i = fsize (img s) i + length p"
    using it [OF i] assms(4,5) by (simp_all add: fnb_def fsize_def)
  note e2 = file_st_addrs [OF a(1) addrs]
  have same: "\<And>x. x \<in> used u e' ?n' (12 < ?n') \<Longrightarrow> img t ! x = img u ! x" using used_less [OF e2(1)] high by blast
  show "file_st t e' (fnb t i) (12 < fnb t i)"
    using file_st_transfer [OF e2(1) same mt] tail fu a(1) fnbt by (simp add: file_st_def)
  show "fblocks t i \<subseteq> fblocks s i \<union> {unat (freeblock s)..<unat (freeblock t)}"
    using a(2) file_transfer(2) [OF e2(1) same] it [OF i] fnbt fu e2(4) by (simp add: fblocks_def file_frame_def)
  show "image_file (img t) i = image_file (img s) i @ p"
    using file_transfer(3) [OF e2(1) same, of "fsize (img s) i + length p"] nblk_bound a(4) it [OF i] fnbt e2(3)
    by (simp add: image_file_fcontent)
qed

lemma fblocks_range: "mkinv s \<Longrightarrow> has_inode s j \<Longrightarrow> x \<in> fblocks s j \<Longrightarrow> 46 \<le> x \<and> x < unat (freeblock s)"
  unfolding fblocks_def by (rule used_less) (simp_all add: mkinv_def)

text \<open>\<^verbatim>\<open>iappend\<close> adds the bytes to its file, leaves the others, and keeps the image well formed.\<close>

lemma iappend_refines:
  assumes "mkinv s" "has_inode s i" "length (image_file (img s) i) + length p \<le> 268 * 1024"
    and "blocks_of ((files s)[unat i - 1 := image_file (img s) i @ p]) \<le> 954"
  obtains t where "iappend i p s = Ok () t" "mkinv t" "freeinode t = freeinode s"
    "files t = (files s)[unat i - 1 := image_file (img s) i @ p]" "img t ! 1 = img s ! 1"
proof -
  let ?n = "fnb s i" and ?n' = "nblk (fsize (img s) i + length p)"
  have i: "unat i < 208" by (rule inode_of(1) [OF assms(1,2)])
  have fb: "unat (freeblock s) = 46 + blocks_of (files s)" using assms(1) by (simp add: mkinv_def)
  have bl: "blocks_of ((files s)[unat i - 1 := image_file (img s) i @ p]) + cost ?n = blocks_of (files s) + cost ?n'"
    using blocks_of_update [OF inode_of(3) [OF assms(1,2)], of "image_file (img s) i @ p"]
    by (simp only: inode_of(2) [OF assms(1,2)] fnb_def length_append length_image_file)
  have room: "unat (freeblock s) + cost ?n' \<le> 1000 + cost ?n" "fsize (img s) i + length p \<le> 268 * 1024"
    using assms(3,4) bl fb by simp_all
  obtain u e e' t where r: "iappend i p s = Ok () t" "t = u\<lparr>img := put_ino i e' (img u)\<rparr>"
      "e' = e\<lparr>d_size := d_size (ino (img s) i) + of_nat (length p)\<rparr>" "appended s (ino (img s) i) (fsize (img s) i) p u e"
      "unat (d_size e') = fsize (img s) i + length p"
    using iappend_step [OF assms(1,2) room(2,1)] by metis
  have sz: "unat (d_size (ino (img s) i) + of_nat (length p)) = fsize (img s) i + length p" using r(3,5) by simp
  note im = iappend_image [OF assms(1,2) r(4,3) sz r(2)]
  have others: "ino (img t) j = ino (img s) j \<and> (\<forall>x\<in>fblocks s j. img t ! x = img s ! x)" if "has_inode s j" "j \<noteq> i" for j
  proof -
    have "fblocks s j \<inter> fblocks s i = {}" using assms(1,2) that by (simp add: mkinv_def)
    then show ?thesis using im(7,8) inode_of(1) [OF assms(1) that(1)] that fblocks_range [OF assms(1) that(1)] by (simp add: disjoint_iff)
  qed
  have fs: "files t = (files s)[unat i - 1 := image_file (img s) i @ p]"
    using others others_kept(1) [OF assms(1)] by (intro files_eqI [OF im(2) assms(1,2) im(10)]) blast
  have "mkinv t"
  proof (rule mkinv_change [OF assms(1) im(1), of i])
    show "fblocks t i \<inter> fblocks s j = {}" if "has_inode s j" "j \<noteq> i" for j
    proof -
      have "fblocks s j \<inter> fblocks s i = {}" using assms(1,2) that by (simp add: mkinv_def)
      then show ?thesis using im(11) fblocks_range [OF assms(1) that(1)] by fastforce
    qed
    show "unat (freeblock t) = 46 + blocks_of (files t)" using im(12) bl fb fs by simp
  qed (use im assms(1) others i in \<open>auto simp: has_inode_def mkinv_def\<close>)
  then show ?thesis using that [OF r(1) _ im(2) fs im(6)] by blast
qed

section \<open>ialloc\<close>

lemma file_st_empty:
  assumes "mok t" "46 \<le> unat (freeblock t)" "unat (freeblock t) \<le> 1000" "d_addrs d = (\<lambda>_. 0)"
    and "\<And>x. unat (freeblock t) \<le> x \<Longrightarrow> x < 1000 \<Longrightarrow> img t ! x = zeroes"
  shows "file_st t d 0 False" "used t d 0 False = {}"
proof -
  have "slot (img t) d k = 0" for k by (simp add: slot_def assms(4))
  then show "file_st t d 0 False" "used t d 0 False = {}"
    using assms by (auto simp: file_st_def wfslots_def live_def used_def)
qed

lemma ialloc_refines:
  assumes "mkinv s" "unat (freeinode s) < 208"
  obtains t where "mk_ialloc ty s = Ok (freeinode s) t" "mkinv t" "freeinode t = freeinode s + 1"
    "files t = files s @ [[]]" "img t ! 1 = img s ! 1"
proof -
  let ?i = "freeinode s"
  define d where "d = (empty_dinode ty)\<lparr>d_nlink := 1, d_size := 0\<rparr>"
  define t where "t = s\<lparr>freeinode := ?i + 1, img := put_ino ?i d (img s)\<rparr>"
  have mok: "mok s" using assms(1) by (simp add: mkinv_def)
  have r: "mk_ialloc ty s = Ok ?i t"
    using winode_ok [of "s\<lparr>freeinode := ?i + 1\<rparr>" ?i d] mok assms(2) by (simp add: mk_ialloc_def mon_simps d_def t_def)
  have mt: "mok t" using mok_put_ino [OF mok assms(2), of d] by (simp add: t_def mok_def)
  have u: "unat (?i + 1) = Suc (unat ?i)" using assms(2) by (simp add: unat_word_ariths)
  have it: "ino (img t) j = (if ?i = j then d else ino (img s) j)" if "unat j < 208" for j
    using ino_put [OF mok assms(2) that, of d] by (simp add: t_def d_def empty_dinode_def)
  have high: "img t ! x = img s ! x" if "46 \<le> x" for x using that assms(2) by (simp add: t_def put_ino_nth)
  have z: "fsize (img t) ?i = 0" "fnb t ?i = 0" using it [OF assms(2)] by (simp_all add: fsize_def fnb_def d_def nblk_def)
  have tail: "img t ! x = zeroes" if "unat (freeblock t) \<le> x" "x < 1000" for x
    using that assms(1) high [of x] by (simp add: t_def mkinv_def)
  have e: "file_st t d 0 False" "used t d 0 False = {}"
    by (rule file_st_empty [OF mt]; use assms(1) tail in \<open>simp add: t_def mkinv_def d_def empty_dinode_def\<close>)+
  have others: "ino (img t) j = ino (img s) j \<and> (\<forall>x\<in>fblocks s j. img t ! x = img s ! x)" if "has_inode s j" for j
    using it [of j] that inode_of(1) [OF assms(1) that] fblocks_range [OF assms(1) that] high by (auto simp: has_inode_def)
  have fs: "files t = files s @ [[]]"
  proof (rule nth_equalityI)
    fix k assume "k < length (files t)"
    then have k: "k < unat ?i" using u by (simp add: t_def)
    have n: "unat (of_nat (Suc k) :: u32) = Suc k" using k assms(2) by (intro unat_of_nat_lt) simp
    have "image_file (img t) (of_nat (Suc k)) = (files s @ [[]]) ! k"
    proof (cases "Suc k = unat ?i")
      case True
      then have "of_nat (Suc k) = ?i" by (simp only:) simp
      then show ?thesis using z(1) True [symmetric] by (simp add: image_file_def nth_append)
    next
      case False
      then have h: "has_inode s (of_nat (Suc k))" using k n unfolding has_inode_def by simp
      have "image_file (img t) (of_nat (Suc k)) = image_file (img s) (of_nat (Suc k))"
        by (rule others_kept(1) [OF assms(1) h]) (use others [OF h] in auto)
      also have "\<dots> = files s ! k" using inode_of(2) [OF assms(1) h] by (simp only: n diff_Suc_1)
      also have "\<dots> = (files s @ [[]]) ! k"
      proof -
        have "k < length (files s)" using k False by (simp only: length_files)
        then show ?thesis by (rule nth_append_left [symmetric])
      qed
      finally show ?thesis .
    qed
    then show "files t ! k = (files s @ [[]]) ! k" using k u by (simp add: files_def t_def)
  qed (use u assms(1) in \<open>simp add: t_def mkinv_def\<close>)
  have "mkinv t"
  proof (rule mkinv_change [OF assms(1) mt, of ?i])
    show "file_st t (ino (img t) ?i) (fnb t ?i) (12 < fnb t ?i)" using e(1) it [OF assms(2)] z by simp
    show "fblocks t ?i \<inter> fblocks s j = {}" for j using e(2) it [OF assms(2)] z by (simp add: fblocks_def)
    show "unat (freeblock t) = 46 + blocks_of (files t)"
      using assms(1) fs by (simp add: t_def mkinv_def blocks_of_def cost_def nblk_def)
    show "has_inode s j" if "has_inode t j" "j \<noteq> ?i" for j
      using that u by (auto simp: has_inode_def t_def less_Suc_eq word_unat_eq_iff)
  qed (use assms u tail others in \<open>auto simp: t_def mkinv_def\<close>)
  moreover have "img t ! 1 = img s ! 1" by (simp add: t_def put_ino_def)
  ultimately show ?thesis using that [OF r] fs by (simp add: t_def)
qed

section \<open>The files of the command line\<close>

definition file_data :: "(u8 list \<Rightarrow> u8 list list option) \<Rightarrow> u8 list \<Rightarrow> u8 list" where
  "file_data host a = (case host a of None \<Rightarrow> [] | Some rs \<Rightarrow> concat (takeWhile (\<lambda>r. r \<noteq> []) rs))"

definition root_dir :: "u8 list list \<Rightarrow> u8 list" where
  "root_dir args = mk_dirent 1 [46] @ mk_dirent 1 [46, 46] @
     concat (map (\<lambda>(k, a). mk_dirent (of_nat k) (skip_underscore (shortname a))) (enumerate 2 args))"

text \<open>The files exist, have plain names, and fit.\<close>

definition mkfs_fits :: "(u8 list \<Rightarrow> u8 list list option) \<Rightarrow> u8 list list \<Rightarrow> bool" where
  "mkfs_fits host args \<longleftrightarrow> length args \<le> 198 \<and>
     (\<forall>a\<in>set args. 47 \<notin> set (shortname a) \<and> host a \<noteq> None \<and> length (file_data host a) \<le> 268 * 1024) \<and>
     blocks_of (root_dir args # map (file_data host) args) \<le> 954"

lemma blocks_of_simps [simp]:
  "blocks_of [] = 0" "blocks_of (f # fs) = cost (nblk (length f)) + blocks_of fs" "blocks_of (fs @ gs) = blocks_of fs + blocks_of gs"
  by (simp_all add: blocks_of_def)

lemma blocks_of_mono:
  assumes "k < length fs" "length f \<le> length g" shows "blocks_of (fs[k := f]) \<le> blocks_of (fs[k := g])"
  using blocks_of_update [OF assms(1), of f] blocks_of_update [OF assms(1), of g] cost_mono [OF nblk_mono [OF assms(2)]] by linarith

lemma length_mk_dirent [simp]: "length (mk_dirent i n) = 16"
  by (simp add: mk_dirent_def dirent_bytes_def)

lemma appends_refine:
  assumes "mkinv s" "has_inode s i" "length (image_file (img s) i @ concat rs) \<le> 268 * 1024"
    and "blocks_of ((files s)[unat i - 1 := image_file (img s) i @ concat rs]) \<le> 954"
  shows "\<exists>t. forM rs (iappend i) s = Ok () t \<and> mkinv t \<and> freeinode t = freeinode s \<and>
    files t = (files s)[unat i - 1 := image_file (img s) i @ concat rs] \<and> img t ! 1 = img s ! 1"
  using assms
proof (induction rs arbitrary: s)
  case Nil
  then show ?case using inode_of(2) [OF Nil.prems(1,2)] by (simp, metis list_update_id)
next
  case (Cons r rs)
  let ?k = "unat i - 1" and ?f = "image_file (img s) i"
  note k = inode_of(2,3) [OF Cons.prems(1,2)]
  have "blocks_of ((files s)[?k := ?f @ r]) \<le> blocks_of ((files s)[?k := ?f @ concat (r # rs)])"
    by (rule blocks_of_mono [OF k(2)]) simp
  then have "length ?f + length r \<le> 268 * 1024" "blocks_of ((files s)[?k := ?f @ r]) \<le> 954" using Cons.prems(3,4) by simp_all
  from iappend_refines [OF Cons.prems(1,2) this] obtain t where t: "iappend i r s = Ok () t" "mkinv t" "freeinode t = freeinode s"
      "files t = (files s)[?k := ?f @ r]" "img t ! 1 = img s ! 1" by blast
  have h: "has_inode t i" using Cons.prems(2) t(3) by (simp add: has_inode_def)
  have f: "image_file (img t) i = ?f @ r" using inode_of(2) [OF t(2) h] t(4) k(2) by simp
  have "\<exists>u. forM rs (iappend i) t = Ok () u \<and> mkinv u \<and> freeinode u = freeinode t \<and>
    files u = (files t)[?k := image_file (img t) i @ concat rs] \<and> img u ! 1 = img t ! 1"
    by (rule Cons.IH [OF t(2) h]) (use Cons.prems(3,4) f t(4) in simp_all)
  then show ?case using t f by (auto simp: mon_simps)
qed

lemma mk_file_refines:
  assumes "mkinv s" "files s = root # fs" "unat (freeinode s) < 208" "47 \<notin> set (shortname a)" "host a \<noteq> None"
    and "length root + 16 \<le> 268 * 1024" "length (file_data host a) \<le> 268 * 1024"
    and "blocks_of ((root @ mk_dirent (freeinode s) (skip_underscore (shortname a))) # fs @ [file_data host a]) \<le> 954"
  obtains t where "mk_file host 1 a s = Ok () t" "mkinv t" "freeinode t = freeinode s + 1" "img t ! 1 = img s ! 1"
    "files t = (root @ mk_dirent (freeinode s) (skip_underscore (shortname a))) # fs @ [file_data host a]"
proof -
  let ?i = "freeinode s" and ?e = "mk_dirent (freeinode s) (skip_underscore (shortname a))"
  obtain rs where rs: "host a = Some rs" using assms(5) by blast
  obtain t where t: "mk_ialloc T_FILE s = Ok ?i t" "mkinv t" "freeinode t = ?i + 1" "files t = files s @ [[]]" "img t ! 1 = img s ! 1"
    using ialloc_refines [OF assms(1,3)] by blast
  have u: "unat (?i + 1) = Suc (unat ?i)" using assms(3) by (simp add: unat_word_ariths)
  have l: "unat ?i = Suc (length (root # fs))" using length_files [of s] assms(1,2) by (simp add: mkinv_def)
  have h: "has_inode t 1" "has_inode t ?i" using t(3) u l by (auto simp: has_inode_def)
  have f1: "image_file (img t) 1 = root" using inode_of(2) [OF t(2) h(1)] t(4) assms(2) by simp
  have "length (image_file (img t) 1) + length ?e \<le> 268 * 1024" using assms(6) f1 by (simp del: length_image_file)
  moreover have "blocks_of ((files t)[unat (1 :: u32) - 1 := image_file (img t) 1 @ ?e]) \<le> 954"
    using assms(2,8) t(4) f1 by (simp add: cost_def nblk_def)
  ultimately obtain v where v: "iappend 1 ?e t = Ok () v" "mkinv v" "freeinode v = freeinode t"
      "files v = (root @ ?e) # fs @ [[]]" "img v ! 1 = img t ! 1"
    using iappend_refines [OF t(2) h(1), of ?e] f1 t(4) assms(2) by (metis (no_types, lifting) append_Cons diff_self_eq_0 list_update_code(2) unat_1)
  have hv: "has_inode v ?i" using h(2) v(3) by (simp add: has_inode_def)
  have fi: "image_file (img v) ?i = []" using inode_of(2) [OF v(2) hv] v(4) l by (simp add: nth_append)
  have up: "(files v)[unat ?i - 1 := x] = (root @ ?e) # fs @ [x]" for x using v(4) l by (simp add: list_update_append)
  have "\<exists>w. forM (takeWhile (\<lambda>r. r \<noteq> []) rs) (iappend ?i) v = Ok () w \<and> mkinv w \<and> freeinode w = freeinode v \<and>
      files w = (files v)[unat ?i - 1 := image_file (img v) ?i @ concat (takeWhile (\<lambda>r. r \<noteq> []) rs)] \<and> img w ! 1 = img v ! 1"
    by (rule appends_refine [OF v(2) hv]) (use assms(7,8) rs fi in \<open>simp_all add: up [unfolded One_nat_def] file_data_def del: length_image_file\<close>)
  then obtain w where w: "forM (takeWhile (\<lambda>r. r \<noteq> []) rs) (iappend ?i) v = Ok () w" "mkinv w" "freeinode w = freeinode v"
      "files w = (root @ ?e) # fs @ [file_data host a]" "img w ! 1 = img v ! 1"
    using rs fi up [of "file_data host a"] by (auto simp: file_data_def)
  have "mk_file host 1 a s = Ok () w"
    using assms(4) rs t(1) v(1) w(1) by (simp add: mk_file_def mon_simps mk_assert_def)
  then show ?thesis using that w t(3,5) v(3,5) by simp
qed

section \<open>The whole program\<close>

lemma superblock_roundtrip: "superblock_read (splice (replicate 1024 0) 0 (superblock_bytes b)) = b"
  by (simp add: superblock_read_def splice_def superblock_bytes_def get32_def)

lemma format_loop:
  "n \<le> 1000 \<Longrightarrow> 1000 \<le> room s \<Longrightarrow> img s = [] \<Longrightarrow>
    forM [0..<n] (\<lambda>i. wsect (of_nat i) zeroes) s = Ok () (s\<lparr>img := replicate n zeroes\<rparr>)"
proof (induction n)
  case (Suc n)
  have "unat (of_nat n :: u32) = n" using Suc.prems by (intro unat_of_nat_lt) simp
  then have "sector (of_nat n) = n" using Suc.prems by (simp add: sector_small)
  then have "wsect (of_nat n) zeroes (s\<lparr>img := replicate n zeroes\<rparr>) = Ok () (s\<lparr>img := replicate (Suc n) zeroes\<rparr>)"
    using Suc.prems by (simp add: wsect_def mon_simps put_sector_def replicate_append_same [symmetric] list_update_append)
  then show ?case using Suc by (simp add: forM_append mon_simps)
qed simp

lemma mk_format_ok:
  assumes "1000 \<le> r"
  obtains s where "mk_format (mkfs_start r) = Ok () s" "mkinv s" "files s = []" "freeinode s = 1"
    "superblock_read (img s ! 1) = mk_superblock"
proof -
  let ?b = "splice (replicate 1024 0) 0 (superblock_bytes mk_superblock)"
  let ?s = "(mkfs_start r)\<lparr>mk_sb := mk_superblock, freeblock := of_nat nmeta\<rparr>"
  define s where "s = ?s\<lparr>img := (replicate 1000 zeroes)[1 := ?b]\<rparr>"
  have l: "length ?b = 1024" by (subst length_splice) (simp_all add: superblock_bytes_def)
  have m: "mok (?s\<lparr>img := replicate 1000 zeroes\<rparr>)" using assms by (simp add: mok_def mkfs_start_def zeroes_def)
  have ms: "mok s" using mok_put [OF m l, of 1] by (simp add: s_def)
  have "mk_format (mkfs_start r) = Ok () s"
    using format_loop [of 1000 ?s] wsect_ok [OF m, of 1 ?b] assms by (simp add: mk_format_def mon_simps mkfs_start_def s_def)
  moreover have f: "files s = []" "freeinode s = 1" by (simp_all add: files_def s_def mkfs_start_def)
  moreover have "freeblock s = 46" by (simp add: s_def nmeta_def ninodeblocks_def nbitmap_def)
  then have "mkinv s" using ms f by (auto simp: mkinv_def has_inode_def) (auto simp: s_def)
  moreover have "superblock_read (img s ! 1) = mk_superblock" by (simp add: s_def superblock_roundtrip)
  ultimately show ?thesis using that by blast
qed

lemma mk_root_ok:
  assumes "mkinv s" "files s = []" "freeinode s = 1"
  obtains t where "mk_root s = Ok 1 t" "mkinv t" "files t = [root_dir []]" "freeinode t = 2" "img t ! 1 = img s ! 1"
proof -
  let ?a = "mk_dirent 1 [46]" and ?b = "mk_dirent 1 [46, 46]"
  obtain t where t: "mk_ialloc T_DIR s = Ok 1 t" "mkinv t" "freeinode t = 2" "files t = [[]]" "img t ! 1 = img s ! 1"
    using ialloc_refines [OF assms(1), of T_DIR] assms by auto
  have h: "has_inode t 1" using t(3) by (simp add: has_inode_def)
  have f: "image_file (img t) 1 = []" using inode_of(2) [OF t(2) h] t(4) by simp
  have "\<exists>u. forM [?a, ?b] (iappend 1) t = Ok () u \<and> mkinv u \<and> freeinode u = freeinode t \<and>
      files u = (files t)[unat (1 :: u32) - 1 := image_file (img t) 1 @ concat [?a, ?b]] \<and> img u ! 1 = img t ! 1"
    by (rule appends_refine [OF t(2) h]) (use f t(4) in \<open>simp_all add: cost_def nblk_def del: length_image_file\<close>)
  then obtain u where u: "forM [?a, ?b] (iappend 1) t = Ok () u" "mkinv u" "freeinode u = 2" "files u = [?a @ ?b]" "img u ! 1 = img s ! 1"
    using t f by auto
  obtain v where "iappend 1 ?a t = Ok () v" "iappend 1 ?b v = Ok () u" using u(1) by (auto simp: bind_Ok_iff)
  then have "mk_root s = Ok 1 u" using t(1) by (simp add: mk_root_def mon_simps mk_assert_def)
  then show ?thesis using that u by (simp add: root_dir_def)
qed

lemma root_dir_snoc:
  "root_dir (as @ [a]) = root_dir as @ mk_dirent (of_nat (length as + 2)) (skip_underscore (shortname a))"
  by (simp add: root_dir_def enumerate_append_eq)

lemma length_root_dir: "length (root_dir as) = 16 * (length as + 2)"
  by (induction as rule: rev_induct) (simp_all add: root_dir_snoc, simp add: root_dir_def)

lemma mkfs_fits_butlast:
  assumes "mkfs_fits host (as @ [a])" shows "mkfs_fits host as"
proof -
  have "cost (nblk (length (root_dir as))) \<le> cost (nblk (length (root_dir (as @ [a]))))"
    by (intro cost_mono nblk_mono) (simp add: root_dir_snoc)
  then show ?thesis using assms by (simp add: mkfs_fits_def)
qed

lemma mk_files_refine:
  assumes "mkinv s" "files s = [root_dir []]" "freeinode s = 2" "mkfs_fits host args"
  shows "\<exists>t. forM args (mk_file host 1) s = Ok () t \<and> mkinv t \<and> files t = root_dir args # map (file_data host) args \<and>
    img t ! 1 = img s ! 1"
  using assms(4)
proof (induction args rule: rev_induct)
  case Nil
  then show ?case using assms by simp
next
  case (snoc a as)
  from snoc.IH [OF mkfs_fits_butlast [OF snoc.prems]] obtain t where t: "forM as (mk_file host 1) s = Ok () t" "mkinv t"
    "files t = root_dir as # map (file_data host) as" "img t ! 1 = img s ! 1" by blast
  have n: "length as \<le> 197" using snoc.prems by (simp add: mkfs_fits_def)
  have u: "unat (freeinode t) = length as + 2" using length_files [of t] t(2,3) by (simp add: mkinv_def)
  have i: "freeinode t = of_nat (length as + 2)" unfolding u [symmetric] by simp
  have "\<exists>v. mk_file host 1 a t = Ok () v \<and> mkinv v \<and> img v ! 1 = img t ! 1 \<and>
      files v = root_dir (as @ [a]) # map (file_data host) as @ [file_data host a]"
  proof -
    have b: "blocks_of ((root_dir as @ mk_dirent (freeinode t) (skip_underscore (shortname a))) # map (file_data host) as @ [file_data host a]) \<le> 954"
      using snoc.prems unfolding mkfs_fits_def root_dir_snoc i by simp
    obtain v where "mk_file host 1 a t = Ok () v" "mkinv v" "img v ! 1 = img t ! 1"
        "files v = (root_dir as @ mk_dirent (freeinode t) (skip_underscore (shortname a))) # map (file_data host) as @ [file_data host a]"
      by (rule mk_file_refines [OF t(2,3) _ _ _ _ _ b]) (use snoc.prems n u in \<open>auto simp: mkfs_fits_def length_root_dir\<close>)
    then show ?thesis unfolding root_dir_snoc i by blast
  qed
  then show ?case using t by (auto simp: forM_append mon_simps)
qed

section \<open>The bitmap and the size of the root directory\<close>

lemma bitmap_fold:
  "n \<le> 8 * length bs \<Longrightarrow> bit_of (fold (\<lambda>i b. set_bitmap b i) [0..<n] bs) j \<longleftrightarrow> j < n \<or> bit_of bs j"
proof (induction n)
  case (Suc n)
  have "length (fold (\<lambda>i b. set_bitmap b i) [0..<n] bs) = length bs" for n
    by (induction n) (simp_all add: set_bitmap_def)
  then show ?case using Suc by (auto simp: bit_of_set less_Suc_eq)
qed simp

lemma bitmap_first:
  assumes "n \<le> 8192"
  shows "{j. j < 8192 \<and> bit_of (fold (\<lambda>i b. set_bitmap b i) [0..<n] (replicate 1024 0)) j} = {..<n}"
proof -
  have "\<not> bit_of (replicate 1024 0) j" if "j < 8192" for j
    using that by (simp add: bit_of_def less_mult_imp_div_less)
  then show ?thesis using assms by (auto simp: bitmap_fold)
qed

lemma sint_small: "unat (w :: u32) < 2147483648 \<Longrightarrow> sint w = int (unat w)"
proof -
  assume w: "unat w < 2147483648"
  have "\<not> bit w 31"
  proof
    assume "bit w 31"
    then have "bit (unat w) 31" by (simp add: bit_unsigned_iff)
    then have "2 ^ 31 \<le> unat w" by (metis bit_nat_def div_less even_zero leI)
    then show False using w by simp
  qed
  moreover have "take_bit 31 (uint w) = uint w"
  proof -
    have "int (unat w) < 2147483648" using w by linarith
    then show ?thesis by (intro take_bit_int_eq_self) simp_all
  qed
  ultimately show ?thesis by (simp add: sint_uint signed_take_bit_eq_if_positive bit_uint_iff)
qed

lemma image_cong:
  assumes "mkinv s" "has_inode s i" "d_addrs (ino S i) = d_addrs (ino (img s) i)" "fsize (img s) i \<le> fsize S i"
    and "\<And>x. 46 \<le> x \<Longrightarrow> S ! x = img s ! x"
  shows "take (fsize (img s) i) (image_file S i) = image_file (img s) i"
proof -
  define t where "t = s\<lparr>img := S\<rparr>"
  let ?d = "ino (img s) i" and ?n = "fnb s i"
  have f: "file_st s ?d ?n (12 < ?n)" using assms(1,2) by (simp add: mkinv_def)
  have "fcontent t ?d (fsize (img s) i) = fcontent s ?d (fsize (img s) i)"
    by (rule file_transfer(3) [OF f]) (use used_less [OF f] assms(5) nblk_bound in \<open>auto simp: t_def fnb_def\<close>)
  moreover have "slot S (ino S i) = slot S ?d" using assms(3) by (simp add: slot_def fun_eq_iff)
  ultimately show ?thesis using assms(4)
    by (simp add: image_file_fcontent image_file_def [of S] fcontent_def t_def take_map)
qed

lemma mk_finish:
  assumes "mkinv s" "1 < unat (freeinode s)" "fsize (img s) 1 < 2 ^ 20"
  obtains t where "bind (mk_root_size 1) (\<lambda>_. bind (gets freeblock) mk_balloc) s = Ok () t" "length (img t) = 1000"
    "img t ! 1 = img s ! 1" "\<And>i. has_inode s i \<Longrightarrow> i \<noteq> 1 \<Longrightarrow> image_file (img t) i = image_file (img s) i"
    "take (fsize (img s) 1) (image_file (img t) 1) = image_file (img s) 1"
    "{j. j < 8192 \<and> bit_of (img t ! 45) j} = {..<unat (freeblock s)}"
proof -
  let ?d = "ino (img s) 1" and ?bm = "fold (\<lambda>i b. set_bitmap b i) [0..<unat (freeblock s)] (replicate 1024 0)"
  define e where "e = ?d\<lparr>d_size := (d_size ?d div 1024 + 1) * 1024\<rparr>"
  define u where "u = s\<lparr>img := put_ino 1 e (img s)\<rparr>"
  define t where "t = u\<lparr>img := (img u)[45 := ?bm]\<rparr>"
  have mok: "mok s" and fb: "unat (freeblock s) \<le> 1000" using assms(1) by (auto simp: mkinv_def)
  have mu: "mok u" using mok_put_ino [OF mok, of 1 e] by (simp add: u_def)
  have rs: "mk_root_size 1 s = Ok () u" using mok by (simp add: mk_root_size_def mon_simps rinode_ok winode_ok e_def u_def)
  have "sint (freeblock s) = int (unat (freeblock s))" using fb by (intro sint_small) simp
  moreover from this have "sint (freeblock s) < 8192" using fb by linarith
  ultimately have ba: "mk_balloc (freeblock u) u = Ok () t"
    using mu wsect_ok [OF mu, of 45]
    by (simp add: mk_balloc_def mon_simps mk_assert_def u_def t_def mk_superblock_def ninodeblocks_def mok_def)
  have run: "bind (mk_root_size 1) (\<lambda>_. bind (gets freeblock) mk_balloc) s = Ok () t" using rs ba by (simp add: mon_simps)
  have i1: "has_inode s 1" using assms(2) by (simp add: has_inode_def)
  have it: "ino (img t) j = (if 1 = j then e else ino (img s) j)" if "unat j < 208" for j
    using ino_put [OF mok _ that, of 1 e] ino_data [OF that, of 45 "img u" ?bm] ino_high by (simp add: t_def u_def e_def)
  have high: "img t ! x = img s ! x" if "46 \<le> x" for x using that by (simp add: t_def u_def put_ino_nth)
  have sz: "fsize (img s) 1 \<le> fsize (img t) 1"
  proof -
    have "unat (d_size ?d) div 1024 < 1024" using assms(3) by (simp add: fsize_def less_mult_imp_div_less)
    then have "unat ((d_size ?d div 1024 + 1) * 1024) = (unat (d_size ?d) div 1024 + 1) * 1024"
      by (simp add: unat_word_ariths unat_div_distrib)
    moreover have "m \<le> (m div 1024 + 1) * 1024" for m :: nat
      using dividend_less_div_times [of 1024 m] by (simp add: algebra_simps)
    ultimately show ?thesis using it [of 1] by (simp add: fsize_def e_def)
  qed
  have "image_file (img t) i = image_file (img s) i" if "has_inode s i" "i \<noteq> 1" for i
  proof (rule others_kept(1) [OF assms(1) that(1)])
    show "ino (img t) i = ino (img s) i" using it [OF inode_of(1) [OF assms(1) that(1)]] that(2) by simp
    show "img t ! x = img s ! x" if "x \<in> fblocks s i" for x
      using fblocks_range [OF assms(1) \<open>has_inode s i\<close> that] high by blast
  qed
  moreover have "take (fsize (img s) 1) (image_file (img t) 1) = image_file (img s) 1"
    by (rule image_cong [OF assms(1) i1 _ sz high]) (use it [of 1] in \<open>simp add: e_def\<close>)
  moreover have "img t ! 45 = ?bm" using mu by (simp add: t_def mok_def)
  moreover have "length (img t) = 1000" "img t ! 1 = img s ! 1" using mu by (simp_all add: t_def u_def put_ino_def mok_def)
  ultimately show ?thesis using that [OF run] bitmap_first [of "unat (freeblock s)"] fb by simp
qed

text \<open>
  C12. \<^verbatim>\<open>mkfs\<close> builds the file system of its command line: the image has its thousand sectors, the superblock that \<^verbatim>\<open>readsb\<close> will
  find, an inode for every file, in order, with exactly the bytes read from the host, a root directory that starts with the
  entries \<^verbatim>\<open>.\<close>, \<^verbatim>\<open>..\<close> and one per file, and a bitmap that marks exactly the blocks handed out.
\<close>

theorem mkfs_builds:
  assumes "mkfs_fits host args" and "1000 \<le> r" and "argv = prog # fsimg # args"
  shows "\<exists>S. mkfs_main r host True argv = Inr S \<and> length S = 1000 \<and> superblock_read (S ! 1) = mk_superblock \<and>
    (\<forall>k<length args. image_file S (of_nat (k + 2)) = file_data host (args ! k)) \<and>
    take (length (root_dir args)) (image_file S 1) = root_dir args \<and>
    {b. b < 8192 \<and> bit_of (S ! 45) b} = {..<46 + blocks_of (root_dir args # map (file_data host) args)}"
proof -
  obtain a where a: "mk_format (mkfs_start r) = Ok () a" "mkinv a" "files a = []" "freeinode a = 1" "superblock_read (img a ! 1) = mk_superblock"
    using mk_format_ok [OF assms(2)] by blast
  obtain b where b: "mk_root a = Ok 1 b" "mkinv b" "files b = [root_dir []]" "freeinode b = 2" "img b ! 1 = img a ! 1"
    using mk_root_ok [OF a(2-4)] by blast
  obtain s where s: "forM args (mk_file host 1) b = Ok () s" "mkinv s" "files s = root_dir args # map (file_data host) args" "img s ! 1 = img b ! 1"
    using mk_files_refine [OF b(2-4) assms(1)] by blast
  have n: "length args \<le> 198" using assms(1) by (simp add: mkfs_fits_def)
  have fi: "unat (freeinode s) = length args + 2" using length_files [of s] s(2,3) by (simp add: mkinv_def)
  have h: "has_inode s (of_nat (k + 1))" "files s ! k = image_file (img s) (of_nat (k + 1))" if "k \<le> length args" for k
  proof -
    have u: "unat (of_nat (k + 1) :: u32) = k + 1" using that n by (intro unat_of_nat_lt) simp
    then show h: "has_inode s (of_nat (k + 1))" using that fi unfolding has_inode_def by simp
    show "files s ! k = image_file (img s) (of_nat (k + 1))" using inode_of(2) [OF s(2) h] by (simp only: u add_diff_cancel_right')
  qed
  have root: "image_file (img s) 1 = root_dir args" using h(2) [of 0] s(3) by simp
  then have rs: "fsize (img s) 1 = length (root_dir args)" by (metis length_image_file)
  then have sz: "fsize (img s) 1 < 2 ^ 20" using n by (simp add: length_root_dir)
  have i1: "1 < unat (freeinode s)" using fi by simp
  obtain t where t: "bind (mk_root_size 1) (\<lambda>_. bind (gets freeblock) mk_balloc) s = Ok () t" "length (img t) = 1000"
    "img t ! 1 = img s ! 1" "\<And>i. has_inode s i \<Longrightarrow> i \<noteq> 1 \<Longrightarrow> image_file (img t) i = image_file (img s) i"
    "take (fsize (img s) 1) (image_file (img t) 1) = image_file (img s) 1"
    "{j. j < 8192 \<and> bit_of (img t ! 45) j} = {..<unat (freeblock s)}"
    using mk_finish [OF s(2) i1 sz] by blast
  have "mkfs_main r host True argv = Inr (img t)"
    using a(1) b(1) s(1) t(1) by (simp add: mkfs_main_def mkfs_def assms(3) mon_simps split: res.splits)
  moreover have "image_file (img t) (of_nat (k + 2)) = file_data host (args ! k)" if "k < length args" for k
  proof -
    have "unat (of_nat (k + 2) :: u32) = k + 2" using that n by (intro unat_of_nat_lt) simp
    then have "of_nat (k + 2) \<noteq> (1 :: u32)" by (metis unat_1 add_2_eq_Suc' nat.inject One_nat_def nat.distinct(1))
    then show ?thesis using t(4) [of "of_nat (k + 2)"] h [of "k + 1"] that s(3) by (simp add: add.assoc)
  qed
  moreover have "unat (freeblock s) = 46 + blocks_of (files s)" using s(2) by (simp add: mkinv_def)
  ultimately show ?thesis using t root rs s(3,4) b(5) a(5) by (intro exI [of _ "img t"]) simp
qed

theorem mkfs_builds_witness:
  "\<exists>S. mkfs_main 1000 (\<lambda>_. Some [[1, 2], [3]]) True [[], [], [117, 115, 101, 114, 47, 95, 108, 115]] = Inr S \<and>
    image_file S 2 = [1, 2, 3] \<and> {b. b < 8192 \<and> bit_of (S ! 45) b} = {..<48}"
proof -
  have f: "mkfs_fits (\<lambda>_. Some [[1, 2], [3]]) [[117, 115, 101, 114, 47, 95, 108, 115]]"
    by (simp add: mkfs_fits_def file_data_def length_root_dir cost_def nblk_def shortname_def)
  show ?thesis
    using mkfs_builds [OF f, of 1000 _ "[]" "[]"] by (simp add: file_data_def length_root_dir cost_def nblk_def) blast
qed

text \<open>
  C13. \<^verbatim>\<open>iappend\<close> on a well-formed image with room for the bytes returns, appends exactly them to its file, leaves every other file as it
  was, and keeps the image well formed: addresses of different blocks are distinct, also across files, and all below \<^verbatim>\<open>freeblock\<close>.
\<close>

theorem iappend_appends:
  assumes "mkinv s" and "has_inode s i" and "length (image_file (img s) i) + length p \<le> 268 * 1024"
    and "blocks_of ((files s)[unat i - 1 := image_file (img s) i @ p]) \<le> 954"
  shows "\<exists>t. iappend i p s = Ok () t \<and> mkinv t \<and> files t = (files s)[unat i - 1 := image_file (img s) i @ p]"
  using iappend_refines [OF assms] by blast

theorem iappend_appends_witness:
  "\<exists>s t. bind mk_format (\<lambda>_. mk_root) (mkfs_start 1000) = Ok 1 s \<and> iappend 1 [1, 2, 3] s = Ok () t \<and> mkinv t \<and>
    files t = [root_dir [] @ [1, 2, 3]]"
proof -
  obtain a where a: "mk_format (mkfs_start 1000) = Ok () a" "mkinv a" "files a = []" "freeinode a = 1"
    using mk_format_ok [of 1000] by auto
  obtain b where b: "mk_root a = Ok 1 b" "mkinv b" "files b = [root_dir []]" "freeinode b = 2"
    using mk_root_ok [OF a(2-4)] by blast
  have h: "has_inode b 1" using b(4) by (simp add: has_inode_def)
  have f: "image_file (img b) 1 = root_dir []" using inode_of(2) [OF b(2) h] b(3) by simp
  have l: "length (root_dir []) = 32" by (simp add: length_root_dir)
  have "\<exists>t. iappend 1 [1, 2, 3] b = Ok () t \<and> mkinv t \<and>
      files t = (files b)[unat (1 :: u32) - 1 := image_file (img b) 1 @ [1, 2, 3]]"
    by (rule iappend_appends [OF b(2) h]) (use f l b(3) in \<open>simp_all add: cost_def nblk_def del: length_image_file\<close>)
  then show ?thesis using a(1) b(1,3) f by (auto simp: mon_simps)
qed

end
