(* ===== verification/Spec2Isabelle.thy ===== *)
theory Spec2Isabelle
  imports LogWitness ShellRun UserTools SmallProgs UserProgs Umalloc MkfsProps
begin

text \<open>
  A verification development for xv6 (RISC-V), the teaching operating system under \<^verbatim>\<open>src/\<close>: its
  kernel in \<^verbatim>\<open>src/kernel\<close> and its user programs in \<^verbatim>\<open>src/user\<close>.

  \<^bold>\<open>Method.\<close>  Every C function is a HOL function of the same name on an explicit state, written
  with the combinators of theory \<open>Prelude\<close>: \<open>bind\<close>, \<open>gets\<close>, \<open>modify\<close>, \<open>panic\<close>, \<open>block\<close>, \<open>forM\<close>.  A
  routine returns (\<open>Ok\<close>), panics (\<open>Panic\<close> with the message of the source), or cannot go on by itself
  (\<open>Blocked\<close>): it spins on a lock held elsewhere or has switched to the scheduler.  Code after
  a context switch is a definition of its own, with the suffix \<^verbatim>\<open>_resume\<close>; loops that sleep are
  definitions with the suffix \<^verbatim>\<open>_loop\<close> that the resumed process runs again.  Machine integers are
  words of their width.  Physical memory is a function from 64-bit addresses to bytes; page
  tables, the free list of pages, trap frames and user pages live in it.  Kernel objects that
  the code allocates statically (process table, buffers, inodes, files) are functions from
  indices to records, and pointers to them are indices.

  \<^bold>\<open>State.\<close>  One extensible record grows along the theories, so that each routine works on every
  richer state: \<open>mach\<close> (Machine: harts, CPUs, locks, memory), \<open>kmem_st\<close> (Kalloc), \<open>vm_st\<close> (Vm),
  \<open>proc_st\<close> (Proc), \<open>sleep_st\<close> (Sleeplock), \<open>bio_st\<close> (Bio: buffers, disk, and the list of all disk
  writes), \<open>vio_st\<close> (Virtio), \<open>log_st\<close> (Log), \<open>fs_st\<close> (Fs), \<open>uart_st\<close> and \<open>cons_st\<close> (Console), \<open>pipe_st\<close>
  (Pipe), \<open>file_st\<close> (File), \<open>sys_st\<close> (Syscall), \<open>trap_st\<close> (Trap), \<open>boot_st\<close> (Boot).

  \<^bold>\<open>Parts and theories.\<close>
  Layout: constants, page and page-table arithmetic (\<^verbatim>\<open>riscv.h\<close>, \<^verbatim>\<open>memlayout.h\<close>, \<^verbatim>\<open>param.h\<close>).
  Machine, Spinlock: registers, \<^verbatim>\<open>push_off\<close>/\<^verbatim>\<open>pop_off\<close>, \<^verbatim>\<open>spinlock.c\<close>; an interleaving step relation of the
  atomic actions of several harts with mutual exclusion by rule induction (C3), and the nesting
  of interrupt disabling (C26).
  Kstring, Memory: \<^verbatim>\<open>string.c\<close> on byte memory (C27); little-endian access.
  Kalloc: \<^verbatim>\<open>kalloc.c\<close>; the free list threaded through the free pages, the locale \<open>page_allocator\<close> with
  its interpretation, initialisation (C28), allocation of distinct pages (C16), bad arguments (C36).
  Vm: \<^verbatim>\<open>vm.c\<close>.  PageTable: a page table in memory as a map from paths to table pages; \<open>walk\<close> and
  \<open>mappages\<close> against it (C5).  AddrSpace: growing and shrinking a user address space (C6).
  UserCopy: what \<^verbatim>\<open>copyin\<close> delivers (C15).
  Proc, Process: \<^verbatim>\<open>proc.c\<close> and \<^verbatim>\<open>exec.c\<close>.  ProcProps: \<^verbatim>\<open>wakeup\<close> (C35), process identifiers, the scheduler's
  choice.  Sleeplock: \<^verbatim>\<open>sleeplock.c\<close>.
  Frames: the locale \<open>frame\<close> of routines that respect a relation, interpreted for the control
  state that locking, sleeping and waking may change.
  Bio, Virtio, Log, Fs: \<^verbatim>\<open>bio.c\<close>, \<^verbatim>\<open>virtio_disk.c\<close>, \<^verbatim>\<open>log.c\<close>, \<^verbatim>\<open>fs.c\<close>.  DiskLayout: inodes written and read
  back (C33), the free bitmap as a set (C34).
  Ready, BufList, Cache, CacheOps, CacheProps: the block cache.  Ready gives the sleep locks in closed form for a
  process that runs without spin locks; BufList the doubly linked list of the buffers; Cache the cache invariant \<open>binv\<close> and the
  contents \<open>bval\<close> of the blocks; CacheOps what each operation of \<^verbatim>\<open>bio.c\<close> does to them.  CacheProps: \<^verbatim>\<open>binit\<close> (C24), coherence
  of \<^verbatim>\<open>bread\<close> (C4), least-recently-used order (C23), running out of buffers.
  VirtioProps: a disk request through the driver, the device and the interrupt handler does what the cache takes \<^verbatim>\<open>virtio_disk_rw\<close> to
  do (C11).
  LogSteps, Crash, Recovery, LogProps: the log.  LogSteps has one round of each loop of \<^verbatim>\<open>log.c\<close>; Crash the list of block
  writes of a commit and the replay of a log as functions; Recovery that \<^verbatim>\<open>commit\<close> installs a transaction (C10), that a crash at any
  write is atomic (C1) and that recovery may crash (C2); LogProps \<^verbatim>\<open>begin_op\<close> (C25), \<^verbatim>\<open>log_write\<close> (C8), the space
  they disagree about (C38) and \<^verbatim>\<open>end_op\<close> (C9).  FsBlocks: \<^verbatim>\<open>balloc\<close> of
  \<^verbatim>\<open>fs.c\<close> inside a transaction, through the cache and the log (C40), for a bitmap of one block.  LogWitness: concrete
  states of transactions.
  Console: \<^verbatim>\<open>uart.c\<close>, \<^verbatim>\<open>printf.c\<close>, \<^verbatim>\<open>console.c\<close>.
  Ring: ring buffers with free-running counters and the locale \<open>bounded_fifo\<close>.  Pipe: \<^verbatim>\<open>pipe.c\<close>, an
  interpretation of \<open>bounded_fifo\<close>; the ring refines a queue (C7), \<^verbatim>\<open>pipewrite\<close> appends user bytes
  (C29), \<^verbatim>\<open>piperead\<close> takes a prefix (C30).
  File, Syscall, Trap, Boot: \<^verbatim>\<open>file.c\<close>, \<^verbatim>\<open>syscall.c\<close>, \<^verbatim>\<open>sysfile.c\<close>, \<^verbatim>\<open>sysproc.c\<close>, \<^verbatim>\<open>trap.c\<close>, \<^verbatim>\<open>plic.c\<close>,
  \<^verbatim>\<open>main.c\<close>, \<^verbatim>\<open>start.c\<close>.
  TrapProps: the state in which \<^verbatim>\<open>usertrapret\<close> leaves for user space (C37).
  Mkfs: \<^verbatim>\<open>mkfs/mkfs.c\<close> on the sectors of the image.  MkfsImage: the addresses of an inode as slots and the loop of \<^verbatim>\<open>iappend\<close>; MkfsProps:
  the image as a list of files, \<^verbatim>\<open>iappend\<close> (C13) and the whole program (C12).
  Uproc: user programs as trees of system calls with labels for the heads of their loops, and the locales \<open>bookkeeping\<close>, of programs
  that account for their descriptors, and \<open>server\<close>, of programs that end only after a failed call.  SmallProgs: \<^verbatim>\<open>echo\<close>, \<^verbatim>\<open>kill\<close>, \<^verbatim>\<open>ln\<close>,
  \<^verbatim>\<open>mkdir\<close>, \<^verbatim>\<open>rm\<close>, \<^verbatim>\<open>sleep\<close>, \<^verbatim>\<open>zombie\<close>, \<^verbatim>\<open>xargs\<close>, \<^verbatim>\<open>init\<close>, \<^verbatim>\<open>ls\<close> and \<^verbatim>\<open>find\<close>; interpretations of the locales for \<^verbatim>\<open>ls\<close> and \<^verbatim>\<open>find\<close> (C22) and
  \<^verbatim>\<open>init\<close> (C39).
  Shell, ShellProps: the parser of \<^verbatim>\<open>user/sh.c\<close>; it returns on every line (C20), yields well-formed commands (C19) and terminates every
  token (C18).  ShellRun: \<^verbatim>\<open>runcmd\<close> and the main loop, and the descriptors of a pipeline (C21).  UserTools: \<^verbatim>\<open>wc.c\<close>, \<^verbatim>\<open>cat.c\<close>, \<^verbatim>\<open>main\<close> of
  \<^verbatim>\<open>grep.c\<close>, and \<^verbatim>\<open>pingpong.c\<close>, which can get stuck.  Umalloc: \<^verbatim>\<open>user/umalloc.c\<close>; \<^verbatim>\<open>free\<close> adds exactly the freed block (C17).
  UserProgs: the sieve \<^verbatim>\<open>user/primes.c\<close>, which runs past the end of its array.
  Ulib: \<^verbatim>\<open>user/ulib.c\<close>, \<^verbatim>\<open>user/printf.c\<close>, \<^verbatim>\<open>user/grep.c\<close>; the matcher of \<^verbatim>\<open>grep\<close> against the language of
  its pattern (C14), \<^verbatim>\<open>atoi\<close> inverse to \<^verbatim>\<open>printint\<close> (C31), the size of what \<^verbatim>\<open>printint\<close> stores (C32).
  Zero: a concrete kernel state and the witnesses that start from it.

  \<^bold>\<open>Bounds.\<close>  Searches along the buffer list take NBUF + 1 steps as fuel, one per node and one for
  the head; \<^verbatim>\<open>free_chain\<close> takes NUM + 1, since a second visit of a descriptor panics; \<^verbatim>\<open>uartstart\<close> takes
  33, the ring holds 32 bytes; \<^verbatim>\<open>kill_line\<close> takes 129, the input buffer holds 128.  The
  parser of the shell takes one more than the length of the line for each loop and for its recursion, since every round
  consumes a character (C20); \<^verbatim>\<open>free\<close> takes one step per block of the free list and one for its base (C17); the loop of
  \<^verbatim>\<open>malloc\<close> has a bound as argument.  All other loops terminate by a measure.

  \<^bold>\<open>Not modelled.\<close>  Assembly (\<^verbatim>\<open>entry.S\<close>, \<^verbatim>\<open>swtch.S\<close>, \<^verbatim>\<open>trampoline.S\<close>, \<^verbatim>\<open>kernelvec.S\<close>), since registers other than those the C code
  reads and writes are not part of the state; the devices, whose side of the registers is part of the state, and of
  which the disk is a parameter with its documented behaviour as hypothesis (C11); \<^verbatim>\<open>ramdisk.c\<close>, which the kernel does not link and which uses fields the buffers no longer have;
  the test programs (\<^verbatim>\<open>usertests.c\<close>, \<^verbatim>\<open>grind.c\<close>, \<^verbatim>\<open>forktest.c\<close>, \<^verbatim>\<open>stressfs.c\<close>), which exercise the system and are not part of it.  The machine-mode
  accessors of \<^verbatim>\<open>riscv.h\<close> are the fields \<^verbatim>\<open>start.c\<close> uses; the others have no caller.  Of a \<^verbatim>\<open>printf\<close> conversion without
  an argument, undefined in C, the model prints the two characters.
\<close>

end
